(* ===== verification/Uring_Prelude.thy ===== *)
theory Uring_Prelude
  imports Main "HOL-Library.Word" "HOL-Library.Finite_Map"
begin

unbundle bit_operations_syntax

text \<open>
  The prelude of the development: the machine types of the target (a 64-bit Linux), Rust's
  \<^verbatim>\<open>Result\<close>, \<^verbatim>\<open>Poll\<close> and panics as values, the \<^verbatim>\<open>io::Error\<close>s the crate makes, the
  operations of the \<^verbatim>\<open>slab\<close> crate the driver calls (the contents of a slab is a finite map, the
  choice of the vacant key is a parameter), and the lemmas on them that the components share.
\<close>

section \<open>Machine types\<close>

type_synonym u8 = "8 word"
type_synonym u16 = "16 word"
type_synonym u32 = "32 word"
type_synonym i32 = "32 word"

text \<open>
  A \<^verbatim>\<open>usize\<close> or \<^verbatim>\<open>u64\<close> is a \<open>nat\<close>; where the source checks for overflow or uses the
  largest value as a sentinel, the model does the same against this bound.
\<close>

definition usize_MAX :: nat where
  "usize_MAX = 18446744073709551615"

definition checked_add :: "nat \<Rightarrow> nat \<Rightarrow> nat option" where
  "checked_add a b = (if a + b \<le> usize_MAX then Some (a + b) else None)"

type_synonym addr = nat
type_synonym raw_fd = int
type_synonym waker = nat

text \<open>\<^verbatim>\<open>libc::iovec\<close>.\<close>

record iovec =
  iov_base :: addr
  iov_len :: nat

section \<open>Results, polls and panics\<close>

datatype ('a, 'e) result = Ok 'a | Err 'e

datatype 'a poll = Ready 'a | Pending

datatype panic =
    Assertion
  | Expect string
  | Unreachable string
  | IndexOutOfBounds
  | UnwrapNone
  | AlreadyBorrowed
  | Explicit string
  | ArithOverflow

text \<open>A computation that may panic: \<open>Inl\<close> the panic, \<open>Inr\<close> the value.\<close>

type_synonym 'a exec = "panic + 'a"

definition bind_exec :: "'a exec \<Rightarrow> ('a \<Rightarrow> 'b exec) \<Rightarrow> 'b exec" where
  "bind_exec m f = (case m of Inl p \<Rightarrow> Inl p | Inr x \<Rightarrow> f x)"

datatype error_kind =
    NotFound | AlreadyExists | WriteZero | InvalidInput | InvalidData | BrokenPipe | Other | Uncategorized

datatype io_error = OsError i32 | KindError error_kind string

fun raw_os_error :: "io_error \<Rightarrow> i32 option" where
  "raw_os_error (OsError n) = Some n"
| "raw_os_error (KindError k m) = None"

text \<open>Linux error numbers the crate compares with.\<close>

definition ENOENT :: i32 where "ENOENT = 2"
definition EINTR :: i32 where "EINTR = 4"
definition EBUSY :: i32 where "EBUSY = 16"
definition EEXIST :: i32 where "EEXIST = 17"
definition EINVAL :: i32 where "EINVAL = 22"

text \<open>\<^verbatim>\<open>io::Error::kind\<close>, for the kinds the crate asks about.\<close>

fun error_kind_of :: "io_error \<Rightarrow> error_kind" where
  "error_kind_of (OsError n) =
     (if n = ENOENT then NotFound else if n = EEXIST then AlreadyExists
      else if n = EINVAL then InvalidInput else Uncategorized)"
| "error_kind_of (KindError k m) = k"

section \<open>The slab crate\<close>

text \<open>
  \<^verbatim>\<open>slab::Slab\<close> is not code of this repository. What the driver sees of one is its occupied
  keys and their values, a finite map. Which vacant key an insertion takes is decided by the
  crate: a function of the occupied keys, a parameter of every definition that inserts.
  \<open>None\<close> is the crate's capacity panic. \<open>slab_alloc_ok\<close> is the documented contract: the key
  returned was vacant, and it is an index of a vector, so below \<^verbatim>\<open>usize::MAX\<close>.
\<close>

type_synonym 'a slab = "(nat, 'a) fmap"
type_synonym slab_alloc = "nat set \<Rightarrow> nat option"

definition slab_alloc_ok :: "slab_alloc \<Rightarrow> bool" where
  "slab_alloc_ok al \<longleftrightarrow> (\<forall>S k. al S = Some k \<longrightarrow> k \<notin> S \<and> k < usize_MAX)"

definition slab_insert :: "slab_alloc \<Rightarrow> 'a \<Rightarrow> 'a slab \<Rightarrow> (nat \<times> 'a slab) exec" where
  "slab_insert al v m =
     (case al (fmdom' m) of
        None \<Rightarrow> Inl (Expect ''slab capacity'')
      | Some k \<Rightarrow> Inr (k, fmupd k v m))"

definition slab_index :: "'a slab \<Rightarrow> nat \<Rightarrow> 'a exec" where
  "slab_index m k = (case fmlookup m k of None \<Rightarrow> Inl (Expect ''invalid key'') | Some v \<Rightarrow> Inr v)"

definition slab_try_remove :: "nat \<Rightarrow> 'a slab \<Rightarrow> 'a option \<times> 'a slab" where
  "slab_try_remove k m = (fmlookup m k, fmdrop k m)"

definition slab_remove :: "nat \<Rightarrow> 'a slab \<Rightarrow> ('a \<times> 'a slab) exec" where
  "slab_remove k m =
     (case fmlookup m k of None \<Rightarrow> Inl (Expect ''invalid key'') | Some v \<Rightarrow> Inr (v, fmdrop k m))"

definition slab_keys :: "'a slab \<Rightarrow> nat list" where
  "slab_keys m = sorted_list_of_set (fmdom' m)"

definition slab_is_empty :: "'a slab \<Rightarrow> bool" where
  "slab_is_empty m \<longleftrightarrow> fmdom' m = {}"

text \<open>An allocator that satisfies the contract, for concrete runs: the first vacant key below \<open>n\<close>.\<close>

definition first_vacant :: "nat \<Rightarrow> slab_alloc" where
  "first_vacant n S = find (\<lambda>k. k \<notin> S) [0..<n]"

section \<open>Collections of facts\<close>

named_theorems slab_defs \<open>definitions of the slab operations\<close>
named_theorems exec_simps \<open>sequencing of computations that may panic\<close>

declare slab_insert_def [slab_defs] slab_index_def [slab_defs]
  slab_try_remove_def [slab_defs] slab_remove_def [slab_defs]

section \<open>Shared lemmas\<close>

lemma bind_exec_Inl [simp, exec_simps]: "bind_exec (Inl p) f = Inl p"
  by (simp add: bind_exec_def)

lemma bind_exec_Inr [simp, exec_simps]: "bind_exec (Inr x) f = f x"
  by (simp add: bind_exec_def)

lemma bind_exec_eq_Inr:
  "bind_exec m f = Inr y \<longleftrightarrow> (\<exists>x. m = Inr x \<and> f x = Inr y)"
  by (cases m) auto

lemma bind_exec_cong [fundef_cong]:
  "m = m' \<Longrightarrow> (\<And>x. m' = Inr x \<Longrightarrow> f x = g x) \<Longrightarrow> bind_exec m f = bind_exec m' g"
  by (cases m') auto

lemma checked_add_Some: "checked_add a b = Some c \<longleftrightarrow> c = a + b \<and> a + b \<le> usize_MAX"
  by (auto simp: checked_add_def)

lemma slab_alloc_okD:
  assumes "slab_alloc_ok al" and "al S = Some k"
  shows "k \<notin> S" and "k < usize_MAX" and "k \<noteq> usize_MAX"
  using assms by (auto simp: slab_alloc_ok_def)

lemma first_vacant_ok: "n \<le> usize_MAX \<Longrightarrow> slab_alloc_ok (first_vacant n)"
  by (auto simp: slab_alloc_ok_def first_vacant_def find_Some_iff)

lemma slab_insert_Inr:
  "slab_insert al v m = Inr (k, m') \<longleftrightarrow> al (fmdom' m) = Some k \<and> m' = fmupd k v m"
  by (auto simp: slab_insert_def split: option.splits)

lemma fmlookup_None_iff: "fmlookup m k = None \<longleftrightarrow> k \<notin> fmdom' m"
  by (metis fmdom'_notD fmdom'_notI)

lemma fmlookup_SomeD: "fmlookup m k = Some v \<Longrightarrow> k \<in> fmdom' m"
  by (rule fmdom'I)

lemma in_fmdom'D: "k \<in> fmdom' m \<Longrightarrow> \<exists>v. fmlookup m k = Some v"
  by (metis fmlookup_None_iff not_None_eq)

lemma card_fmdrop_less:
  assumes "fmlookup m k = Some v"
  shows "card (fmdom' (fmdrop k m)) < card (fmdom' m)"
proof -
  have "k \<in> fmdom' m" using assms by (rule fmlookup_SomeD)
  moreover have "finite (fmdom' m)" by simp
  ultimately have "card (fmdom' m - {k}) < card (fmdom' m)"
    by (simp add: card_Diff1_less del: card_Diff_insert)
  then show ?thesis by simp
qed

lemma slab_keys_set [simp]: "set (slab_keys m) = fmdom' m"
  by (simp add: slab_keys_def)

lemma slab_keys_distinct [simp]: "distinct (slab_keys m)"
  by (simp add: slab_keys_def)

end
