(* ===== verification/Slab_List.thy ===== *)
theory Slab_List
  imports Uring_Prelude
begin

text \<open>
  \<^verbatim>\<open>src/src/runtime/driver/op/slab_list.rs\<close>: linked lists whose nodes live in one slab, several
  lists sharing it. A list is known by the keys of its first and last node. The definitions follow
  the methods of \<^verbatim>\<open>SlabListIndices\<close> and \<^verbatim>\<open>SlabList\<close>; \<open>list_rep\<close> says that a pair of
  indices represents the nodes \<open>ks\<close>, and the lemmas show that each operation acts on the list of
  entries as the FIFO queue operation it is meant to be and leaves every other list of the slab
  alone.
\<close>

section \<open>Indices, entries and lists\<close>

record slab_list_indices =
  il_start :: nat
  il_end :: nat

record 'a slab_list_entry =
  le_entry :: 'a
  le_next :: nat

record 'a slab_list =
  sl_index :: slab_list_indices
  sl_slab :: "'a slab_list_entry slab"

definition slab_list_indices_new :: slab_list_indices where
  "slab_list_indices_new = (let start = usize_MAX in \<lparr>il_start = start, il_end = start\<rparr>)"

definition from_indices :: "slab_list_indices \<Rightarrow> 'a slab_list_entry slab \<Rightarrow> 'a slab_list" where
  "from_indices index slab = \<lparr>sl_index = index, sl_slab = slab\<rparr>"

definition into_list :: "slab_list_indices \<Rightarrow> 'a slab_list_entry slab \<Rightarrow> 'a slab_list" where
  "into_list ix slab = from_indices ix slab"

definition indices_is_empty :: "slab_list_indices \<Rightarrow> bool" where
  "indices_is_empty ix \<longleftrightarrow> il_start ix = usize_MAX"

definition slab_list_is_empty :: "'a slab_list \<Rightarrow> bool" where
  "slab_list_is_empty l \<longleftrightarrow> il_start (sl_index l) = usize_MAX"

text \<open>The most recently pushed entry; indexing the slab panics on a vacant key.\<close>

definition peek_end :: "'a slab_list \<Rightarrow> 'a option exec" where
  "peek_end l =
     (if il_end (sl_index l) = usize_MAX then Inr None
      else bind_exec (slab_index (sl_slab l) (il_end (sl_index l))) (\<lambda>e. Inr (Some (le_entry e))))"

definition pop :: "'a slab_list \<Rightarrow> 'a option \<times> 'a slab_list" where
  "pop l =
     (case slab_try_remove (il_start (sl_index l)) (sl_slab l) of
        (None, slab) \<Rightarrow> (None, l\<lparr>sl_slab := slab\<rparr>)
      | (Some e, slab) \<Rightarrow>
          (Some (le_entry e),
           l\<lparr>sl_slab := slab,
             sl_index := \<lparr>il_start = le_next e,
                          il_end = (if le_next e = usize_MAX then usize_MAX
                                    else il_end (sl_index l))\<rparr>\<rparr>))"

definition push :: "slab_alloc \<Rightarrow> 'a \<Rightarrow> 'a slab_list \<Rightarrow> 'a slab_list exec" where
  "push al v l =
     (let prev = il_end (sl_index l); entry = \<lparr>le_entry = v, le_next = usize_MAX\<rparr> in
      bind_exec (slab_insert al entry (sl_slab l)) (\<lambda>(k, slab).
        if prev \<noteq> usize_MAX then
          bind_exec (slab_index slab prev) (\<lambda>e.
            Inr \<lparr>sl_index = (sl_index l)\<lparr>il_end := k\<rparr>,
                 sl_slab = fmupd prev (e\<lparr>le_next := k\<rparr>) slab\<rparr>)
        else Inr \<lparr>sl_index = \<lparr>il_start = k, il_end = k\<rparr>, sl_slab = slab\<rparr>))"

text \<open>
  \<^verbatim>\<open>Drop for SlabList\<close>: the loop removes the first node until the list is empty. Every round
  removes an entry of a finite slab, so it ends; a dangling \<^verbatim>\<open>start\<close> panics in
  \<^verbatim>\<open>Slab::remove\<close>.
\<close>

function slab_list_drop :: "'a slab_list \<Rightarrow> 'a slab_list_entry slab exec" where
  "slab_list_drop l =
     (if slab_list_is_empty l then Inr (sl_slab l)
      else bind_exec (slab_remove (il_start (sl_index l)) (sl_slab l)) (\<lambda>(removed, slab).
        slab_list_drop (l\<lparr>sl_slab := slab, sl_index := (sl_index l)\<lparr>il_start := le_next removed\<rparr>\<rparr>)))"
  by pat_completeness auto
termination
  by (relation "measure (\<lambda>l. card (fmdom' (sl_slab l)))")
     (auto simp: slab_remove_def card_fmdrop_less split: option.splits simp del: fmdom'_drop)

declare slab_list_drop.simps [simp del]

text \<open>
  \<^verbatim>\<open>into_indices\<close> takes the indices out and drops \<^verbatim>\<open>self\<close>, whose list is empty by then.
\<close>

definition into_indices :: "'a slab_list \<Rightarrow> (slab_list_indices \<times> 'a slab_list_entry slab) exec" where
  "into_indices l =
     bind_exec (slab_list_drop (l\<lparr>sl_index := slab_list_indices_new\<rparr>))
       (\<lambda>slab. Inr (sl_index l, slab))"

section \<open>What a pair of indices represents\<close>

text \<open>\<open>chain m s ks\<close>: following the \<^verbatim>\<open>next\<close> links from \<open>s\<close> visits exactly the keys \<open>ks\<close>.\<close>

primrec chain :: "'a slab_list_entry slab \<Rightarrow> nat \<Rightarrow> nat list \<Rightarrow> bool" where
  "chain m s [] \<longleftrightarrow> s = usize_MAX"
| "chain m s (k # ks) \<longleftrightarrow>
     s = k \<and> k \<noteq> usize_MAX \<and> (\<exists>e. fmlookup m k = Some e \<and> chain m (le_next e) ks)"

definition entries_at :: "'a slab_list_entry slab \<Rightarrow> nat list \<Rightarrow> 'a list" where
  "entries_at m ks = map (\<lambda>k. le_entry (the (fmlookup m k))) ks"

definition end_of :: "nat list \<Rightarrow> nat" where
  "end_of ks = (if ks = [] then usize_MAX else last ks)"

definition list_rep :: "'a slab_list_entry slab \<Rightarrow> slab_list_indices \<Rightarrow> nat list \<Rightarrow> bool" where
  "list_rep m ix ks \<longleftrightarrow> chain m (il_start ix) ks \<and> il_end ix = end_of ks"

text \<open>The keys and the contents of a list, computed by walking it.\<close>

function walk :: "'a slab_list_entry slab \<Rightarrow> nat \<Rightarrow> nat list" where
  "walk m s =
     (if s = usize_MAX then []
      else case fmlookup m s of None \<Rightarrow> [] | Some e \<Rightarrow> s # walk (fmdrop s m) (le_next e))"
  by pat_completeness auto
termination
  by (relation "measure (\<lambda>(m, s). card (fmdom' m))") (auto simp: card_fmdrop_less simp del: fmdom'_drop)

declare walk.simps [simp del]

definition contents :: "'a slab_list \<Rightarrow> 'a list" where
  "contents l = entries_at (sl_slab l) (walk (sl_slab l) (il_start (sl_index l)))"

definition slab_list_wf :: "'a slab_list \<Rightarrow> bool" where
  "slab_list_wf l \<longleftrightarrow>
     list_rep (sl_slab l) (sl_index l) (walk (sl_slab l) (il_start (sl_index l)))"

section \<open>Facts about chains\<close>

lemma chain_MAX [simp]: "chain m usize_MAX ks \<longleftrightarrow> ks = []"
  by (cases ks) auto

lemma chain_in_dom: "chain m s ks \<Longrightarrow> k \<in> set ks \<Longrightarrow> k \<in> fmdom' m \<and> k \<noteq> usize_MAX"
  by (induction ks arbitrary: s) (auto simp: fmlookup_SomeD split: option.splits)

lemma chain_unique: "chain m s ks \<Longrightarrow> chain m s ks' \<Longrightarrow> ks = ks'"
proof (induction ks arbitrary: s ks')
  case Nil
  then show ?case by simp
next
  case (Cons k ks)
  then show ?case by (cases ks') (auto split: option.splits)
qed

lemma chain_upd: "k \<notin> set ks \<Longrightarrow> chain (fmupd k e m) s ks = chain m s ks"
  by (induction ks arbitrary: s) auto

lemma chain_drop: "k \<notin> set ks \<Longrightarrow> chain (fmdrop k m) s ks = chain m s ks"
  by (induction ks arbitrary: s) auto

lemma chain_cong:
  "(\<And>k. k \<in> set ks \<Longrightarrow> fmlookup m' k = fmlookup m k) \<Longrightarrow> chain m' s ks = chain m s ks"
  by (induction ks arbitrary: s) (auto split: option.splits)

lemma chain_suffix: "chain m s (xs @ k # ys) \<Longrightarrow> chain m k (k # ys)"
  by (induction xs arbitrary: s) (auto split: option.splits)

lemma chain_distinct: "chain m s ks \<Longrightarrow> distinct ks"
proof (induction ks arbitrary: s)
  case Nil
  then show ?case by simp
next
  case (Cons k ks)
  then obtain e where e: "fmlookup m k = Some e" "chain m (le_next e) ks"
    by (auto split: option.splits)
  have "k \<notin> set ks"
  proof
    assume "k \<in> set ks"
    then obtain xs ys where ks: "ks = xs @ k # ys" by (meson split_list)
    with e have "chain m k (k # ys)" by (auto dest: chain_suffix)
    moreover have "chain m k (k # ks)" using Cons.prems by auto
    ultimately show False using ks by (auto dest: chain_unique)
  qed
  with Cons.IH e show ?case by auto
qed

lemma entries_at_cong:
  "(\<And>k. k \<in> set ks \<Longrightarrow> fmlookup m' k = fmlookup m k) \<Longrightarrow> entries_at m' ks = entries_at m ks"
  by (simp add: entries_at_def)

lemma entries_at_upd: "k \<notin> set ks \<Longrightarrow> entries_at (fmupd k e m) ks = entries_at m ks"
  by (rule entries_at_cong) auto

lemma entries_at_drop: "k \<notin> set ks \<Longrightarrow> entries_at (fmdrop k m) ks = entries_at m ks"
  by (rule entries_at_cong) auto

lemma entries_at_append: "entries_at m (ks @ ks') = entries_at m ks @ entries_at m ks'"
  by (simp add: entries_at_def)

lemma entries_at_Nil [simp]: "entries_at m [] = []"
  by (simp add: entries_at_def)

lemma entries_at_eq_Nil [simp]: "entries_at m ks = [] \<longleftrightarrow> ks = []"
  by (simp add: entries_at_def)

text \<open>A chain can be extended at its end: the last node is relinked to the new one.\<close>

lemma chain_extend:
  assumes "chain m s (ks @ [k])" and "fmlookup m k = Some e" and "k' \<notin> fmdom' m"
    and "k' \<noteq> usize_MAX" and "le_next e' = usize_MAX"
  shows "chain (fmupd k (e\<lparr>le_next := k'\<rparr>) (fmupd k' e' m)) s (ks @ [k, k'])"
  using assms
proof (induction ks arbitrary: s)
  case Nil
  then show ?case by (auto simp: fmlookup_SomeD)
next
  case (Cons x xs)
  then obtain e0 where e0: "fmlookup m x = Some e0" "chain m (le_next e0) (xs @ [k])"
    by (auto split: option.splits)
  from Cons.prems(1) have "x \<notin> set (xs @ [k])" using chain_distinct by fastforce
  then have "x \<noteq> k" by auto
  moreover have "x \<noteq> k'" using e0(1) Cons.prems(3) by (auto dest: fmlookup_SomeD)
  ultimately show ?case using Cons.IH [OF e0(2) Cons.prems(2-5)] Cons.prems(1) e0(1)
    by (auto simp: fmlookup_SomeD)
qed

lemma walk_chain: "chain m s ks \<Longrightarrow> walk m s = ks"
proof (induction ks arbitrary: m s)
  case Nil
  then show ?case by (subst walk.simps) simp
next
  case (Cons k ks)
  then obtain e where e: "fmlookup m k = Some e" "chain m (le_next e) ks" "s = k" "k \<noteq> usize_MAX"
    by (auto split: option.splits)
  moreover have "k \<notin> set ks" using chain_distinct [OF Cons.prems] by simp
  ultimately have "walk (fmdrop k m) (le_next e) = ks" by (simp add: Cons.IH chain_drop)
  then show ?case using e by (subst walk.simps) simp
qed

lemma list_rep_unique: "list_rep m ix ks \<Longrightarrow> list_rep m ix ks' \<Longrightarrow> ks = ks'"
  by (auto simp: list_rep_def dest: chain_unique)

lemma list_rep_in_dom: "list_rep m ix ks \<Longrightarrow> set ks \<subseteq> fmdom' m"
  by (auto simp: list_rep_def dest: chain_in_dom)

lemma list_rep_distinct: "list_rep m ix ks \<Longrightarrow> distinct ks"
  by (auto simp: list_rep_def dest: chain_distinct)

lemma list_rep_cong:
  "(\<And>k. k \<in> set ks \<Longrightarrow> fmlookup m' k = fmlookup m k) \<Longrightarrow> list_rep m' ix ks = list_rep m ix ks"
  unfolding list_rep_def using chain_cong [of ks m' m] by blast

lemma list_rep_walk: "list_rep m ix ks \<Longrightarrow> walk m (il_start ix) = ks"
  by (simp add: list_rep_def walk_chain)

lemma slab_list_wf_iff: "slab_list_wf l \<longleftrightarrow> (\<exists>ks. list_rep (sl_slab l) (sl_index l) ks)"
  unfolding slab_list_wf_def using list_rep_walk by metis

lemma list_rep_new [simp]: "list_rep m slab_list_indices_new ks \<longleftrightarrow> ks = []"
  by (auto simp: list_rep_def slab_list_indices_new_def end_of_def)

lemma list_rep_empty: "list_rep m ix ks \<Longrightarrow> indices_is_empty ix \<longleftrightarrow> ks = []"
  by (cases ks) (auto simp: list_rep_def indices_is_empty_def)

section \<open>The operations on a represented list\<close>

text \<open>\<^verbatim>\<open>push\<close> appends a fresh node and touches no key but the old end and the new node.\<close>

lemma push_rep:
  assumes al: "slab_alloc_ok al" and rep: "list_rep m ix ks"
    and eq: "push al v (into_list ix m) = Inr l"
  obtains k where "k \<notin> fmdom' m" and "fmdom' (sl_slab l) = insert k (fmdom' m)"
    and "list_rep (sl_slab l) (sl_index l) (ks @ [k])"
    and "entries_at (sl_slab l) (ks @ [k]) = entries_at m ks @ [v]"
    and "\<And>j. j \<noteq> k \<Longrightarrow> j \<notin> set ks \<Longrightarrow> fmlookup (sl_slab l) j = fmlookup m j"
proof -
  let ?e = "\<lparr>le_entry = v, le_next = usize_MAX\<rparr>"
  obtain k where k: "al (fmdom' m) = Some k"
    using eq by (auto simp: push_def Let_def into_list_def from_indices_def slab_insert_def split: option.splits)
  note fresh = slab_alloc_okD [OF al k]
  show ?thesis
  proof (cases ks rule: rev_cases)
    case Nil
    with rep have "il_end ix = usize_MAX" by (simp add: list_rep_def end_of_def)
    with eq k have l: "l = \<lparr>sl_index = \<lparr>il_start = k, il_end = k\<rparr>, sl_slab = fmupd k ?e m\<rparr>"
      by (simp add: push_def Let_def into_list_def from_indices_def slab_insert_def)
    show ?thesis
      by (rule that [of k]) (use fresh Nil l in \<open>auto simp: list_rep_def end_of_def entries_at_def\<close>)
  next
    case (snoc js j)
    with rep have je: "il_end ix = j" and ch: "chain m (il_start ix) (js @ [j])"
      by (auto simp: list_rep_def end_of_def)
    then have jd: "j \<in> fmdom' m" "j \<noteq> usize_MAX" by (auto dest: chain_in_dom)
  then obtain e where e: "fmlookup m j = Some e" by (blast dest: in_fmdom'D)
    have "j \<noteq> k" using jd fresh by auto
    with eq k je jd e have l: "l = \<lparr>sl_index = ix\<lparr>il_end := k\<rparr>,
        sl_slab = fmupd j (e\<lparr>le_next := k\<rparr>) (fmupd k ?e m)\<rparr>"
      by (auto simp: push_def Let_def into_list_def from_indices_def slab_insert_def slab_index_def)
    have "chain (sl_slab l) (il_start ix) (js @ [j, k])"
      using chain_extend [OF ch e fresh(1,3)] l by simp
    moreover have "j \<notin> set js" using chain_distinct [OF ch] by simp
    moreover have "k \<notin> set js" using ch fresh by (auto dest: chain_in_dom)
    ultimately show ?thesis using snoc l fresh e jd \<open>j \<noteq> k\<close>
      by (intro that [of k]) (auto simp: list_rep_def end_of_def entries_at_def)
  qed
qed

lemma push_panics_only_on_capacity:
  assumes "list_rep m ix ks" and "al (fmdom' m) \<noteq> None"
  shows "\<exists>l. push al v (into_list ix m) = Inr l"
proof (cases ks rule: rev_cases)
  case Nil
  with assms show ?thesis
    by (auto simp: list_rep_def end_of_def push_def Let_def into_list_def from_indices_def slab_insert_def)
next
  case (snoc js j)
  with assms(1) have "il_end ix = j" "j \<in> fmdom' m"
    by (auto simp: list_rep_def end_of_def dest: chain_in_dom)
  with assms(2) show ?thesis
    by (auto simp: push_def Let_def into_list_def from_indices_def slab_insert_def slab_index_def
        dest!: in_fmdom'D)
qed

text \<open>\<^verbatim>\<open>pop\<close> removes the first node and returns its entry; on an empty list it does nothing.\<close>

lemma pop_rep_Cons:
  assumes "list_rep m ix (k # ks)"
  shows "fst (pop (into_list ix m)) = Some (hd (entries_at m (k # ks)))"
    and "sl_slab (snd (pop (into_list ix m))) = fmdrop k m"
    and "list_rep (fmdrop k m) (sl_index (snd (pop (into_list ix m)))) ks"
    and "entries_at (fmdrop k m) ks = tl (entries_at m (k # ks))"
proof -
  from assms obtain e where e: "fmlookup m k = Some e" "chain m (le_next e) ks"
    "il_start ix = k" "k \<noteq> usize_MAX" "il_end ix = end_of (k # ks)"
    by (auto simp: list_rep_def)
  have nin: "k \<notin> set ks" using list_rep_distinct [OF assms] by simp
  have p: "pop (into_list ix m) = (Some (le_entry e), \<lparr>sl_index = \<lparr>il_start = le_next e,
      il_end = (if le_next e = usize_MAX then usize_MAX else il_end ix)\<rparr>, sl_slab = fmdrop k m\<rparr>)"
    using e by (simp add: pop_def into_list_def from_indices_def slab_try_remove_def)
  show "fst (pop (into_list ix m)) = Some (hd (entries_at m (k # ks)))"
    using p e by (simp add: entries_at_def)
  show "sl_slab (snd (pop (into_list ix m))) = fmdrop k m" using p by simp
  have "le_next e = usize_MAX \<longleftrightarrow> ks = []" using e(2) by (cases ks) auto
  then show "list_rep (fmdrop k m) (sl_index (snd (pop (into_list ix m)))) ks"
    using p e nin by (auto simp: list_rep_def end_of_def chain_drop)
  show "entries_at (fmdrop k m) ks = tl (entries_at m (k # ks))"
    using nin by (simp add: entries_at_drop entries_at_def)
qed

lemma pop_rep_Nil:
  assumes "list_rep m ix []" and "usize_MAX \<notin> fmdom' m"
  shows "pop (into_list ix m) = (None, into_list ix m)"
proof -
  from assms have "il_start ix = usize_MAX" "fmlookup m usize_MAX = None" "fmdrop usize_MAX m = m"
    by (auto simp: list_rep_def fmlookup_None_iff intro: fmdrop_idle')
  then show ?thesis
    by (simp add: pop_def into_list_def from_indices_def slab_try_remove_def)
qed

lemma peek_end_rep:
  assumes "list_rep m ix ks"
  shows "peek_end (into_list ix m) =
    Inr (if ks = [] then None else Some (last (entries_at m ks)))"
proof (cases ks rule: rev_cases)
  case Nil
  with assms show ?thesis
    by (simp add: list_rep_def end_of_def peek_end_def into_list_def from_indices_def)
next
  case (snoc js j)
  with assms have "il_end ix = j" "j \<in> fmdom' m" "j \<noteq> usize_MAX"
    by (auto simp: list_rep_def end_of_def dest: chain_in_dom)
  then show ?thesis using snoc
    by (auto simp: peek_end_def into_list_def from_indices_def slab_index_def entries_at_def
        dest!: in_fmdom'D)
qed

text \<open>Dropping a list removes exactly its nodes from the slab.\<close>

lemma slab_list_drop_rep:
  "chain (sl_slab l) (il_start (sl_index l)) ks \<Longrightarrow>
   slab_list_drop l = Inr (fmdrop_set (set ks) (sl_slab l))"
proof (induction ks arbitrary: l)
  case Nil
  then show ?case by (subst slab_list_drop.simps) (simp add: slab_list_is_empty_def)
next
  case (Cons k ks)
  then obtain e where e: "fmlookup (sl_slab l) k = Some e" "chain (sl_slab l) (le_next e) ks"
    "il_start (sl_index l) = k" "k \<noteq> usize_MAX" by auto
  have "k \<notin> set ks" using chain_distinct [OF Cons.prems] by simp
  then have "chain (fmdrop k (sl_slab l)) (le_next e) ks" using e(2) by (simp add: chain_drop)
  then have "slab_list_drop (l\<lparr>sl_slab := fmdrop k (sl_slab l),
      sl_index := (sl_index l)\<lparr>il_start := le_next e\<rparr>\<rparr>)
    = Inr (fmdrop_set (set ks) (fmdrop k (sl_slab l)))"
    using Cons.IH [of "l\<lparr>sl_slab := fmdrop k (sl_slab l),
      sl_index := (sl_index l)\<lparr>il_start := le_next e\<rparr>\<rparr>"] by simp
  moreover have "fmdrop_set (set ks) (fmdrop k (sl_slab l)) = fmdrop_set (set (k # ks)) (sl_slab l)"
    by (rule fmap_ext) auto
  ultimately show ?case using e
    by (subst slab_list_drop.simps) (simp add: slab_list_is_empty_def slab_remove_def)
qed

lemma drop_list_rep:
  "list_rep m ix ks \<Longrightarrow> slab_list_drop (into_list ix m) = Inr (fmdrop_set (set ks) m)"
  using slab_list_drop_rep [of "into_list ix m" ks]
  by (simp add: list_rep_def into_list_def from_indices_def)

lemma into_indices_eq [simp]: "into_indices l = Inr (sl_index l, sl_slab l)"
proof -
  have "slab_list_drop (l\<lparr>sl_index := slab_list_indices_new\<rparr>) = Inr (sl_slab l)"
    by (subst slab_list_drop.simps) (simp add: slab_list_is_empty_def slab_list_indices_new_def)
  then show ?thesis by (simp add: into_indices_def)
qed

section \<open>The queue interface\<close>

text \<open>
  What the driver relies on: a queue of completions with a fallible insertion at the back, a
  removal at the front and a look at the back. \<open>enq_all\<close> and \<open>deq_n\<close> are a client that enters
  a batch and one that takes \<open>n\<close> elements, as the \<^verbatim>\<open>Iterator\<close> of \<^verbatim>\<open>SlabList\<close> does.
\<close>

primrec enq_all :: "('a \<Rightarrow> 'q \<Rightarrow> 'q exec) \<Rightarrow> 'a list \<Rightarrow> 'q \<Rightarrow> 'q exec" where
  "enq_all enq [] q = Inr q"
| "enq_all enq (x # xs) q = bind_exec (enq x q) (enq_all enq xs)"

primrec deq_n :: "('q \<Rightarrow> 'a option \<times> 'q) \<Rightarrow> nat \<Rightarrow> 'q \<Rightarrow> 'a option list \<times> 'q" where
  "deq_n deq 0 q = ([], q)"
| "deq_n deq (Suc n) q =
     (let (x, q') = deq q; (xs, q'') = deq_n deq n q' in (x # xs, q''))"

locale fifo =
  fixes enq :: "'a \<Rightarrow> 'q \<Rightarrow> 'q exec"
    and deq :: "'q \<Rightarrow> 'a option \<times> 'q"
    and rear :: "'q \<Rightarrow> 'a option exec"
    and isempty :: "'q \<Rightarrow> bool"
    and elems :: "'q \<Rightarrow> 'a list"
    and invar :: "'q \<Rightarrow> bool"
  assumes enq_ok: "invar q \<Longrightarrow> enq x q = Inr q' \<Longrightarrow> invar q' \<and> elems q' = elems q @ [x]"
    and deq_Cons: "invar q \<Longrightarrow> elems q = x # xs \<Longrightarrow>
      \<exists>q'. deq q = (Some x, q') \<and> invar q' \<and> elems q' = xs"
    and deq_Nil: "invar q \<Longrightarrow> elems q = [] \<Longrightarrow> deq q = (None, q)"
    and rear_last: "invar q \<Longrightarrow>
      rear q = Inr (if elems q = [] then None else Some (last (elems q)))"
    and isempty_iff: "invar q \<Longrightarrow> isempty q \<longleftrightarrow> elems q = []"
begin

lemma enq_all_elems:
  "invar q \<Longrightarrow> enq_all enq xs q = Inr q' \<Longrightarrow> invar q' \<and> elems q' = elems q @ xs"
proof (induction xs arbitrary: q)
  case Nil
  then show ?case by simp
next
  case (Cons x xs)
  then obtain q1 where q1: "enq x q = Inr q1" "enq_all enq xs q1 = Inr q'"
    by (auto simp: bind_exec_eq_Inr)
  with Cons.prems(1) have "invar q1 \<and> elems q1 = elems q @ [x]" by (blast dest: enq_ok)
  with Cons.IH [of q1] q1(2) show ?case by simp
qed

lemma deq_n_elems:
  "invar q \<Longrightarrow> n \<le> length (elems q) \<Longrightarrow>
   \<exists>q'. deq_n deq n q = (map Some (take n (elems q)), q') \<and> invar q' \<and> elems q' = drop n (elems q)"
proof (induction n arbitrary: q)
  case 0
  then show ?case by simp
next
  case (Suc n)
  then obtain x xs where xs: "elems q = x # xs" by (cases "elems q") auto
  with Suc.prems obtain q1 where q1: "deq q = (Some x, q1)" "invar q1" "elems q1 = xs"
    by (blast dest: deq_Cons)
  with Suc.IH [of q1] Suc.prems(2) xs show ?case by auto
qed

lemma enq_all_then_deq:
  assumes "invar q" and "elems q = []" and "enq_all enq xs q = Inr q'"
  shows "\<exists>q''. deq_n deq (length xs) q' = (map Some xs, q'') \<and> isempty q''
    \<and> deq q'' = (None, q'')"
proof -
  from enq_all_elems [OF assms(1,3)] assms(2) have q': "invar q'" "elems q' = xs" by auto
  with deq_n_elems [of q' "length xs"] obtain q'' where
    "deq_n deq (length xs) q' = (map Some xs, q'')" "invar q''" "elems q'' = []" by auto
  then show ?thesis by (auto simp: isempty_iff deq_Nil)
qed

end

definition slab_list_inv :: "slab_alloc \<Rightarrow> 'a slab_list \<Rightarrow> bool" where
  "slab_list_inv al l \<longleftrightarrow> slab_alloc_ok al \<and> slab_list_wf l \<and> usize_MAX \<notin> fmdom' (sl_slab l)"

lemma into_list_id: "into_list (sl_index l) (sl_slab l) = l"
  by (simp add: into_list_def from_indices_def)

lemma contents_rep: "list_rep (sl_slab l) (sl_index l) ks \<Longrightarrow> contents l = entries_at (sl_slab l) ks"
  by (simp add: contents_def list_rep_walk)

lemma slab_list_inv_obtain:
  assumes "slab_list_inv al l"
  obtains ks where "list_rep (sl_slab l) (sl_index l) ks" and "contents l = entries_at (sl_slab l) ks"
    and "slab_alloc_ok al" and "usize_MAX \<notin> fmdom' (sl_slab l)"
  using assms contents_rep unfolding slab_list_inv_def slab_list_wf_iff by blast

interpretation slab_fifo: fifo "push al" pop peek_end slab_list_is_empty contents "slab_list_inv al"
  for al :: slab_alloc
proof
  fix q q' :: "'a slab_list" and x :: 'a
  assume inv: "slab_list_inv al q" and eq: "push al x q = Inr q'"
  from inv obtain ks where ks: "list_rep (sl_slab q) (sl_index q) ks"
    "contents q = entries_at (sl_slab q) ks" "slab_alloc_ok al" "usize_MAX \<notin> fmdom' (sl_slab q)"
    by (rule slab_list_inv_obtain)
  have eq': "push al x (into_list (sl_index q) (sl_slab q)) = Inr q'" using eq by (simp add: into_list_id)
  from push_rep [OF ks(3,1) eq'] obtain k where
    k: "k \<notin> fmdom' (sl_slab q)" "fmdom' (sl_slab q') = insert k (fmdom' (sl_slab q))"
      "list_rep (sl_slab q') (sl_index q') (ks @ [k])"
      "entries_at (sl_slab q') (ks @ [k]) = entries_at (sl_slab q) ks @ [x]" .
  have "k \<noteq> usize_MAX" using k(3) unfolding list_rep_def by (auto dest: chain_in_dom)
  then show "slab_list_inv al q' \<and> contents q' = contents q @ [x]"
    using k ks contents_rep [OF k(3)] by (auto simp: slab_list_inv_def slab_list_wf_iff)
next
  fix q :: "'a slab_list" and x xs
  assume inv: "slab_list_inv al q" and el: "contents q = x # xs"
  from inv obtain ks where ks: "list_rep (sl_slab q) (sl_index q) ks"
    "contents q = entries_at (sl_slab q) ks" "slab_alloc_ok al" "usize_MAX \<notin> fmdom' (sl_slab q)"
    by (rule slab_list_inv_obtain)
  with el obtain k ks' where kk: "ks = k # ks'" by (cases ks) auto
  note pr = pop_rep_Cons [OF ks(1) [unfolded kk], unfolded into_list_id]
  have rep: "list_rep (sl_slab (snd (pop q))) (sl_index (snd (pop q))) ks'" using pr(2,3) by simp
  then have "slab_list_inv al (snd (pop q))"
    using ks(3,4) pr(2) by (auto simp: slab_list_inv_def slab_list_wf_iff)
  moreover have "contents (snd (pop q)) = xs"
    using contents_rep [OF rep] pr(2,4) el ks(2) kk by simp
  moreover have "fst (pop q) = Some x" using pr(1) el ks(2) kk by simp
  ultimately show "\<exists>q'. pop q = (Some x, q') \<and> slab_list_inv al q' \<and> contents q' = xs"
    by (metis prod.collapse)
next
  fix q :: "'a slab_list"
  assume inv: "slab_list_inv al q" and el: "contents q = []"
  from inv obtain ks where "list_rep (sl_slab q) (sl_index q) ks"
    "contents q = entries_at (sl_slab q) ks" "usize_MAX \<notin> fmdom' (sl_slab q)"
    by (rule slab_list_inv_obtain)
  with el show "pop q = (None, q)" using pop_rep_Nil [of "sl_slab q" "sl_index q"]
    by (simp add: into_list_id)
next
  fix q :: "'a slab_list"
  assume "slab_list_inv al q"
  then obtain ks where "list_rep (sl_slab q) (sl_index q) ks" "contents q = entries_at (sl_slab q) ks"
    by (rule slab_list_inv_obtain)
  then show "peek_end q = Inr (if contents q = [] then None else Some (last (contents q)))"
    using peek_end_rep [of "sl_slab q" "sl_index q" ks] by (simp add: into_list_id)
next
  fix q :: "'a slab_list"
  assume "slab_list_inv al q"
  then obtain ks where "list_rep (sl_slab q) (sl_index q) ks" "contents q = entries_at (sl_slab q) ks"
    by (rule slab_list_inv_obtain)
  then show "slab_list_is_empty q = (contents q = [])"
    using list_rep_empty [of "sl_slab q" "sl_index q" ks]
    by (simp add: slab_list_is_empty_def indices_is_empty_def)
qed

end
