(* ===== verification/Op_Lifecycle.thy ===== *)
theory Op_Lifecycle
  imports Slab_List
begin

text \<open>
  \<^verbatim>\<open>src/src/runtime/driver/op/mod.rs\<close> (completions, the life cycle of an operation, the
  \<^verbatim>\<open>Op\<close> handle) and the type \<^verbatim>\<open>Ops\<close> of \<^verbatim>\<open>src/src/runtime/driver/mod.rs\<close>: the slab of
  life cycles beside the slab that holds the unserviced completions of all of them. The invariant
  \<open>ops_wf\<close> says that the completion slab is split into one list per operation in the state
  \<^verbatim>\<open>CompletionList\<close>, with nothing shared and nothing leaked; \<open>abs_ops\<close> forgets the slabs.
\<close>

section \<open>Completion queue entries\<close>

text \<open>
  \<^verbatim>\<open>io_uring::cqueue::Entry\<close> as the driver reads it: the user data, the signed result and the
  flags. \<^verbatim>\<open>cqueue::more\<close>, the test of a flag bit, is code of the \<^verbatim>\<open>io-uring\<close> crate and a
  parameter \<open>is_more\<close> of the definitions.
\<close>

record cqe =
  cq_user_data :: nat
  cq_result :: i32
  cq_flags :: u32

record cqe_result =
  cr_result :: "(u32, io_error) result"
  cr_flags :: u32

text \<open>\<^verbatim>\<open>From<cqueue::Entry> for CqeResult\<close>; \<^verbatim>\<open>-res\<close> wraps around in a release build.\<close>

definition cqe_result_from :: "cqe \<Rightarrow> cqe_result" where
  "cqe_result_from cqe =
     (let res = cq_result cqe; flags = cq_flags cqe;
          result = (if 0 <=s res then Ok res else Err (OsError (- res)))
      in \<lparr>cr_result = result, cr_flags = flags\<rparr>)"

section \<open>The operation handle\<close>

text \<open>
  \<^verbatim>\<open>Op<T, CqeType>\<close>: the index into the slab and the data, absent once the final completion
  has been consumed. The weak driver handle is modelled with the handles.
\<close>

record 'd op =
  op_index :: nat
  op_data :: "'d option"

definition op_new :: "'d \<Rightarrow> nat \<Rightarrow> 'd op" where
  "op_new data index = \<lparr>op_index = index, op_data = Some data\<rparr>"

definition is_finished :: "'d op \<Rightarrow> bool" where
  "is_finished op \<longleftrightarrow> op_data op = None"

definition take_data :: "'d op \<Rightarrow> 'd option \<times> 'd op" where
  "take_data op = (op_data op, op\<lparr>op_data := None\<rparr>)"

definition insert_data :: "'d op \<Rightarrow> 'd \<Rightarrow> 'd op" where
  "insert_data op data = op\<lparr>op_data := Some data\<rparr>"

section \<open>Life cycles\<close>

text \<open>
  \<^verbatim>\<open>Ignored\<close> holds the boxed data of a dropped operation, \<open>Some d\<close>, the \<^verbatim>\<open>Option\<close> that
  \<^verbatim>\<open>take_data\<close> moved out of the handle, or the unit that the shutdown code puts there, \<open>None\<close>.
\<close>

datatype 'd lifecycle =
    Submitted
  | Waiting waker
  | Ignored "'d option"
  | Completed cqe
  | CompletionList slab_list_indices

type_synonym completions = "cqe_result slab_list_entry slab"

text \<open>
  \<^verbatim>\<open>Lifecycle::complete\<close>: whether the entry can be removed, the new life cycle, the new
  completion slab and the wakers woken.
\<close>

fun lifecycle_complete ::
  "(u32 \<Rightarrow> bool) \<Rightarrow> slab_alloc \<Rightarrow> 'd lifecycle \<Rightarrow> completions \<Rightarrow> cqe
   \<Rightarrow> (bool \<times> 'd lifecycle \<times> completions \<times> waker list) exec" where
  "lifecycle_complete is_more al Submitted comps cqe =
     (if is_more (cq_flags cqe) then
        bind_exec (push al (cqe_result_from cqe) (into_list slab_list_indices_new comps)) (\<lambda>list.
        bind_exec (into_indices list) (\<lambda>(ix, comps').
          Inr (False, CompletionList ix, comps', [])))
      else Inr (False, Completed cqe, comps, []))"
| "lifecycle_complete is_more al (Waiting waker) comps cqe =
     (if is_more (cq_flags cqe) then
        bind_exec (push al (cqe_result_from cqe) (into_list slab_list_indices_new comps)) (\<lambda>list.
        bind_exec (into_indices list) (\<lambda>(ix, comps').
          Inr (False, CompletionList ix, comps', [waker])))
      else Inr (False, Completed cqe, comps, [waker]))"
| "lifecycle_complete is_more al (Ignored data) comps cqe =
     (if is_more (cq_flags cqe) then Inr (False, Ignored data, comps, [])
      else Inr (True, Submitted, comps, []))"
| "lifecycle_complete is_more al (Completed c) comps cqe =
     Inl (Unreachable ''invalid operation state'')"
| "lifecycle_complete is_more al (CompletionList indices) comps cqe =
     bind_exec (push al (cqe_result_from cqe) (into_list indices comps)) (\<lambda>list.
     bind_exec (into_indices list) (\<lambda>(ix, comps').
       Inr (False, CompletionList ix, comps', [])))"

section \<open>The slabs of the driver\<close>

record 'd ops =
  lifecycle :: "'d lifecycle slab"
  completions :: completions

definition ops_new :: "'d ops" where
  "ops_new = \<lparr>lifecycle = fmempty, completions = fmempty\<rparr>"

definition ops_insert :: "slab_alloc \<Rightarrow> 'd ops \<Rightarrow> (nat \<times> 'd ops) exec" where
  "ops_insert al o1 =
     bind_exec (slab_insert al Submitted (lifecycle o1)) (\<lambda>(k, lcs). Inr (k, o1\<lparr>lifecycle := lcs\<rparr>))"

definition ops_remove :: "nat \<Rightarrow> 'd ops \<Rightarrow> 'd ops exec" where
  "ops_remove index o1 =
     bind_exec (slab_remove index (lifecycle o1)) (\<lambda>(_, lcs). Inr (o1\<lparr>lifecycle := lcs\<rparr>))"

text \<open>\<^verbatim>\<open>Ops::complete\<close>: indexing the slab panics on a vacant key.\<close>

definition ops_complete ::
  "(u32 \<Rightarrow> bool) \<Rightarrow> slab_alloc \<Rightarrow> nat \<Rightarrow> cqe \<Rightarrow> 'd ops \<Rightarrow> ('d ops \<times> waker list) exec" where
  "ops_complete is_more al index cqe o1 =
     bind_exec (slab_index (lifecycle o1) index) (\<lambda>lc.
     bind_exec (lifecycle_complete is_more al lc (completions o1) cqe) (\<lambda>(done, lc', comps', ws).
       let o2 = \<lparr>lifecycle = fmupd index lc' (lifecycle o1), completions = comps'\<rparr> in
       if done then bind_exec (ops_remove index o2) (\<lambda>o3. Inr (o3, ws)) else Inr (o2, ws)))"

text \<open>\<^verbatim>\<open>Drop for Ops\<close> asserts that only completed operations are left.\<close>

definition ops_drop :: "'d ops \<Rightarrow> unit exec" where
  "ops_drop o1 =
     (if list_all (\<lambda>k. case fmlookup (lifecycle o1) k of Some (Completed c) \<Rightarrow> True | _ \<Rightarrow> False)
           (slab_keys (lifecycle o1))
      then Inr () else Inl Assertion)"

section \<open>The invariant of the slabs\<close>

text \<open>The completion keys an operation owns.\<close>

definition owns :: "'d ops \<Rightarrow> nat \<Rightarrow> nat list" where
  "owns o1 k =
     (case fmlookup (lifecycle o1) k of
        Some (CompletionList ix) \<Rightarrow> walk (completions o1) (il_start ix)
      | _ \<Rightarrow> [])"

definition pending :: "'d ops \<Rightarrow> nat \<Rightarrow> cqe_result list" where
  "pending o1 k = entries_at (completions o1) (owns o1 k)"

definition ops_wf :: "'d ops \<Rightarrow> bool" where
  "ops_wf o1 \<longleftrightarrow>
     (\<forall>k ix. fmlookup (lifecycle o1) k = Some (CompletionList ix) \<longrightarrow>
        list_rep (completions o1) ix (owns o1 k) \<and> owns o1 k \<noteq> [])
   \<and> (\<forall>i j. i \<noteq> j \<longrightarrow> set (owns o1 i) \<inter> set (owns o1 j) = {})
   \<and> fmdom' (completions o1) = (\<Union>k. set (owns o1 k))
   \<and> usize_MAX \<notin> fmdom' (completions o1)"

section \<open>The abstract operations\<close>

text \<open>
  What a client of the driver sees of an operation: it waits (for a waker or for nobody), its
  handle is gone, its single completion is there, or a queue of completions is.
\<close>

datatype 'd abs_op =
    AInFlight "waker option"
  | AIgnored "'d option"
  | ACompleted cqe
  | AQueue "cqe_result list"

fun abs_lifecycle :: "cqe_result list \<Rightarrow> 'd lifecycle \<Rightarrow> 'd abs_op" where
  "abs_lifecycle q Submitted = AInFlight None"
| "abs_lifecycle q (Waiting w) = AInFlight (Some w)"
| "abs_lifecycle q (Ignored d) = AIgnored d"
| "abs_lifecycle q (Completed c) = ACompleted c"
| "abs_lifecycle q (CompletionList ix) = AQueue q"

definition abs_ops :: "'d ops \<Rightarrow> nat \<Rightarrow> 'd abs_op option" where
  "abs_ops o1 k = map_option (abs_lifecycle (pending o1 k)) (fmlookup (lifecycle o1) k)"

text \<open>
  The abstract effect of a completion on one operation: its next state (\<open>None\<close>: the entry is
  gone) and the wakers woken. A second completion after the final one is the driver's
  \<^verbatim>\<open>unreachable!\<close>.
\<close>

fun abs_complete ::
  "(u32 \<Rightarrow> bool) \<Rightarrow> cqe \<Rightarrow> 'd abs_op \<Rightarrow> ('d abs_op option \<times> waker list) exec" where
  "abs_complete is_more cqe (AInFlight w) =
     Inr (Some (if is_more (cq_flags cqe) then AQueue [cqe_result_from cqe] else ACompleted cqe),
          case w of None \<Rightarrow> [] | Some w' \<Rightarrow> [w'])"
| "abs_complete is_more cqe (AIgnored d) =
     Inr (if is_more (cq_flags cqe) then Some (AIgnored d) else None, [])"
| "abs_complete is_more cqe (ACompleted c) = Inl (Unreachable ''invalid operation state'')"
| "abs_complete is_more cqe (AQueue q) = Inr (Some (AQueue (q @ [cqe_result_from cqe])), [])"

section \<open>The invariant under an update of one operation\<close>

lemma ops_wfD:
  assumes "ops_wf o1"
  shows "fmlookup (lifecycle o1) k = Some (CompletionList ix) \<Longrightarrow>
      list_rep (completions o1) ix (owns o1 k) \<and> owns o1 k \<noteq> []"
    and "i \<noteq> j \<Longrightarrow> set (owns o1 i) \<inter> set (owns o1 j) = {}"
    and "fmdom' (completions o1) = (\<Union>k. set (owns o1 k))"
    and "usize_MAX \<notin> fmdom' (completions o1)"
proof -
  note wf = assms [unfolded ops_wf_def]
  show "fmlookup (lifecycle o1) k = Some (CompletionList ix) \<Longrightarrow>
      list_rep (completions o1) ix (owns o1 k) \<and> owns o1 k \<noteq> []" using wf by metis
  show "i \<noteq> j \<Longrightarrow> set (owns o1 i) \<inter> set (owns o1 j) = {}" using wf by metis
  show "fmdom' (completions o1) = (\<Union>k. set (owns o1 k))" using wf by (elim conjE)
  show "usize_MAX \<notin> fmdom' (completions o1)" using wf by (elim conjE)
qed

lemma owns_other:
  "(\<And>ix. fmlookup (lifecycle o1) k \<noteq> Some (CompletionList ix)) \<Longrightarrow> owns o1 k = []"
  by (auto simp: owns_def split: option.splits lifecycle.splits)

lemma ops_wf_new: "ops_wf ops_new"
  by (simp add: ops_wf_def ops_new_def owns_def)

text \<open>
  Every driver operation changes one operation's life cycle and the list it owns. If the new list
  is built from its old keys and fresh ones and the other keys keep their entries, the invariant
  survives and nobody else's list changes.
\<close>

definition ops_update :: "'d ops \<Rightarrow> 'd ops \<Rightarrow> nat \<Rightarrow> nat list \<Rightarrow> bool" where
  "ops_update o1 o2 k ks' \<longleftrightarrow>
     ops_wf o1
   \<and> (\<forall>j. j \<noteq> k \<longrightarrow> fmlookup (lifecycle o2) j = fmlookup (lifecycle o1) j)
   \<and> (case fmlookup (lifecycle o2) k of
        Some (CompletionList ix) \<Rightarrow> list_rep (completions o2) ix ks' \<and> ks' \<noteq> []
      | _ \<Rightarrow> ks' = [])
   \<and> fmdom' (completions o2) = (fmdom' (completions o1) - set (owns o1 k)) \<union> set ks'
   \<and> set ks' \<inter> (fmdom' (completions o1) - set (owns o1 k)) = {}
   \<and> (\<forall>j \<in> fmdom' (completions o1) - set (owns o1 k).
        fmlookup (completions o2) j = fmlookup (completions o1) j)
   \<and> usize_MAX \<notin> set ks'"

lemma ops_updateD:
  assumes "ops_update o1 o2 k ks'"
  shows "ops_wf o1"
    and "j \<noteq> k \<Longrightarrow> fmlookup (lifecycle o2) j = fmlookup (lifecycle o1) j"
    and "fmdom' (completions o2) = (fmdom' (completions o1) - set (owns o1 k)) \<union> set ks'"
    and "set ks' \<inter> (fmdom' (completions o1) - set (owns o1 k)) = {}"
    and "x \<in> fmdom' (completions o1) - set (owns o1 k) \<Longrightarrow>
      fmlookup (completions o2) x = fmlookup (completions o1) x"
    and "usize_MAX \<notin> set ks'"
  using assms unfolding ops_update_def by blast+

lemma ops_update_mine:
  assumes "ops_update o1 o2 k ks'" and "fmlookup (lifecycle o2) k = Some (CompletionList ix)"
  shows "list_rep (completions o2) ix ks' \<and> ks' \<noteq> []"
  using assms unfolding ops_update_def by (simp del: fmdom'_notI)

lemma owns_mine:
  assumes "ops_update o1 o2 k ks'"
  shows "owns o2 k = ks'"
proof (cases "\<exists>ix. fmlookup (lifecycle o2) k = Some (CompletionList ix)")
  case True
  then show ?thesis using ops_update_mine [OF assms] by (auto simp: owns_def dest: list_rep_walk)
next
  case False
  then have "ks' = []"
    using assms unfolding ops_update_def by (auto split: option.splits lifecycle.splits)
  then show ?thesis using False by (simp add: owns_other)
qed

lemma other_keys:
  assumes "ops_wf o1" and "j \<noteq> k" and "x \<in> set (owns o1 j)"
  shows "x \<in> fmdom' (completions o1) - set (owns o1 k)"
  using ops_wfD(2) [OF assms(1,2)] ops_wfD(3) [OF assms(1)] assms(3) by auto

lemma rep_others:
  assumes u: "ops_update o1 o2 k ks'" and j: "j \<noteq> k"
    and lk: "fmlookup (lifecycle o1) j = Some (CompletionList ix)"
  shows "list_rep (completions o2) ix (owns o1 j) \<and> owns o1 j \<noteq> []"
proof -
  have "list_rep (completions o2) ix (owns o1 j) = list_rep (completions o1) ix (owns o1 j)"
    by (rule list_rep_cong) (use other_keys [OF ops_updateD(1) [OF u] j] ops_updateD(5) [OF u] in blast)
  with ops_wfD(1) [OF ops_updateD(1) [OF u] lk] show ?thesis by simp
qed

lemma owns_others:
  assumes u: "ops_update o1 o2 k ks'" and j: "j \<noteq> k"
  shows "owns o2 j = owns o1 j"
proof (cases "\<exists>ix. fmlookup (lifecycle o1) j = Some (CompletionList ix)")
  case True
  then obtain ix where ix: "fmlookup (lifecycle o1) j = Some (CompletionList ix)" by blast
  from rep_others [OF u j ix] have "walk (completions o2) (il_start ix) = owns o1 j"
    by (blast dest: list_rep_walk)
  then show ?thesis using ix ops_updateD(2) [OF u j] by (simp add: owns_def [of o2])
next
  case False
  then show ?thesis using ops_updateD(2) [OF u j] by (simp add: owns_other)
qed

lemma pending_others:
  assumes u: "ops_update o1 o2 k ks'" and j: "j \<noteq> k"
  shows "pending o2 j = pending o1 j"
  unfolding pending_def owns_others [OF u j]
  by (rule entries_at_cong) (use other_keys [OF ops_updateD(1) [OF u] j] ops_updateD(5) [OF u] in blast)

lemma ops_update_wf:
  assumes u: "ops_update o1 o2 k ks'"
  shows "ops_wf o2"
  unfolding ops_wf_def
proof (intro conjI allI impI)
  note wf = ops_updateD(1) [OF u]
  fix j ix
  assume lk: "fmlookup (lifecycle o2) j = Some (CompletionList ix)"
  have "list_rep (completions o2) ix (owns o2 j) \<and> owns o2 j \<noteq> []"
  proof (cases "j = k")
    case True
    with ops_update_mine [OF u] lk show ?thesis by (simp add: owns_mine [OF u])
  next
    case False
    with rep_others [OF u False] lk ops_updateD(2) [OF u False] show ?thesis
      by (simp add: owns_others [OF u])
  qed
  then show "list_rep (completions o2) ix (owns o2 j)" "owns o2 j \<noteq> []" by auto
next
  note wf = ops_updateD(1) [OF u]
  fix i j :: nat
  assume ne: "i \<noteq> j"
  have dis: "i' \<noteq> k \<Longrightarrow> set (owns o1 i') \<inter> set ks' = {}" for i'
    using other_keys [OF wf, of i'] ops_updateD(4) [OF u] by blast
  show "set (owns o2 i) \<inter> set (owns o2 j) = {}"
  proof (cases "i = k \<or> j = k")
    case True
    with ne dis [of i] dis [of j] show ?thesis by (auto simp: owns_mine [OF u] owns_others [OF u])
  next
    case False
    with ops_wfD(2) [OF wf ne] show ?thesis by (simp add: owns_others [OF u])
  qed
next
  note wf = ops_updateD(1) [OF u]
  have "(\<Union>j. set (owns o2 j)) = set (owns o2 k) \<union> (\<Union>j\<in>{j. j \<noteq> k}. set (owns o2 j))" by blast
  also have "(\<Union>j\<in>{j. j \<noteq> k}. set (owns o2 j)) = (\<Union>j\<in>{j. j \<noteq> k}. set (owns o1 j))"
    by (rule SUP_cong) (auto simp: owns_others [OF u])
  also have "(\<Union>j\<in>{j. j \<noteq> k}. set (owns o1 j)) = fmdom' (completions o1) - set (owns o1 k)"
    unfolding ops_wfD(3) [OF wf] using other_keys [OF wf] by fastforce
  finally show "fmdom' (completions o2) = (\<Union>j. set (owns o2 j))"
    using ops_updateD(3) [OF u] owns_mine [OF u] by auto
next
  show "usize_MAX \<notin> fmdom' (completions o2)"
    using ops_updateD(3,6) [OF u] ops_wfD(4) [OF ops_updateD(1) [OF u]] by auto
qed

lemma abs_others:
  assumes "ops_update o1 o2 k ks'" and "j \<noteq> k"
  shows "abs_ops o2 j = abs_ops o1 j"
  using pending_others [OF assms] ops_updateD(2) [OF assms] by (simp add: abs_ops_def)

lemma abs_mine:
  assumes "ops_update o1 o2 k ks'"
  shows "abs_ops o2 k =
     map_option (abs_lifecycle (entries_at (completions o2) ks')) (fmlookup (lifecycle o2) k)"
  by (simp add: abs_ops_def pending_def owns_mine [OF assms])

text \<open>
  The three shapes of update the driver makes: the life cycle changes and the list stays as it
  is owned (or there is none), the list is extended by one completion, the list is given up.
\<close>

lemma ops_update_lifecycle:
  assumes wf: "ops_wf o1" and no: "owns o1 k = []"
    and nl: "\<And>ix. lc \<noteq> Some (CompletionList ix)"
    and eq: "completions o2 = completions o1"
    and lk: "\<And>j. fmlookup (lifecycle o2) j = (if j = k then lc else fmlookup (lifecycle o1) j)"
  shows "ops_update o1 o2 k []"
  using assms unfolding ops_update_def by (auto split: option.splits lifecycle.splits)

lemma ops_update_push:
  assumes wf: "ops_wf o1" and al: "slab_alloc_ok al"
    and rep: "list_rep (completions o1) ix (owns o1 k)"
    and eq: "push al v (into_list ix (completions o1)) = Inr l"
    and lk: "\<And>j. fmlookup (lifecycle o2) j =
      (if j = k then Some (CompletionList (sl_index l)) else fmlookup (lifecycle o1) j)"
    and cs: "completions o2 = sl_slab l"
  obtains ks' where "ops_update o1 o2 k ks'" and "entries_at (completions o2) ks' = pending o1 k @ [v]"
proof -
  from push_rep [OF al rep eq] obtain x where
    x: "x \<notin> fmdom' (completions o1)" "fmdom' (sl_slab l) = insert x (fmdom' (completions o1))"
      "list_rep (sl_slab l) (sl_index l) (owns o1 k @ [x])"
      "entries_at (sl_slab l) (owns o1 k @ [x]) = entries_at (completions o1) (owns o1 k) @ [v]"
      "\<And>j. j \<noteq> x \<Longrightarrow> j \<notin> set (owns o1 k) \<Longrightarrow> fmlookup (sl_slab l) j = fmlookup (completions o1) j"
    by metis
  have sub: "set (owns o1 k) \<subseteq> fmdom' (completions o1)" using rep by (rule list_rep_in_dom)
  have "usize_MAX \<notin> set (owns o1 k @ [x])"
    using x(3) unfolding list_rep_def by (blast dest: chain_in_dom)
  then have "ops_update o1 o2 k (owns o1 k @ [x])"
    using wf lk cs x(1-3) sub x(5) unfolding ops_update_def by (auto; metis)
  then show ?thesis using x(4) cs by (intro that) (auto simp: pending_def)
qed

lemma ops_update_free:
  assumes wf: "ops_wf o1"
    and nl: "\<And>ix. lc \<noteq> Some (CompletionList ix)"
    and lk: "\<And>j. fmlookup (lifecycle o2) j = (if j = k then lc else fmlookup (lifecycle o1) j)"
    and eq: "completions o2 = fmdrop_set (set (owns o1 k)) (completions o1)"
  shows "ops_update o1 o2 k []"
  using assms unfolding ops_update_def by (auto split: option.splits lifecycle.splits)

section \<open>Operations of the slabs\<close>

lemma ops_insert_ok:
  assumes wf: "ops_wf o1" and al: "slab_alloc_ok al" and eq: "ops_insert al o1 = Inr (k, o2)"
  shows "ops_wf o2" and "abs_ops o1 k = None"
    and "abs_ops o2 = (abs_ops o1)(k \<mapsto> AInFlight None)" and "k < usize_MAX"
proof -
  from eq have k: "al (fmdom' (lifecycle o1)) = Some k"
    and o2: "o2 = o1\<lparr>lifecycle := fmupd k Submitted (lifecycle o1)\<rparr>"
    by (auto simp: ops_insert_def bind_exec_eq_Inr slab_insert_Inr)
  from slab_alloc_okD [OF al k] have none: "fmlookup (lifecycle o1) k = None"
    by (simp add: fmlookup_None_iff)
  then have u: "ops_update o1 o2 k []"
    using wf o2 by (intro ops_update_lifecycle [where lc = "Some Submitted"]) (auto simp: owns_def)
  then show "ops_wf o2" by (rule ops_update_wf)
  show "abs_ops o1 k = None" using none by (simp add: abs_ops_def)
  show "abs_ops o2 = (abs_ops o1)(k \<mapsto> AInFlight None)"
    using abs_others [OF u] abs_mine [OF u] o2 by (auto simp: fun_eq_iff)
  show "k < usize_MAX" using slab_alloc_okD [OF al k] by simp
qed

lemma ops_remove_free:
  assumes wf: "ops_wf o1" and lk: "fmlookup (lifecycle o1) k = Some lc" and own: "owns o1 k = []"
  shows "\<exists>o2. ops_remove k o1 = Inr o2 \<and> ops_wf o2 \<and> abs_ops o2 = (abs_ops o1)(k := None)"
proof -
  let ?o2 = "o1\<lparr>lifecycle := fmdrop k (lifecycle o1)\<rparr>"
  have u: "ops_update o1 ?o2 k []"
    using wf own by (intro ops_update_lifecycle [where lc = None]) auto
  have "ops_remove k o1 = Inr ?o2" using lk by (simp add: ops_remove_def slab_remove_def)
  moreover have "abs_ops ?o2 = (abs_ops o1)(k := None)"
    using abs_others [OF u] abs_mine [OF u] by (auto simp: fun_eq_iff)
  ultimately show ?thesis using ops_update_wf [OF u] by blast
qed

section \<open>A completion refines its abstract effect\<close>

text \<open>The set of life cycles of one kind of step, as equations of the whole handler.\<close>

definition put_lifecycle :: "nat \<Rightarrow> 'd lifecycle \<Rightarrow> completions \<Rightarrow> 'd ops \<Rightarrow> 'd ops" where
  "put_lifecycle k lc comps o1 = \<lparr>lifecycle = fmupd k lc (lifecycle o1), completions = comps\<rparr>"

lemma put_lifecycle_simps [simp]:
  "lifecycle (put_lifecycle k lc comps o1) = fmupd k lc (lifecycle o1)"
  "completions (put_lifecycle k lc comps o1) = comps"
  by (simp_all add: put_lifecycle_def)

lemma ops_complete_queue:
  assumes wf: "ops_wf o1" and al: "slab_alloc_ok al"
    and rep: "list_rep (completions o1) ix (owns o1 k)"
    and eq: "push al v (into_list ix (completions o1)) = Inr l"
  shows "ops_wf (put_lifecycle k (CompletionList (sl_index l)) (sl_slab l) o1)"
    and "abs_ops (put_lifecycle k (CompletionList (sl_index l)) (sl_slab l) o1)
      = (abs_ops o1)(k \<mapsto> AQueue (pending o1 k @ [v]))"
proof -
  let ?o2 = "put_lifecycle k (CompletionList (sl_index l)) (sl_slab l) o1"
  obtain ks' where u: "ops_update o1 ?o2 k ks'"
    and e: "entries_at (completions ?o2) ks' = pending o1 k @ [v]"
    by (rule ops_update_push [where ?o2.0 = ?o2, OF wf al rep eq]) auto
  show "ops_wf ?o2" by (rule ops_update_wf [OF u])
  show "abs_ops ?o2 = (abs_ops o1)(k \<mapsto> AQueue (pending o1 k @ [v]))"
    using abs_others [OF u] abs_mine [OF u] e by (auto simp: fun_eq_iff)
qed

lemma ops_complete_final:
  assumes wf: "ops_wf o1" and own: "owns o1 k = []" and nl: "\<And>ix. lc \<noteq> CompletionList ix"
  shows "ops_wf (put_lifecycle k lc (completions o1) o1)"
    and "abs_ops (put_lifecycle k lc (completions o1) o1) = (abs_ops o1)(k \<mapsto> abs_lifecycle [] lc)"
proof -
  let ?o2 = "put_lifecycle k lc (completions o1) o1"
  have u: "ops_update o1 ?o2 k []"
    using wf own nl by (intro ops_update_lifecycle [where lc = "Some lc"]) auto
  show "ops_wf ?o2" by (rule ops_update_wf [OF u])
  show "abs_ops ?o2 = (abs_ops o1)(k \<mapsto> abs_lifecycle [] lc)"
    using abs_others [OF u] abs_mine [OF u] by (auto simp: fun_eq_iff)
qed

lemma owns_CompletionList:
  "ops_wf o1 \<Longrightarrow> fmlookup (lifecycle o1) k = Some (CompletionList ix) \<Longrightarrow>
   list_rep (completions o1) ix (owns o1 k)"
  by (simp add: ops_wfD(1))

lemma pending_Nil: "owns o1 k = [] \<Longrightarrow> pending o1 k = []"
  by (simp add: pending_def)

lemma ops_complete_eq:
  "fmlookup (lifecycle o1) k = Some lc \<Longrightarrow>
   ops_complete is_more al k cqe o1 =
     bind_exec (lifecycle_complete is_more al lc (completions o1) cqe) (\<lambda>(d, lc', comps', ws).
       if d then Inr (\<lparr>lifecycle = fmdrop k (lifecycle o1), completions = comps'\<rparr>, ws)
       else Inr (put_lifecycle k lc' comps' o1, ws))"
  by (auto simp: ops_complete_def slab_index_def ops_remove_def slab_remove_def put_lifecycle_def
      Let_def intro!: bind_exec_cong fmap_ext)

lemma push_into_indices:
  "bind_exec (push al v q) (\<lambda>list. bind_exec (into_indices list) (\<lambda>(ix, comps'). f ix comps'))
   = bind_exec (push al v q) (\<lambda>l. f (sl_index l) (sl_slab l))"
  by simp

lemma lifecycle_complete_cases:
  assumes wf: "ops_wf o1" and al: "slab_alloc_ok al" and lk: "fmlookup (lifecycle o1) k = Some lc"
    and eq: "lifecycle_complete is_more al lc (completions o1) cqe = Inr (d, lc', comps', ws)"
  shows "\<exists>a'. abs_complete is_more cqe (abs_lifecycle (pending o1 k) lc) = Inr (a', ws)
    \<and> (if d then a' = None \<and> comps' = completions o1 \<and> owns o1 k = []
       else ops_wf (put_lifecycle k lc' comps' o1)
         \<and> abs_ops (put_lifecycle k lc' comps' o1) = (abs_ops o1)(k := a'))"
proof (cases lc)
  case Submitted
  then have own: "owns o1 k = []" using lk by (simp add: owns_def)
  show ?thesis
    using eq Submitted ops_complete_queue [OF wf al, of slab_list_indices_new k "cqe_result_from cqe"]
      ops_complete_final [OF wf own, of "Completed cqe"] own
    by (auto simp: bind_exec_eq_Inr pending_Nil split: if_splits)
next
  case (Waiting w)
  then have own: "owns o1 k = []" using lk by (simp add: owns_def)
  show ?thesis
    using eq Waiting ops_complete_queue [OF wf al, of slab_list_indices_new k "cqe_result_from cqe"]
      ops_complete_final [OF wf own, of "Completed cqe"] own
    by (auto simp: bind_exec_eq_Inr pending_Nil split: if_splits)
next
  case (Ignored dt)
  then have own: "owns o1 k = []" using lk by (simp add: owns_def)
  show ?thesis
    using eq Ignored ops_complete_final [OF wf own, of "Ignored dt"] own
    by (auto split: if_splits)
next
  case (Completed c)
  then show ?thesis using eq by simp
next
  case (CompletionList ix)
  note rep = owns_CompletionList [OF wf lk [unfolded CompletionList]]
  show ?thesis
    using eq CompletionList ops_complete_queue [OF wf al rep, of "cqe_result_from cqe"]
    by (auto simp: bind_exec_eq_Inr)
qed

lemma ops_complete_refines_step:
  assumes wf: "ops_wf o1" and al: "slab_alloc_ok al" and eq: "ops_complete is_more al k cqe o1 = Inr (o2, ws)"
  shows "ops_wf o2 \<and> (\<exists>a a'. abs_ops o1 k = Some a \<and> abs_complete is_more cqe a = Inr (a', ws)
    \<and> abs_ops o2 = (abs_ops o1)(k := a'))"
proof -
  obtain lc where lk: "fmlookup (lifecycle o1) k = Some lc"
    using eq by (cases "fmlookup (lifecycle o1) k") (auto simp: ops_complete_def slab_index_def)
  then have ab: "abs_ops o1 k = Some (abs_lifecycle (pending o1 k) lc)" by (simp add: abs_ops_def)
  obtain d lc' comps' where st:
      "lifecycle_complete is_more al lc (completions o1) cqe = Inr (d, lc', comps', ws)"
    and o2: "o2 = (if d then \<lparr>lifecycle = fmdrop k (lifecycle o1), completions = comps'\<rparr>
      else put_lifecycle k lc' comps' o1)"
    using eq unfolding ops_complete_eq [OF lk] by (auto simp: bind_exec_eq_Inr split: if_splits)
  from lifecycle_complete_cases [OF wf al lk st] obtain a' where
    a': "abs_complete is_more cqe (abs_lifecycle (pending o1 k) lc) = Inr (a', ws)"
    and rest: "if d then a' = None \<and> comps' = completions o1 \<and> owns o1 k = []
       else ops_wf (put_lifecycle k lc' comps' o1)
         \<and> abs_ops (put_lifecycle k lc' comps' o1) = (abs_ops o1)(k := a')" by blast
  show ?thesis
  proof (cases d)
    case True
    with rest o2 have "o2 = o1\<lparr>lifecycle := fmdrop k (lifecycle o1)\<rparr>" by simp
    with True rest ops_remove_free [OF wf lk] lk ab a' show ?thesis
      by (auto simp: ops_remove_def slab_remove_def)
  next
    case False
    with rest o2 ab a' show ?thesis by auto
  qed
qed

lemma ops_complete_progress:
  assumes wf: "ops_wf o1" and cap: "al (fmdom' (completions o1)) \<noteq> None"
    and ab: "abs_ops o1 k = Some a" and nc: "\<And>c. a \<noteq> ACompleted c"
  shows "\<exists>o2 ws. ops_complete is_more al k cqe o1 = Inr (o2, ws)"
proof -
  from ab obtain lc where lk: "fmlookup (lifecycle o1) k = Some lc"
    and a: "a = abs_lifecycle (pending o1 k) lc" by (auto simp: abs_ops_def)
  have new: "\<exists>l. push al v (into_list slab_list_indices_new (completions o1)) = Inr l" for v
    by (rule push_panics_only_on_capacity [of _ _ "[]"]) (use cap in simp_all)
  have old: "\<exists>l. push al v (into_list ix (completions o1)) = Inr l" if "lc = CompletionList ix" for v ix
    using owns_CompletionList [OF wf] lk that cap by (intro push_panics_only_on_capacity) auto
  show ?thesis unfolding ops_complete_eq [OF lk]
    using a nc new [of "cqe_result_from cqe"] old [of _ "cqe_result_from cqe"] by (cases lc) auto
qed

end
