(* ===== verification/Uring_Api.thy ===== *)
theory Uring_Api
  imports Op_Lifecycle
begin

text \<open>
  What the crate sees of io_uring. The submission entries it builds are data: one constructor per
  opcode of the sources, with the arguments the builders are given (an argument that points to
  memory owned by the operation is the value stored there). The ring itself, the \<^verbatim>\<open>io-uring\<close>
  crate and the kernel behind it, is a parameter: a record of the operations the driver calls on
  it, over an abstract ring state \<open>'u\<close>.
\<close>

section \<open>Submission entries\<close>

type_synonym path = string

text \<open>A socket address as \<^verbatim>\<open>std::net::SocketAddr\<close>: IPv4 or IPv6, address and port.\<close>

datatype socket_addr = V4 u32 u16 | V6 "128 word" u16

text \<open>
  \<^verbatim>\<open>socket2::SockAddr\<close>: the bytes of a \<^verbatim>\<open>sockaddr\<close>, and the length that is in use. A value in a
  \<^verbatim>\<open>Box\<close> is the value with the address it keeps when the box moves.
\<close>

record sock_addr =
  sa_storage :: "u8 list"
  sa_len :: nat

record 'a boxed =
  box_ptr :: addr
  box_val :: 'a

text \<open>The fields of \<^verbatim>\<open>libc::msghdr\<close> that the sources set; the null pointer is 0.\<close>

record msghdr =
  msg_iov :: "iovec list"
  msg_iovlen :: nat
  msg_name :: addr
  msg_namelen :: nat
  msg_control :: addr
  msg_controllen :: nat

datatype opcode =
    OpNop
  | OpRead raw_fd addr u32 nat
  | OpReadFixed raw_fd addr u32 u16 nat
  | OpReadv raw_fd addr u32 nat
  | OpWrite raw_fd addr u32 nat
  | OpWriteFixed raw_fd addr u32 u16 nat
  | OpWritev raw_fd addr u32 nat
  | OpSendMsg raw_fd msghdr
  | OpSendMsgZc raw_fd msghdr
  | OpSendZc raw_fd addr u32
  | OpRecvMsg raw_fd msghdr
  | OpRecvMsgMulti raw_fd msghdr u16
  | OpAccept raw_fd addr i32
  | OpConnect raw_fd addr nat
  | OpClose raw_fd
  | OpOpenAt raw_fd path i32 u32
  | OpUnlinkAt raw_fd path i32
  | OpRenameAt raw_fd path raw_fd path u32
  | OpMkDirAt raw_fd path u32
  | OpSymlinkAt raw_fd path path
  | OpFsync raw_fd bool
  | OpFallocate raw_fd nat nat i32
  | OpStatx raw_fd path addr i32 u32
  | OpProvideBuffers addr i32 u16 u16 u16
  | OpAsyncCancel nat

datatype sqe_flag = IO_LINK | IO_HARDLINK

text \<open>\<open>sqe_flags\<close> lists the flags handed to \<^verbatim>\<open>squeue::Entry::flags\<close>, in order.\<close>

record sqe =
  sqe_op :: opcode
  sqe_user_data :: nat
  sqe_flags :: "sqe_flag list"

definition sqe_build :: "opcode \<Rightarrow> sqe" where
  "sqe_build c = \<lparr>sqe_op = c, sqe_user_data = 0, sqe_flags = []\<rparr>"

section \<open>The ring\<close>

text \<open>
  The calls on \<^verbatim>\<open>IoUring\<close>: \<^verbatim>\<open>submit\<close> and \<^verbatim>\<open>submit_and_wait\<close>, \<^verbatim>\<open>push\<close> and
  \<^verbatim>\<open>push_multiple\<close> on the submission queue (\<open>None\<close> when it is full, the ring unchanged),
  \<^verbatim>\<open>is_empty\<close> and \<^verbatim>\<open>sync\<close> of that queue, the completions available now (which are consumed),
  the registrations, and \<^verbatim>\<open>cqueue::more\<close> and \<^verbatim>\<open>cqueue::buffer_select\<close> on completion flags.
\<close>

record 'u uring_api =
  u_submit :: "'u \<Rightarrow> (nat, io_error) result \<times> 'u"
  u_submit_and_wait :: "nat \<Rightarrow> 'u \<Rightarrow> (nat, io_error) result \<times> 'u"
  u_push :: "sqe \<Rightarrow> 'u \<Rightarrow> 'u option"
  u_push_multiple :: "sqe list \<Rightarrow> 'u \<Rightarrow> 'u option"
  u_sq_is_empty :: "'u \<Rightarrow> bool"
  u_sq_sync :: "'u \<Rightarrow> 'u"
  u_completion :: "'u \<Rightarrow> cqe list \<times> 'u"
  u_register_buffers :: "iovec list \<Rightarrow> 'u \<Rightarrow> (unit, io_error) result \<times> 'u"
  u_unregister_buffers :: "'u \<Rightarrow> (unit, io_error) result \<times> 'u"
  u_register_files :: "raw_fd list \<Rightarrow> 'u \<Rightarrow> (unit, io_error) result \<times> 'u"
  u_unregister_files :: "'u \<Rightarrow> (unit, io_error) result \<times> 'u"
  u_more :: "u32 \<Rightarrow> bool"
  u_buffer_select :: "u32 \<Rightarrow> u16 option"

end
