(* ===== verification/Driver.thy ===== *)
theory Driver
  imports Uring_Api
begin

text \<open>
  \<^verbatim>\<open>src/src/runtime/driver/mod.rs\<close>: submitting operations, dispatching completions, polling and
  dropping operation handles. The methods that touch only the slabs are functions of \<^verbatim>\<open>Ops\<close>; the
  others take the whole driver. A loop that may wait for the kernel for ever is a partial function,
  \<open>None\<close> meaning that it does not return.
\<close>

record ('u, 'd) driver =
  drv_ops :: "'d ops"
  drv_uring :: 'u
  drv_woken :: "waker list"

text \<open>
  \<open>drv_woken\<close> is the log of \<^verbatim>\<open>Waker::wake\<close> calls, the effect of the driver on the executor.
\<close>

section \<open>Submission and dispatch\<close>

definition num_operations :: "('u, 'd) driver \<Rightarrow> nat" where
  "num_operations d = card (fmdom' (lifecycle (drv_ops d)))"

primrec dispatch_cqes ::
  "'u uring_api \<Rightarrow> slab_alloc \<Rightarrow> cqe list \<Rightarrow> ('u, 'd) driver \<Rightarrow> ('u, 'd) driver exec" where
  "dispatch_cqes api al [] d = Inr d"
| "dispatch_cqes api al (cqe # cqes) d =
     (if cq_user_data cqe = usize_MAX then dispatch_cqes api al cqes d
      else bind_exec (ops_complete (u_more api) al (cq_user_data cqe) cqe (drv_ops d)) (\<lambda>(o', ws).
        dispatch_cqes api al cqes (d\<lparr>drv_ops := o', drv_woken := drv_woken d @ ws\<rparr>)))"

definition dispatch_completions ::
  "'u uring_api \<Rightarrow> slab_alloc \<Rightarrow> ('u, 'd) driver \<Rightarrow> ('u, 'd) driver exec" where
  "dispatch_completions api al d =
     (case u_completion api (drv_uring d) of
        (cqes, u) \<Rightarrow> dispatch_cqes api al cqes (d\<lparr>drv_uring := u\<rparr>))"

type_synonym ('u, 'd) submitted = "(unit, io_error) result \<times> ('u, 'd) driver"

partial_function (option) driver_submit ::
  "'u uring_api \<Rightarrow> slab_alloc \<Rightarrow> ('u, 'd) driver \<Rightarrow> ('u, 'd) submitted exec option" where
  "driver_submit api al d =
     (case u_submit api (drv_uring d) of (r, u) \<Rightarrow>
       (case r of
          Ok n \<Rightarrow> Some (Inr (Ok (), d\<lparr>drv_uring := u_sq_sync api u\<rparr>))
        | Err e \<Rightarrow>
            if raw_os_error e = Some EBUSY then
              (case dispatch_completions api al (d\<lparr>drv_uring := u\<rparr>) of
                 Inl p \<Rightarrow> Some (Inl p)
               | Inr d' \<Rightarrow> driver_submit api al d')
            else if raw_os_error e \<noteq> Some EINTR then Some (Inr (Err e, d\<lparr>drv_uring := u\<rparr>))
            else driver_submit api al (d\<lparr>drv_uring := u\<rparr>)))"

text \<open>
  \<^verbatim>\<open>while submission().push(&sqe).is_err() { submit()? }\<close>, for any attempt to push.
\<close>

partial_function (option) push_until ::
  "'u uring_api \<Rightarrow> slab_alloc \<Rightarrow> ('u \<Rightarrow> 'u option) \<Rightarrow> ('u, 'd) driver
   \<Rightarrow> ('u, 'd) submitted exec option" where
  "push_until api al try_push d =
     (case try_push (drv_uring d) of
        Some u \<Rightarrow> Some (Inr (Ok (), d\<lparr>drv_uring := u\<rparr>))
      | None \<Rightarrow>
          Option.bind (driver_submit api al d) (\<lambda>r.
            case r of
              Inl p \<Rightarrow> Some (Inl p)
            | Inr (Err e, d') \<Rightarrow> Some (Inr (Err e, d'))
            | Inr (Ok _, d') \<Rightarrow> push_until api al try_push d'))"

text \<open>
  \<^verbatim>\<open>submit_op\<close>: the slab entry is taken first, then the closure \<open>f\<close> builds the entry (it may
  panic and may change the data), then the entry is pushed. On an error of \<^verbatim>\<open>submit\<close> the new
  handle is dropped inside the call; it is returned here so that the caller can say what that does.
\<close>

definition submit_op ::
  "'u uring_api \<Rightarrow> slab_alloc \<Rightarrow> slab_alloc \<Rightarrow> 'd \<Rightarrow> ('d \<Rightarrow> (sqe \<times> 'd) exec) \<Rightarrow> ('u, 'd) driver
   \<Rightarrow> (('d op, io_error \<times> 'd op) result \<times> ('u, 'd) driver) exec option" where
  "submit_op api la ca data f d =
     (case ops_insert la (drv_ops d) of
        Inl p \<Rightarrow> Some (Inl p)
      | Inr (index, o') \<Rightarrow>
          (case f data of
             Inl p \<Rightarrow> Some (Inl p)
           | Inr (sqe0, data') \<Rightarrow>
               let sqe1 = sqe0\<lparr>sqe_user_data := index\<rparr>; op = op_new data' index in
               Option.bind (push_until api ca (u_push api sqe1) (d\<lparr>drv_ops := o'\<rparr>)) (\<lambda>r.
                 Some (bind_exec r (\<lambda>(res, d').
                   Inr (case res of Ok _ \<Rightarrow> Ok op | Err e \<Rightarrow> Err (e, op), d'))))))"

text \<open>\<^verbatim>\<open>submit_op_2\<close> panics where \<^verbatim>\<open>submit_op\<close> returns the error.\<close>

definition submit_op_2 ::
  "'u uring_api \<Rightarrow> slab_alloc \<Rightarrow> slab_alloc \<Rightarrow> sqe \<Rightarrow> ('u, 'd) driver
   \<Rightarrow> (nat \<times> ('u, 'd) driver) exec option" where
  "submit_op_2 api la ca sqe0 d =
     (case ops_insert la (drv_ops d) of
        Inl p \<Rightarrow> Some (Inl p)
      | Inr (index, o') \<Rightarrow>
          let sqe1 = sqe0\<lparr>sqe_user_data := index\<rparr> in
          Option.bind (push_until api ca (u_push api sqe1) (d\<lparr>drv_ops := o'\<rparr>)) (\<lambda>r.
            Some (bind_exec r (\<lambda>(res, d').
              case res of
                Ok _ \<Rightarrow> Inr (index, d')
              | Err e \<Rightarrow> Inl (Expect ''Internal error, failed to submit ops'')))))"

primrec insert_all ::
  "slab_alloc \<Rightarrow> sqe list \<Rightarrow> 'd ops \<Rightarrow> (nat list \<times> sqe list \<times> 'd ops) exec" where
  "insert_all la [] o1 = Inr ([], [], o1)"
| "insert_all la (sqe0 # sqes) o1 =
     bind_exec (ops_insert la o1) (\<lambda>(index, o2).
     bind_exec (insert_all la sqes o2) (\<lambda>(indices, entries, o3).
       Inr (index # indices, sqe0\<lparr>sqe_user_data := index\<rparr> # entries, o3)))"

definition submit_ops ::
  "'u uring_api \<Rightarrow> slab_alloc \<Rightarrow> slab_alloc \<Rightarrow> sqe list \<Rightarrow> ('u, 'd) driver
   \<Rightarrow> (nat list \<times> ('u, 'd) driver) exec option" where
  "submit_ops api la ca sqes d =
     (case insert_all la sqes (drv_ops d) of
        Inl p \<Rightarrow> Some (Inl p)
      | Inr (indices, entries, o') \<Rightarrow>
          Option.bind (push_until api ca (u_push_multiple api entries) (d\<lparr>drv_ops := o'\<rparr>)) (\<lambda>r.
            Some (bind_exec r (\<lambda>(res, d').
              case res of
                Ok _ \<Rightarrow> Inr (indices, d')
              | Err e \<Rightarrow> Inl (Expect ''Internal error, failed to submit ops'')))))"

definition cancel_sqe :: "nat \<Rightarrow> sqe" where
  "cancel_sqe index = (sqe_build (OpAsyncCancel index))\<lparr>sqe_user_data := usize_MAX\<rparr>"

definition cancel_op ::
  "'u uring_api \<Rightarrow> slab_alloc \<Rightarrow> nat \<Rightarrow> ('u, 'd) driver \<Rightarrow> ('u, 'd) submitted exec option" where
  "cancel_op api ca index d =
     (if fmlookup (lifecycle (drv_ops d)) index = None then Some (Inr (Ok (), d))
      else push_until api ca (u_push api (cancel_sqe index)) d)"

section \<open>Dropping a handle\<close>

definition put_lc :: "nat \<Rightarrow> 'd lifecycle \<Rightarrow> 'd ops \<Rightarrow> 'd ops" where
  "put_lc index lc o1 = o1\<lparr>lifecycle := fmupd index lc (lifecycle o1)\<rparr>"

text \<open>
  The common part of \<^verbatim>\<open>remove_op\<close> and \<^verbatim>\<open>remove_op_2\<close>: \<open>data\<close> is boxed and kept in the slab
  when the kernel may still use it; the flag says whether it was.
\<close>

definition remove_lc :: "(u32 \<Rightarrow> bool) \<Rightarrow> nat \<Rightarrow> 'd option \<Rightarrow> 'd ops \<Rightarrow> (bool \<times> 'd ops) exec" where
  "remove_lc is_more index data o1 =
     (case fmlookup (lifecycle o1) index of
        None \<Rightarrow> Inr (False, o1)
      | Some Submitted \<Rightarrow> Inr (True, put_lc index (Ignored data) o1)
      | Some (Waiting w) \<Rightarrow> Inr (True, put_lc index (Ignored data) o1)
      | Some (Completed c) \<Rightarrow> bind_exec (ops_remove index o1) (\<lambda>o2. Inr (False, o2))
      | Some (CompletionList indices) \<Rightarrow>
          let list = into_list indices (completions o1) in
          bind_exec (peek_end list) (\<lambda>last.
            case last of
              None \<Rightarrow> Inl UnwrapNone
            | Some c \<Rightarrow>
                bind_exec (slab_list_drop list) (\<lambda>comps.
                  let o2 = o1\<lparr>completions := comps\<rparr> in
                  if is_more (cr_flags c) then Inr (True, put_lc index (Ignored data) o2)
                  else bind_exec (ops_remove index o2) (\<lambda>o3. Inr (False, o3))))
      | Some (Ignored x) \<Rightarrow> Inl (Unreachable ''remove_op''))"

definition remove_op :: "(u32 \<Rightarrow> bool) \<Rightarrow> 'd op \<Rightarrow> 'd ops \<Rightarrow> ('d op \<times> 'd ops) exec" where
  "remove_op is_more op o1 =
     (if is_finished op then Inr (op, o1)
      else bind_exec (remove_lc is_more (op_index op) (fst (take_data op)) o1) (\<lambda>(kept, o2).
        Inr (if kept then snd (take_data op) else op, o2)))"

definition remove_op_2 :: "(u32 \<Rightarrow> bool) \<Rightarrow> nat \<Rightarrow> 'd \<Rightarrow> 'd ops \<Rightarrow> 'd ops exec" where
  "remove_op_2 is_more index data o1 =
     bind_exec (remove_lc is_more index (Some data) o1) (\<lambda>(kept, o2). Inr o2)"

section \<open>Polling\<close>

definition poll_op_2 :: "waker \<Rightarrow> nat \<Rightarrow> 'd ops \<Rightarrow> (cqe poll \<times> 'd ops) exec" where
  "poll_op_2 w index o1 =
     (case fmlookup (lifecycle o1) index of
        None \<Rightarrow> Inl (Expect ''invalid internal state'')
      | Some Submitted \<Rightarrow> Inr (Pending, put_lc index (Waiting w) o1)
      | Some (Waiting v) \<Rightarrow> Inr (Pending, put_lc index (Waiting (if v \<noteq> w then w else v)) o1)
      | Some (Ignored x) \<Rightarrow> Inl (Unreachable ''poll_op_2'')
      | Some (Completed cqe) \<Rightarrow> bind_exec (ops_remove index o1) (\<lambda>o2. Inr (Ready cqe, o2))
      | Some (CompletionList ix) \<Rightarrow> Inl (Unreachable ''No `more` flag set for SingleCQE''))"

text \<open>The traits \<^verbatim>\<open>Completable\<close> and \<^verbatim>\<open>Updateable\<close> of an operation's data.\<close>

record ('d, 'o) completable =
  co_complete :: "'d \<Rightarrow> cqe_result \<Rightarrow> 'o exec"

record ('d, 'o) updateable = "('d, 'o) completable" +
  up_update :: "'d \<Rightarrow> cqe_result \<Rightarrow> 'd exec"
  up_should_yield :: "'d \<Rightarrow> bool"
  up_yield_result :: "'d \<Rightarrow> ('o \<times> 'd) exec"

text \<open>The default methods of \<^verbatim>\<open>Updateable\<close>: never yield early.\<close>

definition default_should_yield :: "'d \<Rightarrow> bool" where
  "default_should_yield data = False"

definition default_yield_result :: "'d \<Rightarrow> ('o \<times> 'd) exec" where
  "default_yield_result data =
     Inl (Explicit ''yield_result called but not implemented - should_yield() must not return true'')"

definition poll_op ::
  "('d, 'o, 'm) completable_scheme \<Rightarrow> waker \<Rightarrow> 'd op \<Rightarrow> 'd ops \<Rightarrow> ('o poll \<times> 'd op \<times> 'd ops) exec" where
  "poll_op co w op o1 =
     (case fmlookup (lifecycle o1) (op_index op) of
        None \<Rightarrow> Inl (Expect ''invalid internal state'')
      | Some Submitted \<Rightarrow> Inr (Pending, op, put_lc (op_index op) (Waiting w) o1)
      | Some (Waiting v) \<Rightarrow>
          Inr (Pending, op, put_lc (op_index op) (Waiting (if v \<noteq> w then w else v)) o1)
      | Some (Ignored x) \<Rightarrow> Inl (Unreachable ''poll_op'')
      | Some (Completed cqe) \<Rightarrow>
          bind_exec (ops_remove (op_index op) o1) (\<lambda>o2.
            case take_data op of
              (None, op') \<Rightarrow> Inl UnwrapNone
            | (Some data, op') \<Rightarrow>
                bind_exec (co_complete co data (cqe_result_from cqe)) (\<lambda>out. Inr (Ready out, op', o2)))
      | Some (CompletionList ix) \<Rightarrow> Inl (Unreachable ''No `more` flag set for SingleCQE''))"

datatype 'd multishot_exit =
    ExitYield 'd "cqe_result slab_list"
  | ExitFinal 'd cqe_result "cqe_result slab_list"
  | ExitDrained 'd "cqe_result slab_list"

text \<open>\<^verbatim>\<open>while let Some(cqe) = list.pop()\<close> of \<^verbatim>\<open>poll_multishot_op\<close>.\<close>

lemma pop_Some_card:
  assumes "pop l = (Some x, l')"
  shows "card (fmdom' (sl_slab l')) < card (fmdom' (sl_slab l))"
proof -
  from assms obtain e where "fmlookup (sl_slab l) (il_start (sl_index l)) = Some e"
    and "sl_slab l' = fmdrop (il_start (sl_index l)) (sl_slab l)"
    by (auto simp: pop_def slab_try_remove_def split: option.splits prod.splits)
  then show ?thesis using card_fmdrop_less by metis
qed

function multishot_loop ::
  "('d, 'o, 'm) updateable_scheme \<Rightarrow> (u32 \<Rightarrow> bool) \<Rightarrow> 'd \<Rightarrow> cqe_result slab_list
   \<Rightarrow> 'd multishot_exit exec" where
  "multishot_loop up is_more data list =
     (case pop list of
        (None, list') \<Rightarrow> Inr (ExitDrained data list')
      | (Some cqe, list') \<Rightarrow>
          if is_more (cr_flags cqe) then
            bind_exec (up_update up data cqe) (\<lambda>data'.
              if up_should_yield up data' then Inr (ExitYield data' list')
              else multishot_loop up is_more data' list')
          else Inr (ExitFinal data cqe list'))"
  by pat_completeness auto
termination
  by (relation "measure (\<lambda>(up, is_more, data, list). card (fmdom' (sl_slab list)))")
     (auto dest: pop_Some_card [OF sym])

declare multishot_loop.simps [simp del]

definition broken_pipe :: cqe_result where
  "broken_pipe = \<lparr>cr_result = Err (KindError BrokenPipe ''multishot operation was terminated''),
     cr_flags = 0\<rparr>"

text \<open>\<^verbatim>\<open>poll_multishot_op\<close>: the poll result, the handle, the slabs and the wakers woken.\<close>

definition poll_multishot_op ::
  "('d, 'o, 'm) updateable_scheme \<Rightarrow> (u32 \<Rightarrow> bool) \<Rightarrow> waker \<Rightarrow> 'd op \<Rightarrow> 'd ops
   \<Rightarrow> ('o poll \<times> 'd op \<times> 'd ops \<times> waker list) exec" where
  "poll_multishot_op up is_more w op o1 =
     (if is_finished op then Inl Assertion
      else case fmlookup (lifecycle o1) (op_index op) of
        None \<Rightarrow>
          (case take_data op of
             (Some data, op') \<Rightarrow>
               bind_exec (co_complete up data broken_pipe) (\<lambda>out. Inr (Ready out, op', o1, []))
           | (None, op') \<Rightarrow> Inr (Pending, op', o1, []))
      | Some Submitted \<Rightarrow> Inr (Pending, op, put_lc (op_index op) (Waiting w) o1, [])
      | Some (Waiting v) \<Rightarrow>
          Inr (Pending, op, put_lc (op_index op) (Waiting (if v \<noteq> w then w else v)) o1, [])
      | Some (Ignored x) \<Rightarrow> Inl (Unreachable ''poll_multishot_op'')
      | Some (Completed cqe) \<Rightarrow>
          bind_exec (ops_remove (op_index op) o1) (\<lambda>o2.
            case take_data op of
              (None, op') \<Rightarrow> Inl UnwrapNone
            | (Some data, op') \<Rightarrow>
                bind_exec (co_complete up data (cqe_result_from cqe)) (\<lambda>out.
                  Inr (Ready out, op', o2, [])))
      | Some (CompletionList indices) \<Rightarrow>
          (case take_data op of
             (None, op') \<Rightarrow> Inl UnwrapNone
           | (Some data, op') \<Rightarrow>
               bind_exec (multishot_loop up is_more data (into_list indices (completions o1))) (\<lambda>ex.
                 case ex of
                   ExitYield data' list \<Rightarrow>
                     bind_exec (into_indices list) (\<lambda>(remaining, comps).
                     bind_exec (up_yield_result up data') (\<lambda>(out, data'').
                       let o2 = o1\<lparr>completions := comps\<rparr>; op'' = insert_data op' data'' in
                       if \<not> indices_is_empty remaining then
                         Inr (Ready out, op'', put_lc (op_index op) (CompletionList remaining) o2, [w])
                       else Inr (Ready out, op'', put_lc (op_index op) (Waiting w) o2, [])))
                 | ExitFinal data' cqe list \<Rightarrow>
                     bind_exec (slab_list_drop list) (\<lambda>comps.
                     bind_exec (ops_remove (op_index op) (o1\<lparr>completions := comps\<rparr>)) (\<lambda>o2.
                     bind_exec (co_complete up data' cqe) (\<lambda>out. Inr (Ready out, op', o2, []))))
                 | ExitDrained data' list \<Rightarrow>
                     bind_exec (slab_list_drop list) (\<lambda>comps.
                       Inr (Pending, insert_data op' data',
                            put_lc (op_index op) (Waiting w) (o1\<lparr>completions := comps\<rparr>), [])))))"

end
