(* ===== verification/Driver_Lemmas.thy ===== *)
theory Driver_Lemmas
  imports Driver
begin

text \<open>
  The driver's operations against the abstract view of the slabs: dropping a handle keeps the data
  until the kernel is done with it, a poll consumes what has arrived in order, and every operation
  keeps the invariant of the slabs.
\<close>

section \<open>Changing one life cycle\<close>

lemma put_lc_eq: "put_lc k lc o1 = put_lifecycle k lc (completions o1) o1"
  by (simp add: put_lc_def put_lifecycle_def)

lemma put_lc_comps: "put_lc k lc (o1\<lparr>completions := c\<rparr>) = put_lifecycle k lc c o1"
  by (simp add: put_lc_def put_lifecycle_def)

lemma put_lc_plain:
  assumes "ops_wf o1" and "owns o1 k = []" and "\<And>ix. lc \<noteq> CompletionList ix"
  shows "ops_wf (put_lc k lc o1)" and "abs_ops (put_lc k lc o1) = (abs_ops o1)(k \<mapsto> abs_lifecycle [] lc)"
  unfolding put_lc_eq using ops_complete_final [OF assms] by auto

text \<open>Giving a list up: its nodes leave the slab and the life cycle becomes \<open>lc\<close>.\<close>

lemma put_lc_free:
  assumes wf: "ops_wf o1" and nl: "\<And>ix. lc \<noteq> CompletionList ix"
    and c: "c = fmdrop_set (set (owns o1 k)) (completions o1)"
  shows "ops_wf (put_lifecycle k lc c o1)"
    and "abs_ops (put_lifecycle k lc c o1) = (abs_ops o1)(k \<mapsto> abs_lifecycle [] lc)"
proof -
  let ?o2 = "put_lifecycle k lc c o1"
  have u: "ops_update o1 ?o2 k []"
    using wf nl c by (intro ops_update_free [where lc = "Some lc"]) auto
  show "ops_wf ?o2" by (rule ops_update_wf [OF u])
  show "abs_ops ?o2 = (abs_ops o1)(k \<mapsto> abs_lifecycle [] lc)"
    using abs_others [OF u] abs_mine [OF u] by (auto simp: fun_eq_iff)
qed

lemma remove_free:
  assumes wf: "ops_wf o1" and lk: "fmlookup (lifecycle o1) k = Some lc"
    and c: "c = fmdrop_set (set (owns o1 k)) (completions o1)"
  obtains o2 where "ops_remove k (o1\<lparr>completions := c\<rparr>) = Inr o2" and "ops_wf o2"
    and "abs_ops o2 = (abs_ops o1)(k := None)"
proof -
  let ?o2 = "\<lparr>lifecycle = fmdrop k (lifecycle o1), completions = c\<rparr>"
  have u: "ops_update o1 ?o2 k []"
    using wf c by (intro ops_update_free [where lc = None]) auto
  have "ops_remove k (o1\<lparr>completions := c\<rparr>) = Inr ?o2"
    using lk by (simp add: ops_remove_def slab_remove_def)
  moreover have "abs_ops ?o2 = (abs_ops o1)(k := None)"
    using abs_others [OF u] abs_mine [OF u] by (auto simp: fun_eq_iff)
  ultimately show ?thesis using ops_update_wf [OF u] by (intro that)
qed

section \<open>Dropping a handle\<close>

text \<open>The abstract effect of dropping the handle of an operation with data \<open>data\<close>.\<close>

fun abs_remove :: "(u32 \<Rightarrow> bool) \<Rightarrow> 'd option \<Rightarrow> 'd abs_op \<Rightarrow> (bool \<times> 'd abs_op option) exec" where
  "abs_remove is_more data (AInFlight w) = Inr (True, Some (AIgnored data))"
| "abs_remove is_more data (ACompleted c) = Inr (False, None)"
| "abs_remove is_more data (AQueue q) =
     (if is_more (cr_flags (last q)) then Inr (True, Some (AIgnored data)) else Inr (False, None))"
| "abs_remove is_more data (AIgnored x) = Inl (Unreachable ''remove_op'')"

lemma queue_facts:
  assumes "ops_wf o1" and "fmlookup (lifecycle o1) k = Some (CompletionList ix)"
  shows "list_rep (completions o1) ix (owns o1 k)" and "pending o1 k \<noteq> []"
    and "peek_end (into_list ix (completions o1)) = Inr (Some (last (pending o1 k)))"
    and "slab_list_drop (into_list ix (completions o1)) =
      Inr (fmdrop_set (set (owns o1 k)) (completions o1))"
proof -
  from ops_wfD(1) [OF assms] have r: "list_rep (completions o1) ix (owns o1 k)" "owns o1 k \<noteq> []" by auto
  show "list_rep (completions o1) ix (owns o1 k)" by (rule r)
  show "pending o1 k \<noteq> []" using r by (simp add: pending_def)
  show "peek_end (into_list ix (completions o1)) = Inr (Some (last (pending o1 k)))"
    using peek_end_rep [OF r(1)] r(2) by (simp add: pending_def)
  show "slab_list_drop (into_list ix (completions o1)) =
      Inr (fmdrop_set (set (owns o1 k)) (completions o1))"
    by (rule drop_list_rep [OF r(1)])
qed

lemma remove_lc_refines:
  assumes wf: "ops_wf o1" and ab: "abs_ops o1 k = Some a"
  shows "case abs_remove is_more data a of
      Inl p \<Rightarrow> remove_lc is_more k data o1 = Inl p
    | Inr (kept, a') \<Rightarrow> \<exists>o2. remove_lc is_more k data o1 = Inr (kept, o2) \<and> ops_wf o2
        \<and> abs_ops o2 = (abs_ops o1)(k := a')"
proof -
  from ab obtain lc where lk: "fmlookup (lifecycle o1) k = Some lc"
    and a: "a = abs_lifecycle (pending o1 k) lc" by (auto simp: abs_ops_def)
  show ?thesis
  proof (cases lc)
    case Submitted
    with lk have "owns o1 k = []" by (simp add: owns_def)
    with put_lc_plain [OF wf this, of "Ignored data"] Submitted lk a show ?thesis
      by (simp add: remove_lc_def)
  next
    case (Waiting w)
    with lk have "owns o1 k = []" by (simp add: owns_def)
    with put_lc_plain [OF wf this, of "Ignored data"] Waiting lk a show ?thesis
      by (simp add: remove_lc_def)
  next
    case (Ignored x)
    with lk a show ?thesis by (simp add: remove_lc_def)
  next
    case (Completed c)
    with lk have "owns o1 k = []" by (simp add: owns_def)
    with ops_remove_free [OF wf lk] Completed lk a show ?thesis by (auto simp: remove_lc_def)
  next
    case (CompletionList ix)
    note q = queue_facts [OF wf lk [unfolded CompletionList]]
    let ?c = "fmdrop_set (set (owns o1 k)) (completions o1)"
    obtain o2 where o2: "ops_remove k (o1\<lparr>completions := ?c\<rparr>) = Inr o2" "ops_wf o2"
      "abs_ops o2 = (abs_ops o1)(k := None)" by (rule remove_free [OF wf lk refl])
    show ?thesis
      using CompletionList lk a q(3,4) o2 put_lc_free [OF wf _ refl, of "Ignored data" k]
      by (simp add: remove_lc_def Let_def put_lc_comps)
  qed
qed

section \<open>Polling a single-completion operation\<close>

fun abs_poll :: "waker \<Rightarrow> 'd abs_op \<Rightarrow> (cqe poll \<times> 'd abs_op option) exec" where
  "abs_poll w (AInFlight v) = Inr (Pending, Some (AInFlight (Some w)))"
| "abs_poll w (ACompleted c) = Inr (Ready c, None)"
| "abs_poll w (AIgnored x) = Inl (Unreachable ''poll_op_2'')"
| "abs_poll w (AQueue q) = Inl (Unreachable ''No `more` flag set for SingleCQE'')"

lemma same_waker [simp]: "(if v \<noteq> w then w else v) = w"
  by simp

lemma poll_op_2_refines:
  assumes wf: "ops_wf o1" and ab: "abs_ops o1 k = Some a"
  shows "case abs_poll w a of
      Inl p \<Rightarrow> poll_op_2 w k o1 = Inl p
    | Inr (r, a') \<Rightarrow> \<exists>o2. poll_op_2 w k o1 = Inr (r, o2) \<and> ops_wf o2
        \<and> abs_ops o2 = (abs_ops o1)(k := a')"
proof -
  from ab obtain lc where lk: "fmlookup (lifecycle o1) k = Some lc"
    and a: "a = abs_lifecycle (pending o1 k) lc" by (auto simp: abs_ops_def)
  have own: "owns o1 k = []" if "\<And>ix. lc \<noteq> CompletionList ix"
    using lk that by (intro owns_other) simp
  show ?thesis
    using lk a put_lc_plain [OF wf own, of "Waiting w"] ops_remove_free [OF wf lk own]
    by (cases lc) (auto simp: poll_op_2_def)
qed

text \<open>\<^verbatim>\<open>poll_op\<close> is \<^verbatim>\<open>poll_op_2\<close> followed by the completion of the data.\<close>

lemma poll_op_via_poll_op_2:
  assumes "op_data op = Some data"
  shows "poll_op co w op o1 =
    (case poll_op_2 w (op_index op) o1 of
       Inl p \<Rightarrow> Inl (if p = Unreachable ''poll_op_2'' then Unreachable ''poll_op'' else p)
     | Inr (Pending, o2) \<Rightarrow> Inr (Pending, op, o2)
     | Inr (Ready cqe, o2) \<Rightarrow>
         bind_exec (co_complete co data (cqe_result_from cqe)) (\<lambda>out.
           Inr (Ready out, op\<lparr>op_data := None\<rparr>, o2)))"
  using assms
  by (auto simp: poll_op_def poll_op_2_def take_data_def bind_exec_def ops_remove_def slab_remove_def
      split: option.splits lifecycle.splits sum.splits)

section \<open>Polling a multishot operation\<close>

text \<open>What one poll does with the queue of completions, on lists.\<close>

datatype 'd consumed =
    CYield 'd "cqe_result list"
  | CFinal 'd cqe_result "cqe_result list"
  | CDrained 'd

fun consume ::
  "('d, 'o, 'm) updateable_scheme \<Rightarrow> (u32 \<Rightarrow> bool) \<Rightarrow> 'd \<Rightarrow> cqe_result list \<Rightarrow> 'd consumed exec" where
  "consume up is_more data [] = Inr (CDrained data)"
| "consume up is_more data (c # cs) =
     (if is_more (cr_flags c) then
        bind_exec (up_update up data c) (\<lambda>data'.
          if up_should_yield up data' then Inr (CYield data' cs) else consume up is_more data' cs)
      else Inr (CFinal data c cs))"

text \<open>The list left after a prefix of the nodes \<open>ks\<close> of the slab \<open>m\<close> has been popped.\<close>

definition rest_of :: "completions \<Rightarrow> nat list \<Rightarrow> cqe_result slab_list \<Rightarrow> cqe_result list \<Rightarrow> bool" where
  "rest_of m ks l rest \<longleftrightarrow> (\<exists>xs ys. ks = xs @ ys \<and> sl_slab l = fmdrop_set (set xs) m
     \<and> list_rep (sl_slab l) (sl_index l) ys \<and> entries_at (sl_slab l) ys = rest)"

fun exit_rel :: "completions \<Rightarrow> nat list \<Rightarrow> 'd multishot_exit \<Rightarrow> 'd consumed \<Rightarrow> bool" where
  "exit_rel m ks (ExitYield d l) (CYield d' rest) \<longleftrightarrow> d = d' \<and> rest_of m ks l rest"
| "exit_rel m ks (ExitFinal d c l) (CFinal d' c' rest) \<longleftrightarrow> d = d' \<and> c = c' \<and> rest_of m ks l rest"
| "exit_rel m ks (ExitDrained d l) (CDrained d') \<longleftrightarrow> d = d' \<and> rest_of m ks l []"
| "exit_rel m ks e c \<longleftrightarrow> False"

lemma rest_of_Cons:
  assumes "rest_of (fmdrop k m) ks l rest"
  shows "rest_of m (k # ks) l rest"
proof -
  from assms obtain xs ys where e: "ks = xs @ ys" "sl_slab l = fmdrop_set (set xs) (fmdrop k m)"
    "list_rep (sl_slab l) (sl_index l) ys" "entries_at (sl_slab l) ys = rest"
    by (auto simp: rest_of_def)
  moreover have "fmdrop_set (set xs) (fmdrop k m) = fmdrop_set (set (k # xs)) m"
    by (rule fmap_ext) auto
  ultimately show ?thesis unfolding rest_of_def by (intro exI [of _ "k # xs"] exI [of _ ys]) simp
qed

lemma exit_rel_Cons: "exit_rel (fmdrop k m) ks e c \<Longrightarrow> exit_rel m (k # ks) e c"
  by (cases e; cases c) (auto intro: rest_of_Cons)

lemma rest_of_self: "list_rep m (sl_index l) ks \<Longrightarrow> sl_slab l = m \<Longrightarrow> rest_of m ks l (entries_at m ks)"
  unfolding rest_of_def
  by (intro exI [of _ "[]"] exI [of _ ks]) (auto intro: fmap_ext)

lemma multishot_loop_consume:
  assumes "list_rep m ix ks" and "usize_MAX \<notin> fmdom' m"
  shows "rel_sum (=) (exit_rel m ks) (multishot_loop up is_more data (into_list ix m))
    (consume up is_more data (entries_at m ks))"
  using assms
proof (induction ks arbitrary: m ix data)
  case Nil
  have "rest_of m [] (into_list ix m) []"
    using rest_of_self [of m "into_list ix m" "[]"] Nil.prems(1)
    by (simp add: into_list_def from_indices_def)
  then show ?case by (subst multishot_loop.simps) (simp add: pop_rep_Nil [OF Nil.prems])
next
  case (Cons k ks)
  obtain l where p: "pop (into_list ix m) = (Some (hd (entries_at m (k # ks))), l)"
    and l: "sl_slab l = fmdrop k m" "list_rep (fmdrop k m) (sl_index l) ks"
    and e: "entries_at (fmdrop k m) ks = tl (entries_at m (k # ks))"
    using pop_rep_Cons [OF Cons.prems(1)] by (metis prod.collapse)
  have tail: "rest_of m (k # ks) l (tl (entries_at m (k # ks)))"
    using rest_of_Cons [OF rest_of_self [OF l(2,1)]] e by simp
  have "l = into_list (sl_index l) (fmdrop k m)"
    using l(1) by (metis into_list_id)
  then have IH: "rel_sum (=) (exit_rel m (k # ks)) (multishot_loop up is_more d l)
      (consume up is_more d (tl (entries_at m (k # ks))))" for d
    using Cons.IH [OF l(2), of d] Cons.prems(2) e
    by (auto elim!: sum.rel_mono_strong exit_rel_Cons)
  obtain c cs where cs: "entries_at m (k # ks) = c # cs" by (simp add: entries_at_def)
  show ?case
    using p tail IH unfolding cs
    by (subst multishot_loop.simps) (auto simp: bind_exec_def split: sum.splits)
qed

lemma rest_of_Nil:
  assumes "rest_of m ks l []"
  shows "sl_slab l = fmdrop_set (set ks) m" and "indices_is_empty (sl_index l)"
  using assms by (auto simp: rest_of_def dest: list_rep_empty)

lemma rest_of_drop:
  assumes "rest_of m ks l rest"
  shows "slab_list_drop l = Inr (fmdrop_set (set ks) m)"
proof -
  from assms obtain xs ys where e: "ks = xs @ ys" "sl_slab l = fmdrop_set (set xs) m"
    "list_rep (sl_slab l) (sl_index l) ys" by (auto simp: rest_of_def)
  from drop_list_rep [OF e(3)] have "slab_list_drop l = Inr (fmdrop_set (set ys) (sl_slab l))"
    by (simp add: into_list_id)
  also have "fmdrop_set (set ys) (sl_slab l) = fmdrop_set (set ks) m"
    unfolding e(1,2) by (rule fmap_ext) auto
  finally show ?thesis .
qed

lemma rest_of_put:
  assumes wf: "ops_wf o1" and r: "rest_of (completions o1) (owns o1 k) l rest" and ne: "rest \<noteq> []"
    and d: "distinct (owns o1 k)"
  shows "ops_wf (put_lifecycle k (CompletionList (sl_index l)) (sl_slab l) o1)"
    and "abs_ops (put_lifecycle k (CompletionList (sl_index l)) (sl_slab l) o1)
      = (abs_ops o1)(k \<mapsto> AQueue rest)"
    and "\<not> indices_is_empty (sl_index l)"
proof -
  let ?o2 = "put_lifecycle k (CompletionList (sl_index l)) (sl_slab l) o1"
  from r obtain xs ys where e: "owns o1 k = xs @ ys" "sl_slab l = fmdrop_set (set xs) (completions o1)"
    "list_rep (sl_slab l) (sl_index l) ys" "entries_at (sl_slab l) ys = rest"
    by (auto simp: rest_of_def)
  have ys: "ys \<noteq> []" using e(4) ne by auto
  have in_dom: "set (xs @ ys) \<subseteq> fmdom' (completions o1)" using ops_wfD(3) [OF wf] e(1) by (metis UN_upper UNIV_I)
  have dis: "set xs \<inter> set ys = {}" using d e(1) by simp
  have "fmdom' (sl_slab l) = fmdom' (completions o1) - set (owns o1 k) \<union> set ys"
    using e(1,2) in_dom dis by auto
  moreover have "usize_MAX \<notin> set ys" using in_dom ops_wfD(4) [OF wf] by auto
  ultimately have u: "ops_update o1 ?o2 k ys"
    unfolding ops_update_def using wf e(1-3) ys by auto
  show "ops_wf ?o2" by (rule ops_update_wf [OF u])
  show "abs_ops ?o2 = (abs_ops o1)(k \<mapsto> AQueue rest)"
    using abs_others [OF u] abs_mine [OF u] e(4) by (auto simp: fun_eq_iff)
  show "\<not> indices_is_empty (sl_index l)" using list_rep_empty [OF e(3)] ys by simp
qed

text \<open>The abstract effect of a poll: the result, the data left in the handle, the next state.\<close>

fun abs_consumed ::
  "('d, 'o, 'm) updateable_scheme \<Rightarrow> waker \<Rightarrow> 'd consumed
   \<Rightarrow> ('o poll \<times> 'd option \<times> 'd abs_op option \<times> waker list) exec" where
  "abs_consumed up w (CYield data rest) =
     bind_exec (up_yield_result up data) (\<lambda>(out, data').
       if rest = [] then Inr (Ready out, Some data', Some (AInFlight (Some w)), [])
       else Inr (Ready out, Some data', Some (AQueue rest), [w]))"
| "abs_consumed up w (CFinal data cqe rest) =
     bind_exec (co_complete up data cqe) (\<lambda>out. Inr (Ready out, None, None, []))"
| "abs_consumed up w (CDrained data) = Inr (Pending, Some data, Some (AInFlight (Some w)), [])"

fun abs_poll_multishot ::
  "('d, 'o, 'm) updateable_scheme \<Rightarrow> (u32 \<Rightarrow> bool) \<Rightarrow> waker \<Rightarrow> 'd \<Rightarrow> 'd abs_op
   \<Rightarrow> ('o poll \<times> 'd option \<times> 'd abs_op option \<times> waker list) exec" where
  "abs_poll_multishot up is_more w data (AInFlight v) =
     Inr (Pending, Some data, Some (AInFlight (Some w)), [])"
| "abs_poll_multishot up is_more w data (AIgnored x) = Inl (Unreachable ''poll_multishot_op'')"
| "abs_poll_multishot up is_more w data (ACompleted c) =
     bind_exec (co_complete up data (cqe_result_from c)) (\<lambda>out. Inr (Ready out, None, None, []))"
| "abs_poll_multishot up is_more w data (AQueue q) =
     bind_exec (consume up is_more data q) (abs_consumed up w)"

definition poll_multishot_rel ::
  "'d op \<Rightarrow> 'd ops \<Rightarrow> ('o poll \<times> 'd op \<times> 'd ops \<times> waker list)
   \<Rightarrow> ('o poll \<times> 'd option \<times> 'd abs_op option \<times> waker list) \<Rightarrow> bool" where
  "poll_multishot_rel op o1 c a \<longleftrightarrow>
     (case c of (r, op', o2, ws) \<Rightarrow> case a of (r', dt, a', ws') \<Rightarrow>
        r = r' \<and> op' = op\<lparr>op_data := dt\<rparr> \<and> ws = ws' \<and> ops_wf o2
      \<and> abs_ops o2 = (abs_ops o1)(op_index op := a'))"

lemma op_data_restore: "op_data op = Some data \<Longrightarrow> op\<lparr>op_data := Some data\<rparr> = op"
  by simp

lemma rel_exec_bind:
  "rel_sum (=) R m m' \<Longrightarrow> (\<And>x y. R x y \<Longrightarrow> rel_sum (=) S (f x) (g y)) \<Longrightarrow>
   rel_sum (=) S (bind_exec m f) (bind_exec m' g)"
  by (cases m; cases m') auto

lemma rel_exec_bind_same:
  "(\<And>x. rel_sum (=) S (f x) (g x)) \<Longrightarrow> rel_sum (=) S (bind_exec m f) (bind_exec m g)"
  by (cases m) auto

text \<open>The body of the \<^verbatim>\<open>CompletionList\<close> arm after the loop.\<close>

lemma multishot_exit_refines:
  assumes wf: "ops_wf o1" and lk: "fmlookup (lifecycle o1) (op_index op) = Some (CompletionList ix)"
    and rel: "exit_rel (completions o1) (owns o1 (op_index op)) ex c"
    and op': "op' = op\<lparr>op_data := None\<rparr>"
  shows "rel_sum (=) (poll_multishot_rel op o1)
    (case ex of
       ExitYield data' list \<Rightarrow>
         bind_exec (into_indices list) (\<lambda>(remaining, comps).
         bind_exec (up_yield_result up data') (\<lambda>(out, data'').
           let o2 = o1\<lparr>completions := comps\<rparr>; op'' = insert_data op' data'' in
           if \<not> indices_is_empty remaining then
             Inr (Ready out, op'', put_lc (op_index op) (CompletionList remaining) o2, [w])
           else Inr (Ready out, op'', put_lc (op_index op) (Waiting w) o2, [])))
     | ExitFinal data' cqe list \<Rightarrow>
         bind_exec (slab_list_drop list) (\<lambda>comps.
         bind_exec (ops_remove (op_index op) (o1\<lparr>completions := comps\<rparr>)) (\<lambda>o2.
         bind_exec (co_complete up data' cqe) (\<lambda>out. Inr (Ready out, op', o2, []))))
     | ExitDrained data' list \<Rightarrow>
         bind_exec (slab_list_drop list) (\<lambda>comps.
           Inr (Pending, insert_data op' data',
                put_lc (op_index op) (Waiting w) (o1\<lparr>completions := comps\<rparr>), [])))
    (abs_consumed up w c)"
proof (cases ex)
  case (ExitYield d l)
  with rel obtain rest where c: "c = CYield d rest"
    and r: "rest_of (completions o1) (owns o1 (op_index op)) l rest" by (cases c) auto
  have dis: "distinct (owns o1 (op_index op))"
    using owns_CompletionList [OF wf lk] by (rule list_rep_distinct)
  show ?thesis
  proof (cases "rest = []")
    case True
    note n = rest_of_Nil [OF r [unfolded True]]
    show ?thesis unfolding ExitYield c multishot_exit.case abs_consumed.simps
      using True n put_lc_free [OF wf _ n(1), of "Waiting w"] op'
      by (auto simp: poll_multishot_rel_def insert_data_def put_lc_comps Let_def
          intro!: rel_exec_bind_same split: prod.splits)
  next
    case False
    note n = rest_of_put [OF wf r False dis]
    show ?thesis unfolding ExitYield c multishot_exit.case abs_consumed.simps
      using False n op'
      by (auto simp: poll_multishot_rel_def insert_data_def put_lc_comps Let_def
          intro!: rel_exec_bind_same split: prod.splits)
  qed
next
  case (ExitFinal d q l)
  with rel obtain rest where c: "c = CFinal d q rest"
    and r: "rest_of (completions o1) (owns o1 (op_index op)) l rest" by (cases c) auto
  obtain o2 where "ops_remove (op_index op) (o1\<lparr>completions :=
      fmdrop_set (set (owns o1 (op_index op))) (completions o1)\<rparr>) = Inr o2" "ops_wf o2"
    "abs_ops o2 = (abs_ops o1)(op_index op := None)" by (rule remove_free [OF wf lk refl])
  then show ?thesis using rest_of_drop [OF r] op' unfolding ExitFinal c
    by (auto simp: poll_multishot_rel_def intro!: rel_exec_bind_same)
next
  case (ExitDrained d l)
  with rel have c: "c = CDrained d"
    and r: "rest_of (completions o1) (owns o1 (op_index op)) l []" by (cases c; auto)+
  show ?thesis using rest_of_drop [OF r] put_lc_free [OF wf _ refl, of "Waiting w"] op'
    unfolding ExitDrained c
    by (auto simp: poll_multishot_rel_def insert_data_def put_lc_comps)
qed

lemma poll_multishot_refines:
  assumes wf: "ops_wf o1" and ab: "abs_ops o1 (op_index op) = Some a" and dt: "op_data op = Some data"
  shows "rel_sum (=) (poll_multishot_rel op o1)
    (poll_multishot_op up is_more w op o1) (abs_poll_multishot up is_more w data a)"
proof -
  let ?k = "op_index op"
  from ab obtain lc where lk: "fmlookup (lifecycle o1) ?k = Some lc"
    and a: "a = abs_lifecycle (pending o1 ?k) lc" by (auto simp: abs_ops_def)
  have nf: "\<not> is_finished op" using dt by (simp add: is_finished_def)
  have own: "owns o1 ?k = []" if "\<And>ix. lc \<noteq> CompletionList ix"
    using lk that by (intro owns_other) simp
  note simple = put_lc_plain [OF wf own, of "Waiting w"] op_data_restore [OF dt]
  show ?thesis
  proof (cases lc)
    case (Completed cqe)
    with ops_remove_free [OF wf lk own] obtain o2 where o2: "ops_remove ?k o1 = Inr o2" "ops_wf o2"
      "abs_ops o2 = (abs_ops o1)(?k := None)" by auto
    show ?thesis using Completed lk nf o2 a dt
      by (auto simp: poll_multishot_op_def take_data_def poll_multishot_rel_def intro!: rel_exec_bind_same)
  next
    case (CompletionList ix)
    have "rel_sum (=) (exit_rel (completions o1) (owns o1 ?k))
        (multishot_loop up is_more data (into_list ix (completions o1)))
        (consume up is_more data (pending o1 ?k))"
      unfolding pending_def
      by (rule multishot_loop_consume)
         (use owns_CompletionList [OF wf] CompletionList lk ops_wfD(4) [OF wf] in auto)
    then show ?thesis using CompletionList lk nf a dt
      by (simp add: poll_multishot_op_def take_data_def del: into_indices_eq)
         (erule rel_exec_bind, rule multishot_exit_refines [OF wf], auto)
  qed (use lk nf a dt simple in \<open>auto simp: poll_multishot_op_def poll_multishot_rel_def\<close>)
qed

end
