(* ===== verification/Driver_Submission.thy ===== *)
theory Driver_Submission
  imports Driver_Lemmas
begin

text \<open>
  Submitting and dispatching: a batch of completions acts on the abstract operations one completion
  after the other, a submission tags its entry with a fresh index, and the loops that wait for room
  in the submission queue return when the ring makes progress and do not when it cannot.
\<close>

section \<open>Dispatching a batch\<close>

primrec abs_dispatch ::
  "(u32 \<Rightarrow> bool) \<Rightarrow> cqe list \<Rightarrow> (nat \<rightharpoonup> 'd abs_op) \<Rightarrow> ((nat \<rightharpoonup> 'd abs_op) \<times> waker list) exec" where
  "abs_dispatch is_more [] A = Inr (A, [])"
| "abs_dispatch is_more (c # cs) A =
     (if cq_user_data c = usize_MAX then abs_dispatch is_more cs A
      else case A (cq_user_data c) of
        None \<Rightarrow> Inl (Expect ''invalid key'')
      | Some a \<Rightarrow>
          bind_exec (abs_complete is_more c a) (\<lambda>(a', ws).
          bind_exec (abs_dispatch is_more cs (A(cq_user_data c := a'))) (\<lambda>(B, ws').
            Inr (B, ws @ ws'))))"

lemma dispatch_cqes_refines:
  assumes "slab_alloc_ok al" and "ops_wf (drv_ops d)" and "dispatch_cqes api al cqes d = Inr d'"
  shows "\<exists>ws. abs_dispatch (u_more api) cqes (abs_ops (drv_ops d)) = Inr (abs_ops (drv_ops d'), ws)
    \<and> drv_woken d' = drv_woken d @ ws \<and> drv_uring d' = drv_uring d \<and> ops_wf (drv_ops d')"
  using assms(2,3)
proof (induction cqes arbitrary: d)
  case Nil
  then show ?case by simp
next
  case (Cons c cs)
  show ?case
  proof (cases "cq_user_data c = usize_MAX")
    case True
    with Cons show ?thesis by simp
  next
    case False
    with Cons.prems obtain o2 ws where st: "ops_complete (u_more api) al (cq_user_data c) c (drv_ops d) = Inr (o2, ws)"
      and rest: "dispatch_cqes api al cs (d\<lparr>drv_ops := o2, drv_woken := drv_woken d @ ws\<rparr>) = Inr d'"
      by (auto simp: bind_exec_eq_Inr)
    from ops_complete_refines_step [OF Cons.prems(1) assms(1) st] obtain a a' where
      o2: "ops_wf o2" "abs_ops (drv_ops d) (cq_user_data c) = Some a"
        "abs_complete (u_more api) c a = Inr (a', ws)"
        "abs_ops o2 = (abs_ops (drv_ops d))(cq_user_data c := a')" by auto
    have "ops_wf (drv_ops (d\<lparr>drv_ops := o2, drv_woken := drv_woken d @ ws\<rparr>))" using o2(1) by simp
    from Cons.IH [OF this rest] obtain ws' where
      "abs_dispatch (u_more api) cs (abs_ops o2) = Inr (abs_ops (drv_ops d'), ws')"
      "drv_woken d' = drv_woken d @ ws @ ws'" "drv_uring d' = drv_uring d" "ops_wf (drv_ops d')" by auto
    with o2 False show ?thesis by simp
  qed
qed

lemma dispatch_completions_wf:
  assumes "slab_alloc_ok al" and "ops_wf (drv_ops d)" and "dispatch_completions api al d = Inr d'"
  shows "ops_wf (drv_ops d')" and "drv_uring d' = snd (u_completion api (drv_uring d))"
  using dispatch_cqes_refines [OF assms(1), of "d\<lparr>drv_uring := snd (u_completion api (drv_uring d))\<rparr>"]
    assms(2,3) by (auto simp: dispatch_completions_def split: prod.splits)

lemma dispatch_after_submit_wf:
  "dispatch_completions api al (d\<lparr>drv_uring := u\<rparr>) = Inr d' \<Longrightarrow> slab_alloc_ok al \<Longrightarrow>
   ops_wf (drv_ops d) \<Longrightarrow> ops_wf (drv_ops d')"
  using dispatch_completions_wf(1) [of al "d\<lparr>drv_uring := u\<rparr>"] by simp

section \<open>The loops that wait for room\<close>

definition keeps_wf :: "slab_alloc \<Rightarrow> ('u, 'd) driver \<Rightarrow> ('u, 'd) submitted exec \<Rightarrow> bool" where
  "keeps_wf al d y \<longleftrightarrow>
     (\<forall>r d'. y = Inr (r, d') \<longrightarrow> slab_alloc_ok al \<longrightarrow> ops_wf (drv_ops d) \<longrightarrow> ops_wf (drv_ops d'))"

lemma driver_submit_keeps_wf:
  assumes "driver_submit api al d = Some y"
  shows "keeps_wf al d y"
proof (rule driver_submit.raw_induct [where P = "\<lambda>api al d y. keeps_wf al d y", OF _ assms])
  fix f :: "'a uring_api \<Rightarrow> slab_alloc \<Rightarrow> ('a, 'b) driver \<Rightarrow> ('a, 'b) submitted exec option"
    and api al d y
  assume IH: "\<And>api al d y. f api al d = Some y \<Longrightarrow> keeps_wf al d y"
    and "(case u_submit api (drv_uring d) of (r, u) \<Rightarrow>
       (case r of
          Ok n \<Rightarrow> Some (Inr (Ok (), d\<lparr>drv_uring := u_sq_sync api u\<rparr>))
        | Err e \<Rightarrow>
            if raw_os_error e = Some EBUSY then
              (case dispatch_completions api al (d\<lparr>drv_uring := u\<rparr>) of
                 Inl p \<Rightarrow> Some (Inl p)
               | Inr d' \<Rightarrow> f api al d')
            else if raw_os_error e \<noteq> Some EINTR then Some (Inr (Err e, d\<lparr>drv_uring := u\<rparr>))
            else f api al (d\<lparr>drv_uring := u\<rparr>))) = Some y"
  then show "keeps_wf al d y"
    by (auto simp: keeps_wf_def split: prod.splits result.splits if_splits sum.splits
        dest!: IH dest: dispatch_after_submit_wf)
qed

lemma push_until_keeps_wf:
  assumes "push_until api al tp d = Some y"
  shows "keeps_wf al d y"
proof (rule push_until.raw_induct [where P = "\<lambda>api al tp d y. keeps_wf al d y", OF _ assms])
  fix f :: "'a uring_api \<Rightarrow> slab_alloc \<Rightarrow> ('a \<Rightarrow> 'a option) \<Rightarrow> ('a, 'b) driver
      \<Rightarrow> ('a, 'b) submitted exec option"
    and api al tp d y
  assume IH: "\<And>api al tp d y. f api al tp d = Some y \<Longrightarrow> keeps_wf al d y"
    and eq: "(case tp (drv_uring d) of
        Some u \<Rightarrow> Some (Inr (Ok (), d\<lparr>drv_uring := u\<rparr>))
      | None \<Rightarrow>
          Option.bind (driver_submit api al d) (\<lambda>r.
            case r of
              Inl p \<Rightarrow> Some (Inl p)
            | Inr (Err e, d') \<Rightarrow> Some (Inr (Err e, d'))
            | Inr (Ok _, d') \<Rightarrow> f api al tp d')) = Some y"
  show "keeps_wf al d y"
  proof (cases "tp (drv_uring d)")
    case None
    with eq obtain r where r: "driver_submit api al d = Some r" by (auto simp: bind_eq_Some_conv)
    from driver_submit_keeps_wf [OF r] eq r None IH show ?thesis
      by (auto simp: keeps_wf_def split: sum.splits prod.splits result.splits)
  qed (use eq in \<open>auto simp: keeps_wf_def\<close>)
qed

lemma push_until_wf:
  "push_until api al tp d = Some (Inr (r, d')) \<Longrightarrow> slab_alloc_ok al \<Longrightarrow> ops_wf (drv_ops d)
   \<Longrightarrow> ops_wf (drv_ops d')"
  using push_until_keeps_wf unfolding keeps_wf_def by blast

text \<open>
  What the loops rely on: \<open>ring_settles api rank\<close> says that \<^verbatim>\<open>submit\<close> is answered with
  \<^verbatim>\<open>EBUSY\<close> or \<^verbatim>\<open>EINTR\<close> only finitely often in a row (\<open>rank\<close> bounds it, and draining the
  completions is what makes an \<^verbatim>\<open>EBUSY\<close> go away).
\<close>

definition ring_settles :: "'u uring_api \<Rightarrow> ('u \<Rightarrow> nat) \<Rightarrow> bool" where
  "ring_settles api rank \<longleftrightarrow> (\<forall>u u' e. u_submit api u = (Err e, u') \<longrightarrow>
     (raw_os_error e = Some EBUSY \<longrightarrow> rank (snd (u_completion api u')) < rank u)
   \<and> (raw_os_error e = Some EINTR \<longrightarrow> rank u' < rank u))"

lemma driver_submit_returns:
  assumes al: "slab_alloc_ok al" and settle: "ring_settles api rank"
    and "ops_wf (drv_ops d)"
  shows "\<exists>y. driver_submit api al d = Some y"
  using assms(3)
proof (induction "rank (drv_uring d)" arbitrary: d rule: less_induct)
  case less
  obtain r u where ru: "u_submit api (drv_uring d) = (r, u)" by (cases "u_submit api (drv_uring d)")
  show ?case
  proof (cases r)
    case (Ok n)
    with ru show ?thesis by (subst driver_submit.simps) simp
  next
    case (Err e)
    note busy = settle [unfolded ring_settles_def, rule_format, OF ru [unfolded Err]]
    consider (busy) "raw_os_error e = Some EBUSY" | (intr) "raw_os_error e = Some EINTR"
      | (other) "raw_os_error e \<noteq> Some EBUSY" "raw_os_error e \<noteq> Some EINTR" by blast
    then show ?thesis
    proof cases
      case busy
      show ?thesis
      proof (cases "dispatch_completions api al (d\<lparr>drv_uring := u\<rparr>)")
        case (Inr d')
        have "ops_wf (drv_ops d')" "drv_uring d' = snd (u_completion api u)"
          using dispatch_completions_wf [OF al _ Inr] less.prems by auto
        with less.hyps [of d'] settle ru Err busy have "\<exists>y. driver_submit api al d' = Some y"
          by (auto simp: ring_settles_def)
        with ru Err busy Inr show ?thesis by (subst driver_submit.simps) simp
      qed (use ru Err busy in \<open>subst driver_submit.simps, simp\<close>)
    next
      case intr
      with less.hyps [of "d\<lparr>drv_uring := u\<rparr>"] less.prems settle ru Err
      have "\<exists>y. driver_submit api al (d\<lparr>drv_uring := u\<rparr>) = Some y" by (auto simp: ring_settles_def)
      with ru Err intr show ?thesis by (subst driver_submit.simps) (simp add: EBUSY_def EINTR_def)
    next
      case other
      with ru Err show ?thesis by (subst driver_submit.simps) simp
    qed
  qed
qed

text \<open>
  \<open>push_after_submit\<close>: once a \<^verbatim>\<open>submit\<close> has succeeded the kernel has taken the entries of
  the submission queue, so the push succeeds.
\<close>

definition push_after_submit :: "'u uring_api \<Rightarrow> ('u \<Rightarrow> 'u option) \<Rightarrow> bool" where
  "push_after_submit api tp \<longleftrightarrow>
     (\<forall>u u' n. u_submit api u = (Ok n, u') \<longrightarrow> tp (u_sq_sync api u') \<noteq> None)"

definition submit_ok_room :: "'u uring_api \<Rightarrow> ('u \<Rightarrow> 'u option) \<Rightarrow> ('u, 'd) submitted exec \<Rightarrow> bool" where
  "submit_ok_room api tp y \<longleftrightarrow> (\<forall>x d'. y = Inr (Ok x, d') \<longrightarrow> push_after_submit api tp \<longrightarrow>
     tp (drv_uring d') \<noteq> None)"

lemma driver_submit_room:
  assumes "driver_submit api al d = Some y"
  shows "submit_ok_room api tp y"
proof (rule driver_submit.raw_induct [where P = "\<lambda>api al d y. submit_ok_room api tp y", OF _ assms])
  fix f :: "'a uring_api \<Rightarrow> slab_alloc \<Rightarrow> ('a, 'b) driver \<Rightarrow> ('a, 'b) submitted exec option"
    and api al d y
  assume "\<And>api al d y. f api al d = Some y \<Longrightarrow> submit_ok_room api tp y"
    and "(case u_submit api (drv_uring d) of (r, u) \<Rightarrow>
       (case r of
          Ok n \<Rightarrow> Some (Inr (Ok (), d\<lparr>drv_uring := u_sq_sync api u\<rparr>))
        | Err e \<Rightarrow>
            if raw_os_error e = Some EBUSY then
              (case dispatch_completions api al (d\<lparr>drv_uring := u\<rparr>) of
                 Inl p \<Rightarrow> Some (Inl p)
               | Inr d' \<Rightarrow> f api al d')
            else if raw_os_error e \<noteq> Some EINTR then Some (Inr (Err e, d\<lparr>drv_uring := u\<rparr>))
            else f api al (d\<lparr>drv_uring := u\<rparr>))) = Some y"
  then show "submit_ok_room api tp y"
    by (auto simp: submit_ok_room_def push_after_submit_def
        split: prod.splits result.splits if_splits sum.splits) metis
qed

lemma push_until_returns:
  assumes "slab_alloc_ok al" and "ring_settles api rank" and "push_after_submit api tp"
    and "ops_wf (drv_ops d)"
  shows "\<exists>y. push_until api al tp d = Some y"
proof (cases "tp (drv_uring d)")
  case None
  from driver_submit_returns [OF assms(1,2,4)] obtain y where y: "driver_submit api al d = Some y" by blast
  have again: "\<exists>z. push_until api al tp d' = Some z" if "y = Inr (Ok x, d')" for x d'
    using driver_submit_room [OF y, of tp] that assms(3)
    by (subst push_until.simps) (auto simp: submit_ok_room_def)
  show ?thesis using None y again
    by (subst push_until.simps) (auto split: sum.splits prod.splits result.splits)
qed (subst push_until.simps, simp)

text \<open>A push that can never succeed never lets the loop end well.\<close>

lemma push_until_never_ok:
  assumes "push_until api al tp d = Some y" and "\<And>u. tp u = None"
  shows "y \<noteq> Inr (Ok x, d')"
proof -
  have "(\<forall>u. tp u = None) \<longrightarrow> (\<forall>x d'. y \<noteq> Inr (Ok x, d'))"
  proof (rule push_until.raw_induct
      [where P = "\<lambda>api al tp d y. (\<forall>u. tp u = None) \<longrightarrow> (\<forall>x d'. y \<noteq> Inr (Ok x, d'))", OF _ assms(1)])
    fix f :: "'a uring_api \<Rightarrow> slab_alloc \<Rightarrow> ('a \<Rightarrow> 'a option) \<Rightarrow> ('a, 'b) driver
        \<Rightarrow> ('a, 'b) submitted exec option"
      and api al tp d y
    assume IH: "\<And>api al tp d y. f api al tp d = Some y \<Longrightarrow>
        (\<forall>u. tp u = None) \<longrightarrow> (\<forall>x d'. y \<noteq> Inr (Ok x, d'))"
      and eq: "(case tp (drv_uring d) of
          Some u \<Rightarrow> Some (Inr (Ok (), d\<lparr>drv_uring := u\<rparr>))
        | None \<Rightarrow>
            Option.bind (driver_submit api al d) (\<lambda>r.
              case r of
                Inl p \<Rightarrow> Some (Inl p)
              | Inr (Err e, d') \<Rightarrow> Some (Inr (Err e, d'))
              | Inr (Ok _, d') \<Rightarrow> f api al tp d')) = Some y"
    show "(\<forall>u. tp u = None) \<longrightarrow> (\<forall>x d'. y \<noteq> Inr (Ok x, d'))"
    proof
      assume none: "\<forall>u. tp u = None"
      with eq obtain r where "driver_submit api al d = Some r" by (auto simp: bind_eq_Some_conv)
      with eq none IH show "\<forall>x d'. y \<noteq> Inr (Ok x, d')"
        by (auto split: sum.splits prod.splits result.splits)
    qed
  qed
  with assms(2) show ?thesis by blast
qed

section \<open>What a submission does to the slabs\<close>

lemma submit_op_room:
  assumes al: "slab_alloc_ok la" and wf: "ops_wf (drv_ops d)"
    and k: "ops_insert la (drv_ops d) = Inr (k, o')" and f: "f data = Inr (s, data')"
    and push: "u_push api (s\<lparr>sqe_user_data := k\<rparr>) (drv_uring d) = Some u"
  shows "submit_op api la ca data f d = Some (Inr (Ok (op_new data' k), d\<lparr>drv_ops := o', drv_uring := u\<rparr>))"
    and "abs_ops (drv_ops d) k = None" and "k < usize_MAX" and "ops_wf o'"
    and "abs_ops o' = (abs_ops (drv_ops d))(k \<mapsto> AInFlight None)"
proof -
  have "push_until api ca (u_push api (s\<lparr>sqe_user_data := k\<rparr>)) (d\<lparr>drv_ops := o'\<rparr>)
      = Some (Inr (Ok (), d\<lparr>drv_ops := o', drv_uring := u\<rparr>))"
    using push by (subst push_until.simps) simp
  then show "submit_op api la ca data f d =
      Some (Inr (Ok (op_new data' k), d\<lparr>drv_ops := o', drv_uring := u\<rparr>))"
    using k f by (simp add: submit_op_def)
qed (use ops_insert_ok [OF wf al k] in auto)

lemma insert_all_ok:
  assumes "slab_alloc_ok la" and "ops_wf o1" and "insert_all la sqes o1 = Inr (ks, entries, o2)"
  shows "ops_wf o2 \<and> distinct ks \<and> length ks = length sqes
    \<and> (\<forall>k \<in> set ks. abs_ops o1 k = None \<and> k < usize_MAX)
    \<and> abs_ops o2 = (\<lambda>k. if k \<in> set ks then Some (AInFlight None) else abs_ops o1 k)
    \<and> entries = map2 (\<lambda>s k. s\<lparr>sqe_user_data := k\<rparr>) sqes ks"
  using assms(2,3)
proof (induction sqes arbitrary: o1 ks entries)
  case Nil
  then show ?case by auto
next
  case (Cons s sqes)
  then obtain k oa ks' es where st: "ops_insert la o1 = Inr (k, oa)"
    and rest: "insert_all la sqes oa = Inr (ks', es, o2)"
    and eqs: "ks = k # ks'" "entries = s\<lparr>sqe_user_data := k\<rparr> # es"
    by (auto simp: bind_exec_eq_Inr)
  note k = ops_insert_ok [OF Cons.prems(1) assms(1) st]
  note IH = Cons.IH [OF k(1) rest]
  from IH have nin: "k \<notin> set ks'" by (auto simp: k(3))
  have old: "abs_ops o1 j = None \<and> j < usize_MAX" if "j \<in> set ks'" for j
    using IH that nin k(3) by (metis fun_upd_other)
  show ?case using IH k nin eqs old by (auto simp: fun_eq_iff)
qed

end
