(* ===== verification/Driver_System.thy ===== *)
theory Driver_System
  imports Driver_Submission
begin

text \<open>
  The driver among its clients and the kernel, as a state machine. The state is the slabs, the
  live handles (the index and data of each operation whose final completion has not been
  consumed) and what the kernel still owns: the operations it has not finally completed and the
  memory each of them points to. A step is one call of the driver by a client (submit, poll, drop
  of a handle) or one completion posted by the kernel. Reachable states satisfy \<open>sys_inv\<close>, from
  which it follows that no \<^verbatim>\<open>unreachable!\<close> is reached and that the memory the kernel may
  write is owned by a handle or by the slab.
\<close>

record ('d, 'm) sys =
  sy_ops :: "'d ops"
  sy_live :: "nat \<rightharpoonup> bool \<times> 'd"
  sy_kernel :: "nat \<rightharpoonup> bool \<times> 'm"

text \<open>The flag of a handle and of a kernel entry says whether the operation is multishot.\<close>

definition sys_init :: "('d, 'm) sys" where
  "sys_init = \<lparr>sy_ops = ops_new, sy_live = Map.empty, sy_kernel = Map.empty\<rparr>"

definition handle :: "nat \<Rightarrow> 'd option \<Rightarrow> 'd op" where
  "handle k dt = \<lparr>op_index = k, op_data = dt\<rparr>"

lemma handle_simps [simp]: "op_index (handle k dt) = k" "op_data (handle k dt) = dt"
  "is_finished (handle k dt) \<longleftrightarrow> dt = None"
  by (simp_all add: handle_def is_finished_def)

section \<open>Steps\<close>

inductive sys_step ::
  "(u32 \<Rightarrow> bool) \<Rightarrow> slab_alloc \<Rightarrow> slab_alloc \<Rightarrow> ('d, 'o) updateable \<Rightarrow> ('d \<Rightarrow> 'm)
   \<Rightarrow> ('d, 'm) sys \<Rightarrow> ('d, 'm) sys \<Rightarrow> bool"
  for is_more :: "u32 \<Rightarrow> bool" and la ca :: slab_alloc and up :: "('d, 'o) updateable"
    and mem :: "'d \<Rightarrow> 'm" where
  Submit:
    "ops_insert la (sy_ops s) = Inr (k, o') \<Longrightarrow>
     sys_step is_more la ca up mem s
       (s\<lparr>sy_ops := o', sy_live := (sy_live s)(k \<mapsto> (multi, d)),
          sy_kernel := (sy_kernel s)(k \<mapsto> (multi, mem d))\<rparr>)"
| Cqe_More:
    "sy_kernel s (cq_user_data c) = Some (True, m) \<Longrightarrow> is_more (cq_flags c) \<Longrightarrow>
     ops_complete is_more ca (cq_user_data c) c (sy_ops s) = Inr (o', ws) \<Longrightarrow>
     sys_step is_more la ca up mem s (s\<lparr>sy_ops := o'\<rparr>)"
| Cqe_Final:
    "sy_kernel s (cq_user_data c) = Some x \<Longrightarrow> \<not> is_more (cq_flags c) \<Longrightarrow>
     ops_complete is_more ca (cq_user_data c) c (sy_ops s) = Inr (o', ws) \<Longrightarrow>
     sys_step is_more la ca up mem s
       (s\<lparr>sy_ops := o', sy_kernel := (sy_kernel s)(cq_user_data c := None)\<rparr>)"
| Poll_Single:
    "sy_live s k = Some (False, d) \<Longrightarrow>
     poll_op up w (handle k (Some d)) (sy_ops s) = Inr (r, op', o') \<Longrightarrow>
     sys_step is_more la ca up mem s
       (s\<lparr>sy_ops := o', sy_live := (sy_live s)(k := map_option (Pair False) (op_data op'))\<rparr>)"
| Poll_Multi:
    "sy_live s k = Some (True, d) \<Longrightarrow>
     poll_multishot_op up is_more w (handle k (Some d)) (sy_ops s) = Inr (r, op', o', ws) \<Longrightarrow>
     sys_step is_more la ca up mem s
       (s\<lparr>sy_ops := o', sy_live := (sy_live s)(k := map_option (Pair True) (op_data op'))\<rparr>)"
| Drop_Live:
    "sy_live s k = Some (b, d) \<Longrightarrow>
     remove_op is_more (handle k (Some d)) (sy_ops s) = Inr (op', o') \<Longrightarrow>
     sys_step is_more la ca up mem s (s\<lparr>sy_ops := o', sy_live := (sy_live s)(k := None)\<rparr>)"
| Drop_Finished:
    "remove_op is_more (handle k None) (sy_ops s) = Inr (op', o') \<Longrightarrow>
     sys_step is_more la ca up mem s (s\<lparr>sy_ops := o'\<rparr>)"

inductive_cases sys_stepE: "sys_step is_more la ca up mem s s'"

section \<open>The invariant\<close>

definition all_more :: "(u32 \<Rightarrow> bool) \<Rightarrow> cqe_result list \<Rightarrow> bool" where
  "all_more is_more q \<longleftrightarrow> (\<forall>c \<in> set q. is_more (cr_flags c))"

fun key_ok ::
  "(u32 \<Rightarrow> bool) \<Rightarrow> ('d \<Rightarrow> 'm) \<Rightarrow> 'd abs_op option \<Rightarrow> (bool \<times> 'd) option \<Rightarrow> (bool \<times> 'm) option \<Rightarrow> bool" where
  "key_ok is_more mem a (Some (b', d)) (Some (b, m)) \<longleftrightarrow>
     b' = b \<and> mem d = m
   \<and> ((\<exists>w. a = Some (AInFlight w)) \<or> (b \<and> (\<exists>q. a = Some (AQueue q) \<and> q \<noteq> [] \<and> all_more is_more q)))"
| "key_ok is_more mem a None (Some (b, m)) \<longleftrightarrow> (\<exists>d. a = Some (AIgnored (Some d)) \<and> mem d = m)"
| "key_ok is_more mem a (Some (b, d)) None \<longleftrightarrow>
     (\<exists>c. a = Some (ACompleted c))
   \<or> (b \<and> (\<exists>q c. a = Some (AQueue (q @ [c])) \<and> all_more is_more q \<and> \<not> is_more (cr_flags c)))"
| "key_ok is_more mem a None None \<longleftrightarrow> a = None"

definition sys_inv :: "(u32 \<Rightarrow> bool) \<Rightarrow> ('d \<Rightarrow> 'm) \<Rightarrow> ('d, 'm) sys \<Rightarrow> bool" where
  "sys_inv is_more mem s \<longleftrightarrow> ops_wf (sy_ops s)
     \<and> (\<forall>k. key_ok is_more mem (abs_ops (sy_ops s) k) (sy_live s k) (sy_kernel s k))"

text \<open>The data's own methods never replace the memory the kernel was given.\<close>

definition mem_stable :: "('d, 'o) updateable \<Rightarrow> ('d \<Rightarrow> 'm) \<Rightarrow> bool" where
  "mem_stable up mem \<longleftrightarrow>
     (\<forall>d c d'. up_update up d c = Inr d' \<longrightarrow> mem d' = mem d)
   \<and> (\<forall>d out d'. up_yield_result up d = Inr (out, d') \<longrightarrow> mem d' = mem d)"

inductive sys_reach ::
  "(u32 \<Rightarrow> bool) \<Rightarrow> slab_alloc \<Rightarrow> slab_alloc \<Rightarrow> ('d, 'o) updateable \<Rightarrow> ('d \<Rightarrow> 'm) \<Rightarrow> ('d, 'm) sys \<Rightarrow> bool"
  for is_more la ca up mem where
  Start: "sys_reach is_more la ca up mem sys_init"
| Step: "sys_reach is_more la ca up mem s \<Longrightarrow> sys_step is_more la ca up mem s s' \<Longrightarrow>
    sys_reach is_more la ca up mem s'"

lemma all_more_simps [simp]:
  "all_more is_more []"
  "all_more is_more (c # q) \<longleftrightarrow> is_more (cr_flags c) \<and> all_more is_more q"
  "all_more is_more (q @ q') \<longleftrightarrow> all_more is_more q \<and> all_more is_more q'"
  by (auto simp: all_more_def)

lemma cr_flags_from [simp]: "cr_flags (cqe_result_from c) = cq_flags c"
  by (simp add: cqe_result_from_def Let_def)

text \<open>Changing one key: the rest of the invariant is untouched.\<close>

lemma sys_inv_upd:
  assumes "sys_inv is_more mem s" and "ops_wf o'" and "abs_ops o' = (abs_ops (sy_ops s))(k := a')"
    and "key_ok is_more mem a' l' r'"
  shows "sys_inv is_more mem (s\<lparr>sy_ops := o', sy_live := (sy_live s)(k := l'), sy_kernel := (sy_kernel s)(k := r')\<rparr>)"
  using assms by (auto simp: sys_inv_def)

lemma sys_inv_keyD: "sys_inv is_more mem s \<Longrightarrow> key_ok is_more mem (abs_ops (sy_ops s) k) (sy_live s k) (sy_kernel s k)"
  by (simp add: sys_inv_def)

lemma sys_inv_wfD: "sys_inv is_more mem s \<Longrightarrow> ops_wf (sy_ops s)"
  by (simp add: sys_inv_def)

lemma sys_upd_same_live:
  "s\<lparr>sy_ops := o', sy_live := (sy_live s)(k := sy_live s k), sy_kernel := r\<rparr> = s\<lparr>sy_ops := o', sy_kernel := r\<rparr>"
  by simp

section \<open>What a poll leaves\<close>

lemma consume_all_more:
  assumes "mem_stable up mem" and "all_more is_more q" and "consume up is_more d q = Inr x"
  shows "(\<exists>d' rest. x = CYield d' rest \<and> all_more is_more rest \<and> mem d' = mem d)
    \<or> (\<exists>d'. x = CDrained d' \<and> mem d' = mem d)"
  using assms(2,3)
proof (induction q arbitrary: d)
  case (Cons c q)
  then obtain d1 where d1: "up_update up d c = Inr d1" by (auto simp: bind_exec_eq_Inr)
  then have m: "mem d1 = mem d" using assms(1) by (simp add: mem_stable_def)
  show ?case using Cons.IH [of d1] Cons.prems d1 m by (auto split: if_splits)
qed auto

lemma consume_final:
  assumes "mem_stable up mem" and "all_more is_more q" and "\<not> is_more (cr_flags c)"
    and "consume up is_more d (q @ [c]) = Inr x"
  shows "(\<exists>d' q'. x = CYield d' (q' @ [c]) \<and> all_more is_more q' \<and> mem d' = mem d)
    \<or> (\<exists>d'. x = CFinal d' c [])"
  using assms(2,4)
proof (induction q arbitrary: d)
  case Nil
  then show ?case using assms(3) by auto
next
  case (Cons a q)
  then obtain d1 where d1: "up_update up d a = Inr d1" by (auto simp: bind_exec_eq_Inr)
  then have m: "mem d1 = mem d" using assms(1) by (simp add: mem_stable_def)
  show ?case using Cons.IH [of d1] Cons.prems d1 m by (auto split: if_splits)
qed

lemma poll_multi_key_ok:
  assumes ms: "mem_stable up mem" and ok: "key_ok is_more mem (Some a) (Some (True, d)) kern"
    and eq: "abs_poll_multishot up is_more w d a = Inr (r, dt, a', ws)"
  shows "key_ok is_more mem a' (map_option (Pair True) dt) kern"
proof (cases kern)
  case None
  show ?thesis
  proof (cases a)
    case (AQueue q)
    with ok None obtain q' c where q: "q = q' @ [c]" "all_more is_more q'" "\<not> is_more (cr_flags c)" by auto
    from eq AQueue obtain x where x: "consume up is_more d q = Inr x" "abs_consumed up w x = Inr (r, dt, a', ws)"
      by (auto simp: bind_exec_eq_Inr)
    from consume_final [OF ms q(2,3) x(1) [unfolded q(1)]] show ?thesis
    proof (elim disjE exE conjE)
      fix d' q'' assume "x = CYield d' (q'' @ [c])" "all_more is_more q''"
      with x(2) None q(3) show ?thesis by (auto simp: bind_exec_eq_Inr)
    next
      fix d' assume "x = CFinal d' c []"
      with x(2) None show ?thesis by (auto simp: bind_exec_eq_Inr)
    qed
  qed (use ok eq None in \<open>auto simp: bind_exec_eq_Inr\<close>)
next
  case (Some km)
  obtain b m where km: "km = (b, m)" by (cases km)
  show ?thesis
  proof (cases a)
    case (AQueue q)
    with ok Some km have q: "all_more is_more q" by auto
    from eq AQueue obtain x where x: "consume up is_more d q = Inr x" "abs_consumed up w x = Inr (r, dt, a', ws)"
      by (auto simp: bind_exec_eq_Inr)
    from consume_all_more [OF ms q x(1)] x(2) ok Some km ms show ?thesis
      by (auto simp: bind_exec_eq_Inr mem_stable_def split: if_splits)
  qed (use ok eq Some km in auto)
qed

section \<open>Every step keeps the invariant\<close>

lemma complete_key_ok:
  assumes ok: "key_ok is_more mem (Some a) l (Some (b, m))"
    and eq: "abs_complete is_more c a = Inr (a', ws)"
  shows "is_more (cq_flags c) \<Longrightarrow> b \<Longrightarrow> key_ok is_more mem a' l (Some (b, m))"
    and "\<not> is_more (cq_flags c) \<Longrightarrow> key_ok is_more mem a' l None"
  using ok eq by (cases l; cases a; auto)+

lemma step_complete:
  assumes inv: "sys_inv is_more mem s" and ca: "slab_alloc_ok ca"
    and k: "sy_kernel s (cq_user_data c) = Some (b, m)" and mult: "is_more (cq_flags c) \<Longrightarrow> b"
    and eq: "ops_complete is_more ca (cq_user_data c) c (sy_ops s) = Inr (o', ws)"
  shows "sys_inv is_more mem (s\<lparr>sy_ops := o', sy_kernel := (sy_kernel s)(cq_user_data c :=
    if is_more (cq_flags c) then Some (b, m) else None)\<rparr>)"
proof -
  let ?k = "cq_user_data c"
  from ops_complete_refines_step [OF sys_inv_wfD [OF inv] ca eq] obtain a a' where
    a: "ops_wf o'" "abs_ops (sy_ops s) ?k = Some a" "abs_complete is_more c a = Inr (a', ws)"
      "abs_ops o' = (abs_ops (sy_ops s))(?k := a')" by auto
  have ok: "key_ok is_more mem (Some a) (sy_live s ?k) (Some (b, m))"
    using sys_inv_keyD [OF inv, of ?k] k a(2) by simp
  have "key_ok is_more mem a' (sy_live s ?k) (if is_more (cq_flags c) then Some (b, m) else None)"
    using complete_key_ok [OF ok a(3)] mult by auto
  from sys_inv_upd [OF inv a(1,4) this] show ?thesis by simp
qed

lemma poll_op_cases:
  assumes wf: "ops_wf o1" and ab: "abs_ops o1 k = Some a"
    and eq: "poll_op co w (handle k (Some d)) o1 = Inr (r, op', o')"
  shows "ops_wf o' \<and> ((\<exists>v. a = AInFlight v \<and> r = Pending \<and> op_data op' = Some d
        \<and> abs_ops o' = (abs_ops o1)(k \<mapsto> AInFlight (Some w)))
    \<or> (\<exists>c out. a = ACompleted c \<and> co_complete co d (cqe_result_from c) = Inr out \<and> r = Ready out
        \<and> op_data op' = None \<and> abs_ops o' = (abs_ops o1)(k := None)))"
proof -
  note eq' = eq [unfolded poll_op_via_poll_op_2 [of "handle k (Some d)" d co w o1, simplified]]
  show ?thesis using poll_op_2_refines [OF wf ab, of w] eq'
    by (cases a) (auto simp: bind_exec_eq_Inr)
qed

lemma remove_op_cases:
  assumes wf: "ops_wf o1" and ab: "abs_ops o1 k = Some a"
    and eq: "remove_op is_more (handle k (Some d)) o1 = Inr (op', o')"
  shows "ops_wf o' \<and> (\<exists>kept a'. abs_remove is_more (Some d) a = Inr (kept, a')
    \<and> abs_ops o' = (abs_ops o1)(k := a'))"
  using remove_lc_refines [OF wf ab, of is_more "Some d"] eq
  by (auto simp: remove_op_def take_data_def bind_exec_eq_Inr split: sum.splits)

lemma key_ok_present: "key_ok is_more mem a l r \<Longrightarrow> l \<noteq> None \<or> r \<noteq> None \<Longrightarrow> \<exists>a'. a = Some a'"
  by (cases "(is_more, mem, a, l, r)" rule: key_ok.cases) auto

lemma step_submit:
  assumes inv: "sys_inv is_more mem s" and la: "slab_alloc_ok la"
    and eq: "ops_insert la (sy_ops s) = Inr (k, o')"
  shows "sys_inv is_more mem (s\<lparr>sy_ops := o', sy_live := (sy_live s)(k \<mapsto> (multi, d)),
          sy_kernel := (sy_kernel s)(k \<mapsto> (multi, mem d))\<rparr>)"
  by (rule sys_inv_upd [OF inv, where a' = "Some (AInFlight None)"])
     (use ops_insert_ok [OF sys_inv_wfD [OF inv] la eq] in auto)

lemma step_poll_single:
  assumes inv: "sys_inv is_more mem s" and l: "sy_live s k = Some (False, d)"
    and eq: "poll_op up w (handle k (Some d)) (sy_ops s) = Inr (r, op', o')"
  shows "sys_inv is_more mem (s\<lparr>sy_ops := o', sy_live := (sy_live s)(k := map_option (Pair False) (op_data op'))\<rparr>)"
proof -
  note ok = sys_inv_keyD [OF inv, of k]
  from key_ok_present [OF ok] l obtain a where a: "abs_ops (sy_ops s) k = Some a" by auto
  from poll_op_cases [OF sys_inv_wfD [OF inv] a eq] obtain a' where
    a': "ops_wf o'" "abs_ops o' = (abs_ops (sy_ops s))(k := a')"
      "key_ok is_more mem a' (map_option (Pair False) (op_data op')) (sy_kernel s k)"
    using ok l a by (cases "sy_kernel s k") auto
  from sys_inv_upd [OF inv a'] show ?thesis by simp
qed

lemma step_poll_multi:
  assumes inv: "sys_inv is_more mem s" and ms: "mem_stable up mem" and l: "sy_live s k = Some (True, d)"
    and eq: "poll_multishot_op up is_more w (handle k (Some d)) (sy_ops s) = Inr (r, op', o', ws)"
  shows "sys_inv is_more mem (s\<lparr>sy_ops := o', sy_live := (sy_live s)(k := map_option (Pair True) (op_data op'))\<rparr>)"
proof -
  note ok = sys_inv_keyD [OF inv, of k]
  from key_ok_present [OF ok] l obtain a where a: "abs_ops (sy_ops s) k = Some a" by auto
  from poll_multishot_refines [OF sys_inv_wfD [OF inv], of "handle k (Some d)" a d up is_more w] a eq
  obtain dt a' where a': "abs_poll_multishot up is_more w d a = Inr (r, dt, a', ws)"
    "op_data op' = dt" "ops_wf o'" "abs_ops o' = (abs_ops (sy_ops s))(k := a')"
    by (auto simp: poll_multishot_rel_def elim!: rel_sum.cases)
  have "key_ok is_more mem a' (map_option (Pair True) (op_data op')) (sy_kernel s k)"
    using poll_multi_key_ok [OF ms _ a'(1)] ok l a a'(2) by simp
  from sys_inv_upd [OF inv a'(3,4) this] show ?thesis by simp
qed

lemma step_drop:
  assumes inv: "sys_inv is_more mem s" and l: "sy_live s k = Some (b, d)"
    and eq: "remove_op is_more (handle k (Some d)) (sy_ops s) = Inr (op', o')"
  shows "sys_inv is_more mem (s\<lparr>sy_ops := o', sy_live := (sy_live s)(k := None)\<rparr>)"
proof -
  note ok = sys_inv_keyD [OF inv, of k]
  from key_ok_present [OF ok] l obtain a where a: "abs_ops (sy_ops s) k = Some a" by auto
  from remove_op_cases [OF sys_inv_wfD [OF inv] a eq] obtain kept a' where
    a': "ops_wf o'" "abs_remove is_more (Some d) a = Inr (kept, a')"
      "abs_ops o' = (abs_ops (sy_ops s))(k := a')" by auto
  have "key_ok is_more mem a' None (sy_kernel s k)"
  proof (cases "sy_kernel s k")
    case None
    then show ?thesis using ok l a a'(2) by (cases a) (auto split: if_splits)
  next
    case (Some km)
    then show ?thesis using ok l a a'(2)
      by (cases km; cases a) (auto simp: all_more_def split: if_splits)
  qed
  from sys_inv_upd [OF inv a'(1,3) this] show ?thesis by simp
qed

lemma sys_step_inv:
  assumes "sys_step is_more la ca up mem s s'" and "sys_inv is_more mem s"
    and "slab_alloc_ok la" and "slab_alloc_ok ca" and "mem_stable up mem"
  shows "sys_inv is_more mem s'"
  using assms
proof cases
  case (Cqe_More c m o' ws)
  then show ?thesis using step_complete [OF assms(2,4) Cqe_More(2) _ Cqe_More(4)]
    by (simp add: fun_upd_idem)
next
  case (Cqe_Final c x o' ws)
  then show ?thesis using step_complete [OF assms(2,4) _ _ Cqe_Final(4), of "fst x" "snd x"] by simp
next
  case (Drop_Finished k op' o')
  then show ?thesis using assms(2) by (auto simp: remove_op_def)
qed (use assms in \<open>simp_all add: step_submit step_poll_single step_poll_multi step_drop\<close>)

lemma sys_inv_init: "sys_inv is_more mem sys_init"
  using ops_wf_new by (simp add: sys_inv_def sys_init_def abs_ops_def ops_new_def pending_def owns_def)

lemma sys_reach_inv:
  assumes "sys_reach is_more la ca up mem s"
    and "slab_alloc_ok la" and "slab_alloc_ok ca" and "mem_stable up mem"
  shows "sys_inv is_more mem s"
  using assms by (induction rule: sys_reach.induct) (auto intro: sys_inv_init sys_step_inv)

section \<open>Properties of reachable states\<close>

lemma reach_complete_progress:
  assumes inv: "sys_inv is_more mem s" and k: "sy_kernel s k \<noteq> None"
    and cap: "ca (fmdom' (completions (sy_ops s))) \<noteq> None"
  shows "\<exists>o' ws. ops_complete is_more ca k c (sy_ops s) = Inr (o', ws)"
proof -
  note ok = sys_inv_keyD [OF inv, of k]
  from key_ok_present [OF ok] k obtain a where a: "abs_ops (sy_ops s) k = Some a" by auto
  moreover have "a \<noteq> ACompleted x" for x
    using ok k a by (cases "sy_kernel s k"; cases "sy_live s k") auto
  ultimately show ?thesis
    using ops_complete_progress [of "sy_ops s" ca k a is_more c] sys_inv_wfD [OF inv] cap by blast
qed

lemma reach_drop_progress:
  assumes inv: "sys_inv is_more mem s" and l: "sy_live s k = Some (b, d)"
  shows "\<exists>op' o'. remove_op is_more (handle k (Some d)) (sy_ops s) = Inr (op', o')"
proof -
  note ok = sys_inv_keyD [OF inv, of k]
  from key_ok_present [OF ok] l obtain a where a: "abs_ops (sy_ops s) k = Some a" by auto
  moreover have "a \<noteq> AIgnored x" for x
    using ok l a by (cases "sy_kernel s k") auto
  ultimately have "\<exists>kept a'. abs_remove is_more (Some d) a = Inr (kept, a')" by (cases a) auto
  then obtain kept a' where "abs_remove is_more (Some d) a = Inr (kept, a')" by blast
  with remove_lc_refines [OF sys_inv_wfD [OF inv] a, of is_more "Some d"] show ?thesis
    by (auto simp: remove_op_def take_data_def)
qed

lemma reach_poll_single_progress:
  assumes inv: "sys_inv is_more mem s" and l: "sy_live s k = Some (False, d)"
    and tot: "\<And>d c. \<exists>out. co_complete up d c = Inr out"
  shows "\<exists>r op' o'. poll_op up w (handle k (Some d)) (sy_ops s) = Inr (r, op', o')"
proof -
  note ok = sys_inv_keyD [OF inv, of k]
  from key_ok_present [OF ok] l obtain a where a: "abs_ops (sy_ops s) k = Some a" by auto
  moreover have "a \<noteq> AIgnored x" "a \<noteq> AQueue q" for x q
    using ok l a by (cases "sy_kernel s k"; auto)+
  ultimately obtain r a' where "abs_poll w a = Inr (r, a')" by (cases a) auto
  with poll_op_2_refines [OF sys_inv_wfD [OF inv] a, of w] obtain o' where
    o': "poll_op_2 w k (sy_ops s) = Inr (r, o')" by auto
  note via = poll_op_via_poll_op_2 [of "handle k (Some d)" d up w "sy_ops s"]
  show ?thesis
  proof (cases r)
    case (Ready c)
    obtain out where "co_complete up d (cqe_result_from c) = Inr out" using tot by blast
    with o' via Ready show ?thesis by simp
  qed (use o' via in simp)
qed

lemma consume_total:
  assumes "\<And>d c. \<exists>d'. up_update up d c = Inr d'"
  shows "\<exists>x. consume up is_more d q = Inr x"
proof (induction q arbitrary: d)
  case (Cons c q)
  obtain d' where "up_update up d c = Inr d'" using assms by blast
  with Cons [of d'] show ?case by auto
qed simp

lemma reach_poll_multi_progress:
  assumes inv: "sys_inv is_more mem s" and l: "sy_live s k = Some (True, d)"
    and tot: "\<And>d c. \<exists>out. co_complete up d c = Inr out" "\<And>d c. \<exists>d'. up_update up d c = Inr d'"
      "\<And>d. \<exists>x. up_yield_result up d = Inr x"
  shows "\<exists>r op' o' ws. poll_multishot_op up is_more w (handle k (Some d)) (sy_ops s) = Inr (r, op', o', ws)"
proof -
  note ok = sys_inv_keyD [OF inv, of k]
  from key_ok_present [OF ok] l obtain a where a: "abs_ops (sy_ops s) k = Some a" by auto
  have ni: "a \<noteq> AIgnored x" for x using ok l a by (cases "sy_kernel s k") auto
  have fin: "\<exists>y. bind_exec (co_complete up d' c) (\<lambda>out. Inr (f out)) = Inr y" for d' c
    and f :: "'c \<Rightarrow> 'c poll \<times> 'a option \<times> 'a abs_op option \<times> waker list"
    using tot(1) [of d' c] by fastforce
  have cons: "\<exists>y. abs_consumed up w x = Inr y" for x
  proof (cases x)
    case (CYield d' rest)
    obtain out d'' where "up_yield_result up d' = Inr (out, d'')" using tot(3) by (metis surj_pair)
    then show ?thesis using CYield by simp
  qed (simp_all only: abs_consumed.simps fin, simp)
  obtain y where "abs_poll_multishot up is_more w d a = Inr y"
  proof (cases a)
    case (AQueue q)
    obtain x where "consume up is_more d q = Inr x" using consume_total [OF tot(2)] by blast
    with cons [of x] AQueue show ?thesis using that by auto
  next
    case (ACompleted c)
    with fin that show ?thesis by (metis abs_poll_multishot.simps(3))
  qed (use ni that in auto)
  with poll_multishot_refines [OF sys_inv_wfD [OF inv], of "handle k (Some d)" a d up is_more w] a
  show ?thesis by (auto elim!: rel_sum.cases)
qed

end
