(* ===== verification/Driver_Drop.thy ===== *)
theory Driver_Drop
  imports Driver_System
begin

text \<open>
  \<^verbatim>\<open>Drop for Driver\<close>: flush the submission queue, mark every operation as completed or ignored,
  submit a cancellation for each ignored one, and wait until the slab is empty. The waits are
  partial functions; that they end is proved from a contract of the kernel.
\<close>

section \<open>The phases of the drop\<close>

definition drop_msg :: string where
  "drop_msg = ''Internal error when dropping driver''"

text \<open>\<^verbatim>\<open>while !submission().is_empty() { submit().expect(..) }\<close>\<close>

partial_function (option) flush_sq ::
  "'u uring_api \<Rightarrow> slab_alloc \<Rightarrow> ('u, 'd) driver \<Rightarrow> ('u, 'd) driver exec option" where
  "flush_sq api ca d =
     (if u_sq_is_empty api (drv_uring d) then Some (Inr d)
      else Option.bind (driver_submit api ca d) (\<lambda>r.
        case r of
          Inl p \<Rightarrow> Some (Inl p)
        | Inr (Err e, d') \<Rightarrow> Some (Inl (Expect drop_msg))
        | Inr (Ok _, d') \<Rightarrow> flush_sq api ca d'))"

definition zeroed_cqe :: cqe where
  "zeroed_cqe = \<lparr>cq_user_data = 0, cq_result = 0, cq_flags = 0\<rparr>"

text \<open>
  One round of the marking loop. The replaced value of every other state is dropped on the spot,
  with the data an \<^verbatim>\<open>Ignored\<close> holds; the list of a \<^verbatim>\<open>CompletionList\<close> is deallocated.
\<close>

fun mark_cycle ::
  "(u32 \<Rightarrow> bool) \<Rightarrow> 'd lifecycle \<Rightarrow> completions \<Rightarrow> ('d lifecycle \<times> completions) exec" where
  "mark_cycle is_more (Completed c) comps = Inr (Completed c, comps)"
| "mark_cycle is_more (CompletionList indices) comps =
     (let list = into_list indices comps in
      bind_exec (peek_end list) (\<lambda>last.
        case last of
          None \<Rightarrow> Inl UnwrapNone
        | Some c \<Rightarrow>
            bind_exec (slab_list_drop list) (\<lambda>comps'.
              Inr (if \<not> is_more (cr_flags c) then Completed zeroed_cqe else Ignored None, comps'))))"
| "mark_cycle is_more lc comps = Inr (Ignored None, comps)"

primrec mark_cycles :: "(u32 \<Rightarrow> bool) \<Rightarrow> nat list \<Rightarrow> 'd ops \<Rightarrow> 'd ops exec" where
  "mark_cycles is_more [] o1 = Inr o1"
| "mark_cycles is_more (k # ks) o1 =
     bind_exec (slab_index (lifecycle o1) k) (\<lambda>lc.
     bind_exec (mark_cycle is_more lc (completions o1)) (\<lambda>(lc', comps').
       mark_cycles is_more ks \<lparr>lifecycle = fmupd k lc' (lifecycle o1), completions = comps'\<rparr>))"

partial_function (option) push_cancel ::
  "'u uring_api \<Rightarrow> sqe \<Rightarrow> 'u \<Rightarrow> 'u exec option" where
  "push_cancel api s u =
     (case u_push api s u of
        Some u' \<Rightarrow> Some (Inr u')
      | None \<Rightarrow>
          (case u_submit_and_wait api 1 u of
             (Ok n, u') \<Rightarrow> push_cancel api s u'
           | (Err e, u') \<Rightarrow> Some (Inl (Expect drop_msg))))"

primrec cancel_cycles ::
  "'u uring_api \<Rightarrow> nat list \<Rightarrow> ('u, 'd) driver \<Rightarrow> ('u, 'd) driver exec option" where
  "cancel_cycles api [] d = Some (Inr d)"
| "cancel_cycles api (k # ks) d =
     (case fmlookup (lifecycle (drv_ops d)) k of
        Some (Ignored x) \<Rightarrow>
          Option.bind (push_cancel api (cancel_sqe k) (drv_uring d)) (\<lambda>r.
            case r of
              Inl p \<Rightarrow> Some (Inl p)
            | Inr u \<Rightarrow> cancel_cycles api ks (d\<lparr>drv_uring := u\<rparr>))
      | _ \<Rightarrow> cancel_cycles api ks d)"

definition driver_wait :: "'u uring_api \<Rightarrow> ('u, 'd) driver \<Rightarrow> (nat, io_error) result \<times> ('u, 'd) driver" where
  "driver_wait api d = (case u_submit_and_wait api 1 (drv_uring d) of (r, u) \<Rightarrow> (r, d\<lparr>drv_uring := u\<rparr>))"

lemma driver_wait_state [simp]:
  "snd (driver_wait api d) = d\<lparr>drv_uring := snd (u_submit_and_wait api 1 (drv_uring d))\<rparr>"
  by (simp add: driver_wait_def case_prod_beta)

partial_function (option) drain_ops ::
  "'u uring_api \<Rightarrow> slab_alloc \<Rightarrow> nat \<Rightarrow> ('u, 'd) driver \<Rightarrow> ('u, 'd) driver exec option" where
  "drain_ops api ca i d =
     (if slab_is_empty (lifecycle (drv_ops d)) then Some (Inr d)
      else case fmlookup (lifecycle (drv_ops d)) i of
        Some (Ignored x) \<Rightarrow>
          (case dispatch_completions api ca (snd (driver_wait api d)) of
             Inl p \<Rightarrow> Some (Inl p)
           | Inr d' \<Rightarrow> drain_ops api ca i d')
      | Some lc \<Rightarrow>
          drain_ops api ca (i + 1)
            (d\<lparr>drv_ops := (drv_ops d)\<lparr>lifecycle := fmdrop i (lifecycle (drv_ops d))\<rparr>\<rparr>)
      | None \<Rightarrow> drain_ops api ca (i + 1) d)"

definition driver_drop ::
  "'u uring_api \<Rightarrow> slab_alloc \<Rightarrow> ('u, 'd) driver \<Rightarrow> ('u, 'd) driver exec option" where
  "driver_drop api ca d =
     Option.bind (flush_sq api ca d) (\<lambda>r1.
       case bind_exec r1 (\<lambda>d1.
              bind_exec (mark_cycles (u_more api) (slab_keys (lifecycle (drv_ops d1))) (drv_ops d1)) (\<lambda>o2.
                Inr (d1\<lparr>drv_ops := o2\<rparr>))) of
         Inl p \<Rightarrow> Some (Inl p)
       | Inr d2 \<Rightarrow>
           Option.bind (cancel_cycles api (slab_keys (lifecycle (drv_ops d2))) d2) (\<lambda>r3.
             case r3 of
               Inl p \<Rightarrow> Some (Inl p)
             | Inr d3 \<Rightarrow>
                 Option.bind (drain_ops api ca 0 d3) (\<lambda>r4.
                   Some (bind_exec r4 (\<lambda>d4. bind_exec (ops_drop (drv_ops d4)) (\<lambda>_. Inr d4))))))"

section \<open>Marking\<close>

text \<open>An operation the kernel may still complete, seen from the slab.\<close>

fun in_flight :: "(u32 \<Rightarrow> bool) \<Rightarrow> 'd abs_op \<Rightarrow> bool" where
  "in_flight is_more (AInFlight w) \<longleftrightarrow> True"
| "in_flight is_more (AIgnored x) \<longleftrightarrow> True"
| "in_flight is_more (ACompleted c) \<longleftrightarrow> False"
| "in_flight is_more (AQueue q) \<longleftrightarrow> is_more (cr_flags (last q))"

definition marked :: "(u32 \<Rightarrow> bool) \<Rightarrow> 'd ops \<Rightarrow> 'd ops \<Rightarrow> nat \<Rightarrow> bool" where
  "marked is_more o1 o2 k \<longleftrightarrow>
     (case abs_ops o1 k of
        None \<Rightarrow> fmlookup (lifecycle o2) k = None
      | Some a \<Rightarrow> if in_flight is_more a then fmlookup (lifecycle o2) k = Some (Ignored None)
                  else \<exists>c. fmlookup (lifecycle o2) k = Some (Completed c))"

lemma mark_one:
  assumes wf: "ops_wf o1" and ab: "abs_ops o1 k = Some a" and lk: "fmlookup (lifecycle o1) k = Some lc"
  obtains lc' comps' where "mark_cycle is_more lc (completions o1) = Inr (lc', comps')"
    and "ops_wf (put_lifecycle k lc' comps' o1)"
    and "abs_ops (put_lifecycle k lc' comps' o1) = (abs_ops o1)(k \<mapsto> abs_lifecycle [] lc')"
    and "if in_flight is_more a then lc' = Ignored None else (\<exists>c. lc' = Completed c)"
proof -
  have a: "a = abs_lifecycle (pending o1 k) lc" using ab lk by (simp add: abs_ops_def)
  have own: "owns o1 k = []" if "\<And>ix. lc \<noteq> CompletionList ix"
    using lk that by (intro owns_other) simp
  show ?thesis
  proof (cases lc)
    case (CompletionList ix)
    note q = queue_facts [OF wf lk [unfolded CompletionList]]
    let ?lc = "if \<not> is_more (cr_flags (last (pending o1 k))) then Completed zeroed_cqe else Ignored None"
    show ?thesis
      by (rule that [of ?lc "fmdrop_set (set (owns o1 k)) (completions o1)"])
         (use CompletionList a q(3,4) put_lc_free [OF wf _ refl, of ?lc k] in \<open>auto simp: Let_def\<close>)
  next
    case (Completed c)
    show ?thesis
      by (rule that [of lc "completions o1"])
         (use Completed a ops_complete_final [OF wf own, of lc] in auto)
  qed (rule that [of "Ignored None" "completions o1"];
       use a own ops_complete_final [OF wf own, of "Ignored None"] in auto)+
qed

lemma mark_cycles_ok:
  assumes "ops_wf o1" and "set ks \<subseteq> fmdom' (lifecycle o1)" and "distinct ks"
  shows "\<exists>o2. mark_cycles is_more ks o1 = Inr o2 \<and> ops_wf o2
    \<and> (\<forall>k \<in> set ks. marked is_more o1 o2 k)
    \<and> (\<forall>k. k \<notin> set ks \<longrightarrow> fmlookup (lifecycle o2) k = fmlookup (lifecycle o1) k \<and> abs_ops o2 k = abs_ops o1 k)"
  using assms
proof (induction ks arbitrary: o1)
  case (Cons k ks)
  then obtain lc where lk: "fmlookup (lifecycle o1) k = Some lc" by (auto dest: in_fmdom'D)
  then obtain a where ab: "abs_ops o1 k = Some a" by (simp add: abs_ops_def)
  from mark_one [OF Cons.prems(1) ab lk] obtain lc' comps' where
    m: "mark_cycle is_more lc (completions o1) = Inr (lc', comps')"
      "ops_wf (put_lifecycle k lc' comps' o1)"
      "abs_ops (put_lifecycle k lc' comps' o1) = (abs_ops o1)(k \<mapsto> abs_lifecycle [] lc')"
      "if in_flight is_more a then lc' = Ignored None else (\<exists>c. lc' = Completed c)" by metis
  let ?o = "put_lifecycle k lc' comps' o1"
  have "set ks \<subseteq> fmdom' (lifecycle ?o)" "distinct ks" using Cons.prems by auto
  from Cons.IH [OF m(2) this] obtain o2 where o2: "mark_cycles is_more ks ?o = Inr o2" "ops_wf o2"
    "\<And>j. j \<in> set ks \<Longrightarrow> marked is_more ?o o2 j"
    "\<And>j. j \<notin> set ks \<Longrightarrow> fmlookup (lifecycle o2) j = fmlookup (lifecycle ?o) j \<and> abs_ops o2 j = abs_ops ?o j"
    by blast
  have kn: "k \<notin> set ks" using Cons.prems by simp
  have "marked is_more o1 o2 j" if "j \<in> set ks" for j
  proof -
    have "j \<noteq> k" using that kn by blast
    then show ?thesis using o2(3) [OF that] m(3) by (simp add: marked_def)
  qed
  moreover have "marked is_more o1 o2 k"
    using o2(4) [OF kn] m(4) ab by (simp add: marked_def split: if_splits)
  ultimately show ?case
    using lk m(1,3) o2 kn by (auto simp: slab_index_def put_lifecycle_def)
qed simp

section \<open>Waiting for the kernel\<close>

text \<open>
  What a batch of completions takes from the set \<open>P\<close> of operations the kernel owes a final
  completion: each completion is of an operation in the set (or of a cancellation), and a final
  one removes it. \<open>None\<close>: the batch completes something the kernel does not own.
\<close>

primrec deliver :: "(u32 \<Rightarrow> bool) \<Rightarrow> cqe list \<Rightarrow> nat set \<Rightarrow> nat set option" where
  "deliver is_more [] P = Some P"
| "deliver is_more (c # cs) P =
     (if cq_user_data c = usize_MAX then deliver is_more cs P
      else if cq_user_data c \<in> P then
        deliver is_more cs (if is_more (cq_flags c) then P else P - {cq_user_data c})
      else None)"

text \<open>
  The contract of the ring, for a view \<open>pend\<close> of the operations it owes: cancellations,
  submissions and waits do not change it, reading completions delivers them, and waiting for one
  brings the ring closer (\<open>rank\<close>) to having nothing owed. After a wait there is room for an entry.
\<close>

definition kernel_contract :: "'u uring_api \<Rightarrow> ('u \<Rightarrow> nat set) \<Rightarrow> ('u \<Rightarrow> nat) \<Rightarrow> bool" where
  "kernel_contract api pend rank \<longleftrightarrow>
     (\<forall>u n. pend (snd (u_submit_and_wait api n u)) = pend u)
   \<and> (\<forall>s u u'. sqe_user_data s = usize_MAX \<longrightarrow> u_push api s u = Some u' \<longrightarrow> pend u' = pend u)
   \<and> (\<forall>u. deliver (u_more api) (fst (u_completion api u)) (pend u) = Some (pend (snd (u_completion api u))))
   \<and> (\<forall>u. pend u \<noteq> {} \<longrightarrow> rank (snd (u_completion api (snd (u_submit_and_wait api 1 u)))) < rank u)
   \<and> (\<forall>s u n u'. u_submit_and_wait api 1 u = (Ok n, u') \<longrightarrow> u_push api s u' \<noteq> None)"

text \<open>Every entry is ignored and owed by the kernel, or completed.\<close>

fun drop_key :: "'d lifecycle option \<Rightarrow> bool \<Rightarrow> bool" where
  "drop_key (Some (Ignored x)) owed \<longleftrightarrow> owed"
| "drop_key (Some (Completed c)) owed \<longleftrightarrow> \<not> owed"
| "drop_key None owed \<longleftrightarrow> \<not> owed"
| "drop_key lc owed \<longleftrightarrow> False"

definition drop_inv :: "nat set \<Rightarrow> 'd ops \<Rightarrow> bool" where
  "drop_inv P o1 \<longleftrightarrow> (\<forall>k. drop_key (fmlookup (lifecycle o1) k) (k \<in> P))"

lemma drop_invD:
  assumes "drop_inv P o1" and "k \<in> P"
  shows "\<exists>x. fmlookup (lifecycle o1) k = Some (Ignored x)"
proof -
  have "drop_key (fmlookup (lifecycle o1) k) True" using assms by (metis drop_inv_def)
  then show ?thesis by (cases "(fmlookup (lifecycle o1) k, True)" rule: drop_key.cases) auto
qed

lemma complete_ignored:
  assumes "fmlookup (lifecycle o1) k = Some (Ignored x)"
  shows "ops_complete is_more al k c o1 = Inr
    (if is_more (cq_flags c) then put_lifecycle k (Ignored x) (completions o1) o1
     else o1\<lparr>lifecycle := fmdrop k (lifecycle o1)\<rparr>, [])"
  using assms by (simp add: ops_complete_eq)

lemma drop_inv_more:
  assumes "drop_inv P o1" and "fmlookup (lifecycle o1) k = Some (Ignored x)"
  shows "drop_inv P (put_lifecycle k (Ignored x) (completions o1) o1)"
proof -
  have "put_lifecycle k (Ignored x) (completions o1) o1 = o1"
    using assms(2) by (auto simp: put_lifecycle_def intro!: ops.equality fmap_ext)
  with assms(1) show ?thesis by simp
qed

lemma drop_inv_remove:
  "drop_inv P o1 \<Longrightarrow> drop_inv (P - {k}) (o1\<lparr>lifecycle := fmdrop k (lifecycle o1)\<rparr>)"
  by (simp add: drop_inv_def)

lemma dispatch_drop:
  assumes "drop_inv P (drv_ops d)" and "deliver (u_more api) cqes P = Some P'"
  shows "\<exists>d'. dispatch_cqes api ca cqes d = Inr d' \<and> drop_inv P' (drv_ops d')
    \<and> drv_uring d' = drv_uring d
    \<and> fmdom' (lifecycle (drv_ops d')) \<subseteq> fmdom' (lifecycle (drv_ops d))"
  using assms
proof (induction cqes arbitrary: d P)
  case (Cons c cs)
  show ?case
  proof (cases "cq_user_data c = usize_MAX")
    case True
    with Cons show ?thesis by auto
  next
    case False
    let ?k = "cq_user_data c"
    from Cons.prems False have "?k \<in> P" by (auto split: if_splits)
    then obtain x where x: "fmlookup (lifecycle (drv_ops d)) ?k = Some (Ignored x)"
      using drop_invD [OF Cons.prems(1)] by blast
    let ?o = "if u_more api (cq_flags c) then put_lifecycle ?k (Ignored x) (completions (drv_ops d)) (drv_ops d)
      else (drv_ops d)\<lparr>lifecycle := fmdrop ?k (lifecycle (drv_ops d))\<rparr>"
    let ?P = "if u_more api (cq_flags c) then P else P - {?k}"
    have inv: "drop_inv ?P ?o"
      using drop_inv_more [OF Cons.prems(1) x] drop_inv_remove [OF Cons.prems(1)] by simp
    have sub: "fmdom' (lifecycle ?o) \<subseteq> fmdom' (lifecycle (drv_ops d))"
      using x by (auto simp: fmlookup_SomeD)
    have del: "deliver (u_more api) cs ?P = Some P'" using Cons.prems(2) False \<open>?k \<in> P\<close> by simp
    obtain d' where "dispatch_cqes api ca cs (d\<lparr>drv_ops := ?o, drv_woken := drv_woken d @ []\<rparr>) = Inr d'"
      "drop_inv P' (drv_ops d')" "drv_uring d' = drv_uring d"
      "fmdom' (lifecycle (drv_ops d')) \<subseteq> fmdom' (lifecycle ?o)"
      using Cons.IH [of ?P "d\<lparr>drv_ops := ?o, drv_woken := drv_woken d @ []\<rparr>"] inv del by auto
    with False sub complete_ignored [OF x, of "u_more api" ca c] show ?thesis by auto
  qed
qed auto

lemma slab_is_empty_iff: "slab_is_empty m \<longleftrightarrow> m = fmempty"
  unfolding slab_is_empty_def by (metis fmap_ext fmdom'_empty fmempty_lookup fmlookup_None_iff empty_iff)

lemma drop_round:
  assumes kc: "kernel_contract api pend rank" and inv: "drop_inv (pend (drv_uring d)) (drv_ops d)"
  obtains d' where
    "dispatch_completions api ca (d\<lparr>drv_uring := snd (u_submit_and_wait api 1 (drv_uring d))\<rparr>) = Inr d'"
    and "drop_inv (pend (drv_uring d')) (drv_ops d')"
    and "fmdom' (lifecycle (drv_ops d')) \<subseteq> fmdom' (lifecycle (drv_ops d))"
    and "pend (drv_uring d) \<noteq> {} \<Longrightarrow> rank (drv_uring d') < rank (drv_uring d)"
proof -
  let ?u = "snd (u_submit_and_wait api 1 (drv_uring d))"
  obtain cqes u2 where cu: "u_completion api ?u = (cqes, u2)" by (cases "u_completion api ?u")
  have pu: "pend ?u = pend (drv_uring d)" using kc by (simp add: kernel_contract_def)
  have "deliver (u_more api) (fst (u_completion api ?u)) (pend ?u) = Some (pend (snd (u_completion api ?u)))"
    using kc unfolding kernel_contract_def by blast
  then have del: "deliver (u_more api) cqes (pend (drv_uring d)) = Some (pend u2)" using cu pu by simp
  have rk: "pend (drv_uring d) \<noteq> {} \<Longrightarrow> rank u2 < rank (drv_uring d)"
    using kc cu unfolding kernel_contract_def by (metis snd_conv)
  from dispatch_drop [of "pend (drv_uring d)" "d\<lparr>drv_uring := u2\<rparr>" api cqes "pend u2" ca] inv del
  obtain d' where "dispatch_cqes api ca cqes (d\<lparr>drv_uring := u2\<rparr>) = Inr d'"
    "drop_inv (pend u2) (drv_ops d')" "drv_uring d' = u2"
    "fmdom' (lifecycle (drv_ops d')) \<subseteq> fmdom' (lifecycle (drv_ops d))" by auto
  with rk that [of d'] cu show ?thesis by (simp add: dispatch_completions_def)
qed

text \<open>
  The loop looks at the keys in order, so every entry below \<open>i\<close> is gone; it ends because each
  round advances \<open>i\<close> towards the largest key or brings the ring closer to owing nothing.
\<close>

lemma drain_ops_empties:
  assumes kc: "kernel_contract api pend rank"
    and "drop_inv (pend (drv_uring d)) (drv_ops d)"
    and "fmdom' (lifecycle (drv_ops d)) \<subseteq> {i..<n}"
  shows "\<exists>d'. drain_ops api ca i d = Some (Inr d') \<and> lifecycle (drv_ops d') = fmempty"
  using assms(2,3)
proof (induction "(n - i, rank (drv_uring d))" arbitrary: i d
    rule: wf_induct_rule [OF wf_lex_prod [OF wf_less_than wf_less_than]])
  case less: 1
  let ?lcs = "lifecycle (drv_ops d)"
  show ?case
  proof (cases "?lcs = fmempty")
    case True
    then show ?thesis by (subst drain_ops.simps) (simp add: slab_is_empty_iff)
  next
    case ne: False
    then obtain j where "j \<in> fmdom' ?lcs" by (metis slab_is_empty_def slab_is_empty_iff ex_in_conv)
    with less.prems(2) have "i < n" by fastforce
    then have dec: "n - Suc i < n - i" by linarith
    have key: "drop_key (fmlookup ?lcs i) (i \<in> pend (drv_uring d))"
      using less.prems(1) by (simp add: drop_inv_def)
    consider (none) "fmlookup ?lcs i = None" | (comp) c where "fmlookup ?lcs i = Some (Completed c)"
      | (ign) x where "fmlookup ?lcs i = Some (Ignored x)" "i \<in> pend (drv_uring d)"
      using key by (cases "(fmlookup ?lcs i, i \<in> pend (drv_uring d))" rule: drop_key.cases) auto
    then show ?thesis
    proof cases
      case none
      have "fmdom' ?lcs \<subseteq> {Suc i..<n}"
        using less.prems(2) none by (auto simp: fmlookup_None_iff subset_iff le_eq_less_or_eq Suc_le_eq)
      then obtain d' where "drain_ops api ca (Suc i) d = Some (Inr d')" "lifecycle (drv_ops d') = fmempty"
        using less.hyps [of "Suc i" d] dec less.prems(1) by auto
      with none ne show ?thesis by (subst drain_ops.simps) (simp add: slab_is_empty_iff)
    next
      case comp
      let ?d = "d\<lparr>drv_ops := (drv_ops d)\<lparr>lifecycle := fmdrop i ?lcs\<rparr>\<rparr>"
      have "i \<notin> pend (drv_uring d)" using key comp by simp
      then have "drop_inv (pend (drv_uring ?d)) (drv_ops ?d)"
        using drop_inv_remove [OF less.prems(1), of i] by simp
      moreover have "fmdom' (lifecycle (drv_ops ?d)) \<subseteq> {Suc i..<n}"
        using less.prems(2) by (auto simp: subset_iff le_eq_less_or_eq Suc_le_eq)
      ultimately obtain d' where "drain_ops api ca (Suc i) ?d = Some (Inr d')" "lifecycle (drv_ops d') = fmempty"
        using less.hyps [of "Suc i" ?d] dec by auto
      with comp ne show ?thesis by (subst drain_ops.simps) (simp add: slab_is_empty_iff)
    next
      case ign
      from drop_round [OF kc less.prems(1), of ca] obtain d1 where d1:
        "dispatch_completions api ca (d\<lparr>drv_uring := snd (u_submit_and_wait api 1 (drv_uring d))\<rparr>) = Inr d1"
        "drop_inv (pend (drv_uring d1)) (drv_ops d1)" "fmdom' (lifecycle (drv_ops d1)) \<subseteq> fmdom' ?lcs"
        "pend (drv_uring d) \<noteq> {} \<Longrightarrow> rank (drv_uring d1) < rank (drv_uring d)" by metis
      then obtain d' where "drain_ops api ca i d1 = Some (Inr d')" "lifecycle (drv_ops d') = fmempty"
        using less.hyps [of i d1] less.prems(2) ign(2) by auto
      with ign ne d1(1) show ?thesis by (subst drain_ops.simps) (simp add: slab_is_empty_iff)
    qed
  qed
qed

section \<open>The whole drop\<close>

definition wait_ok :: "'u uring_api \<Rightarrow> bool" where
  "wait_ok api \<longleftrightarrow> (\<forall>n u. \<exists>m u'. u_submit_and_wait api n u = (Ok m, u'))"

lemma push_cancel_ok:
  assumes kc: "kernel_contract api pend rank" and wo: "wait_ok api" and s: "sqe_user_data s = usize_MAX"
  shows "\<exists>u'. push_cancel api s u = Some (Inr u') \<and> pend u' = pend u"
proof (cases "u_push api s u")
  case (Some u')
  with kc s have "pend u' = pend u" unfolding kernel_contract_def by blast
  with Some show ?thesis by (subst push_cancel.simps) simp
next
  case None
  obtain m u1 where w: "u_submit_and_wait api 1 u = (Ok m, u1)" using wo unfolding wait_ok_def by blast
  with kc obtain u2 where p: "u_push api s u1 = Some u2" unfolding kernel_contract_def by blast
  have "pend u1 = pend u" using kc w unfolding kernel_contract_def by (metis snd_conv)
  moreover have "pend u2 = pend u1" using kc s p unfolding kernel_contract_def by blast
  moreover have "push_cancel api s u1 = Some (Inr u2)" using p by (subst push_cancel.simps) simp
  ultimately show ?thesis using None w by (subst push_cancel.simps) simp
qed

lemma cancel_cycles_ok:
  assumes "kernel_contract api pend rank" and "wait_ok api"
  shows "\<exists>u. cancel_cycles api ks d = Some (Inr (d\<lparr>drv_uring := u\<rparr>)) \<and> pend u = pend (drv_uring d)"
proof (induction ks arbitrary: d)
  case Nil
  show ?case by (intro exI [of _ "drv_uring d"]) simp
next
  case (Cons k ks)
  show ?case
  proof (cases "\<exists>x. fmlookup (lifecycle (drv_ops d)) k = Some (Ignored x)")
    case True
    from push_cancel_ok [OF assms, of "cancel_sqe k"] obtain u1 where
      "push_cancel api (cancel_sqe k) (drv_uring d) = Some (Inr u1)" "pend u1 = pend (drv_uring d)"
      by (auto simp: cancel_sqe_def)
    with Cons [of "d\<lparr>drv_uring := u1\<rparr>"] True show ?thesis by auto
  next
    case False
    with Cons [of d] show ?thesis by (auto split: option.splits lifecycle.splits)
  qed
qed

lemma marked_drop_inv:
  assumes "\<And>k. marked is_more o1 o2 k"
    and "\<And>k. k \<in> P \<longleftrightarrow> (\<exists>a. abs_ops o1 k = Some a \<and> in_flight is_more a)"
  shows "drop_inv P o2"
  unfolding drop_inv_def
proof
  fix k
  show "drop_key (fmlookup (lifecycle o2) k) (k \<in> P)"
    using assms(1) [of k] assms(2) [of k] by (auto simp: marked_def split: option.splits if_splits)
qed

lemma mark_all_ok:
  assumes "ops_wf o1"
  obtains o2 where "mark_cycles is_more (slab_keys (lifecycle o1)) o1 = Inr o2"
    and "\<And>k. marked is_more o1 o2 k"
proof -
  from mark_cycles_ok [OF assms, of "slab_keys (lifecycle o1)" is_more] obtain o2 where
    o2: "mark_cycles is_more (slab_keys (lifecycle o1)) o1 = Inr o2"
      "\<And>k. k \<in> fmdom' (lifecycle o1) \<Longrightarrow> marked is_more o1 o2 k"
      "\<And>k. k \<notin> fmdom' (lifecycle o1) \<Longrightarrow> fmlookup (lifecycle o2) k = fmlookup (lifecycle o1) k"
    by auto
  have "marked is_more o1 o2 k" for k
    using o2(2,3) [of k] by (cases "k \<in> fmdom' (lifecycle o1)") (auto simp: marked_def abs_ops_def)
  with o2(1) that show ?thesis by blast
qed

lemma fmdom'_bound: "\<exists>n. fmdom' (m :: 'a slab) \<subseteq> {0..<n}"
proof -
  have "finite (fmdom' m)" by simp
  then obtain n where "\<forall>x \<in> fmdom' m. x < n" using finite_nat_set_iff_bounded by metis
  then show ?thesis by (intro exI [of _ n]) auto
qed

lemma driver_drop_returns:
  assumes kc: "kernel_contract api pend rank" and wo: "wait_ok api" and wf: "ops_wf (drv_ops d)"
    and fl: "u_sq_is_empty api (drv_uring d)"
    and owed: "\<And>k. k \<in> pend (drv_uring d) \<longleftrightarrow>
      (\<exists>a. abs_ops (drv_ops d) k = Some a \<and> in_flight (u_more api) a)"
  shows "\<exists>d'. driver_drop api ca d = Some (Inr d') \<and> lifecycle (drv_ops d') = fmempty"
proof -
  from mark_all_ok [OF wf] obtain o2 where o2:
    "mark_cycles (u_more api) (slab_keys (lifecycle (drv_ops d))) (drv_ops d) = Inr o2"
    "\<And>k. marked (u_more api) (drv_ops d) o2 k" by blast
  let ?d2 = "d\<lparr>drv_ops := o2\<rparr>"
  obtain u where u: "cancel_cycles api (slab_keys (lifecycle o2)) ?d2 = Some (Inr (?d2\<lparr>drv_uring := u\<rparr>))"
    "pend u = pend (drv_uring d)"
    using cancel_cycles_ok [OF kc wo, of "slab_keys (lifecycle o2)" ?d2] by auto
  obtain n where n: "fmdom' (lifecycle o2) \<subseteq> {0..<n}" using fmdom'_bound by blast
  have "drop_inv (pend u) o2" using marked_drop_inv [OF o2(2)] owed u(2) by simp
  then obtain d' where d': "drain_ops api ca 0 (?d2\<lparr>drv_uring := u\<rparr>) = Some (Inr d')"
    "lifecycle (drv_ops d') = fmempty"
    using drain_ops_empties [OF kc, of "?d2\<lparr>drv_uring := u\<rparr>" 0 n ca] n by auto
  have "flush_sq api ca d = Some (Inr d)" using fl by (subst flush_sq.simps) simp
  then show ?thesis using o2(1) u(1) d' by (simp add: driver_drop_def ops_drop_def slab_keys_def)
qed

end
