(* ===== verification/Driver_Properties.thy ===== *)
theory Driver_Properties
  imports Driver_Drop
begin

text \<open>
  The properties of the driver: what every reachable state guarantees, and what each operation
  does to the abstract operations. A property with hypotheses is followed by a run of it on
  concrete values: one multishot operation just submitted, and the same operation with two
  completions queued.
\<close>

section \<open>Concrete states\<close>

definition demo_more :: "u32 \<Rightarrow> bool" where
  "demo_more f \<longleftrightarrow> f AND 2 \<noteq> 0"

definition demo_up :: "(nat list, nat list) updateable" where
  "demo_up = \<lparr>co_complete = (\<lambda>d c. Inr (d @ [unat (cr_flags c)])), up_update = (\<lambda>d c. Inr (d @ [unat (cr_flags c)])),
     up_should_yield = (\<lambda>d. d = [6]), up_yield_result = (\<lambda>d. Inr (d, []))\<rparr>"

definition demo_ops :: "nat list ops" where
  "demo_ops = \<lparr>lifecycle = fmupd 0 Submitted fmempty, completions = fmempty\<rparr>"

definition demo_sys :: "(nat list, unit) sys" where
  "demo_sys = \<lparr>sy_ops = demo_ops, sy_live = [0 \<mapsto> (True, [])], sy_kernel = [0 \<mapsto> (True, ())]\<rparr>"

definition demo_cqe :: "u32 \<Rightarrow> cqe" where
  "demo_cqe f = \<lparr>cq_user_data = 0, cq_result = 5, cq_flags = f\<rparr>"

text \<open>Two completions queued: one with the more flag, then the final one.\<close>

definition demo_queue :: "nat list ops" where
  "demo_queue = \<lparr>lifecycle = fmupd 0 (CompletionList \<lparr>il_start = 0, il_end = 1\<rparr>) fmempty,
     completions = fmupd 0 \<lparr>le_entry = cqe_result_from (demo_cqe 6), le_next = 1\<rparr>
       (fmupd 1 \<lparr>le_entry = cqe_result_from (demo_cqe 0), le_next = usize_MAX\<rparr> fmempty)\<rparr>"

text \<open>A ring that owes the completion of operation 0 (\<open>True\<close>) or nothing (\<open>False\<close>).\<close>

definition demo_api :: "bool uring_api" where
  "demo_api = \<lparr>u_submit = (\<lambda>u. (Ok 0, u)), u_submit_and_wait = (\<lambda>n u. (Ok 0, u)), u_push = (\<lambda>s u. Some u),
     u_push_multiple = (\<lambda>ss u. if length ss \<le> 1 then Some u else None), u_sq_is_empty = (\<lambda>u. True), u_sq_sync = (\<lambda>u. u),
     u_completion = (\<lambda>u. (if u then [demo_cqe 0] else [], False)),
     u_register_buffers = (\<lambda>b u. (Ok (), u)), u_unregister_buffers = (\<lambda>u. (Ok (), u)),
     u_register_files = (\<lambda>f u. (Ok (), u)), u_unregister_files = (\<lambda>u. (Ok (), u)),
     u_more = demo_more, u_buffer_select = (\<lambda>f. None)\<rparr>"

definition demo_driver :: "(bool, nat list) driver" where
  "demo_driver = \<lparr>drv_ops = demo_ops, drv_uring = True, drv_woken = []\<rparr>"

lemma demo_alloc: "slab_alloc_ok (first_vacant 4)"
  by (rule first_vacant_ok) (simp add: usize_MAX_def)

lemma demo_stable: "mem_stable demo_up (\<lambda>d. ())"
  by (simp add: mem_stable_def)

lemma demo_reach: "sys_reach demo_more (first_vacant 4) (first_vacant 4) demo_up (\<lambda>d. ()) demo_sys"
proof -
  have "ops_insert (first_vacant 4) (sy_ops sys_init) = Inr (0, demo_ops)"
    by (simp add: sys_init_def ops_new_def ops_insert_def slab_insert_def first_vacant_def demo_ops_def
        upt_conv_Cons)
  from Step [OF Start Submit [OF this, of _ _ _ _ True "[]"]] show ?thesis
    by (simp add: sys_init_def demo_sys_def)
qed

lemma demo_walk: "walk (completions demo_queue) 0 = [0, 1]"
  by (rule walk_chain) (simp add: demo_queue_def usize_MAX_def)

lemma demo_owns: "owns demo_queue k = (if k = 0 then [0, 1] else [])"
  using demo_walk by (simp add: owns_def) (simp add: demo_queue_def)

lemma demo_queue_wf: "ops_wf demo_queue"
  unfolding ops_wf_def demo_owns
  by (auto simp: demo_queue_def list_rep_def end_of_def usize_MAX_def split: if_splits)

lemma demo_queue_abs: "abs_ops demo_queue 0 = Some (AQueue [cqe_result_from (demo_cqe 6), cqe_result_from (demo_cqe 0)])"
  by (simp add: abs_ops_def pending_def demo_owns) (simp add: demo_queue_def entries_at_def)

lemma demo_ops_wf: "ops_wf demo_ops"
  using sys_reach_inv [OF demo_reach demo_alloc demo_alloc demo_stable]
  by (simp add: sys_inv_def demo_sys_def)

lemma demo_ops_abs: "abs_ops demo_ops k = (if k = 0 then Some (AInFlight None) else None)"
  by (simp add: abs_ops_def demo_ops_def)

section \<open>Reachable states\<close>

text \<open>
  C1. In every reachable state, the memory of an operation the kernel has not finally completed is
  owned: its entry is in the slab, and the data that points to that memory is either in the live
  handle of the operation or, when the handle was dropped, kept in the slab entry itself.
\<close>

theorem kernel_memory_owned:
  assumes "sys_reach is_more la ca up mem s"
    and "slab_alloc_ok la" and "slab_alloc_ok ca" and "mem_stable up mem"
    and "sy_kernel s k = Some (b, m)"
  shows "\<exists>lc. fmlookup (lifecycle (sy_ops s)) k = Some lc
    \<and> ((\<exists>d. sy_live s k = Some (b, d) \<and> mem d = m) \<or> (\<exists>d. lc = Ignored (Some d) \<and> mem d = m))"
proof -
  from sys_inv_keyD [OF sys_reach_inv [OF assms(1-4)], of k] assms(5)
  have ok: "key_ok is_more mem (abs_ops (sy_ops s) k) (sy_live s k) (Some (b, m))" by simp
  then obtain a where a: "abs_ops (sy_ops s) k = Some a" by (blast dest: key_ok_present)
  then obtain lc where lc: "fmlookup (lifecycle (sy_ops s)) k = Some lc"
    "a = abs_lifecycle (pending (sy_ops s) k) lc" by (auto simp: abs_ops_def)
  show ?thesis using ok a lc by (cases "sy_live s k"; cases lc) auto
qed

theorem kernel_memory_owned_witness:
  "\<exists>lc. fmlookup (lifecycle (sy_ops demo_sys)) 0 = Some lc
    \<and> ((\<exists>d. sy_live demo_sys 0 = Some (True, d)) \<or> (\<exists>d. lc = Ignored (Some d)))"
  using kernel_memory_owned [OF demo_reach demo_alloc demo_alloc demo_stable, of 0 True "()"]
  by (simp add: demo_sys_def)

text \<open>
  C2. In every reachable state, a completion of an operation the kernel still owns is accepted:
  neither the slab index nor the \<^verbatim>\<open>unreachable!\<close> of \<^verbatim>\<open>Lifecycle::complete\<close> panics, as long as
  the completion slab can grow.
\<close>

theorem completion_accepted:
  assumes "sys_reach is_more la ca up mem s"
    and "slab_alloc_ok la" and "slab_alloc_ok ca" and "mem_stable up mem"
    and "sy_kernel s k \<noteq> None" and "ca (fmdom' (completions (sy_ops s))) \<noteq> None"
  shows "\<exists>o' ws. ops_complete is_more ca k c (sy_ops s) = Inr (o', ws)"
  using reach_complete_progress [OF sys_reach_inv [OF assms(1-4)] assms(5), of ca c] assms(6) by blast

theorem completion_accepted_witness:
  "\<exists>o' ws. ops_complete demo_more (first_vacant 4) 0 (demo_cqe 6) (sy_ops demo_sys) = Inr (o', ws)"
  by (rule completion_accepted [OF demo_reach demo_alloc demo_alloc demo_stable])
     (simp_all add: demo_sys_def demo_ops_def first_vacant_def upt_conv_Cons)

text \<open>
  C3. In every reachable state, polling a live multishot handle does not panic when the data's own
  methods do not: none of the \<^verbatim>\<open>unwrap\<close>, \<^verbatim>\<open>unreachable!\<close> and slab panics of
  \<^verbatim>\<open>poll_multishot_op\<close> is reached.
\<close>

theorem poll_multishot_no_panic:
  assumes "sys_reach is_more la ca up mem s"
    and "slab_alloc_ok la" and "slab_alloc_ok ca" and "mem_stable up mem"
    and "sy_live s k = Some (True, d)"
    and "\<And>d c. \<exists>out. co_complete up d c = Inr out" and "\<And>d c. \<exists>d'. up_update up d c = Inr d'"
    and "\<And>d. \<exists>x. up_yield_result up d = Inr x"
  shows "\<exists>r op' o' ws. poll_multishot_op up is_more w (handle k (Some d)) (sy_ops s) = Inr (r, op', o', ws)"
  using reach_poll_multi_progress [OF sys_reach_inv [OF assms(1-4)] assms(5-8)] by blast

theorem poll_multishot_no_panic_witness:
  "\<exists>r op' o' ws. poll_multishot_op demo_up demo_more 9 (handle 0 (Some [])) (sy_ops demo_sys) = Inr (r, op', o', ws)"
  by (rule poll_multishot_no_panic [OF demo_reach demo_alloc demo_alloc demo_stable])
     (simp_all add: demo_sys_def demo_up_def)

text \<open>
  C4. In every reachable state, a live single-completion handle can be polled and any live handle
  can be dropped without a panic of the driver.
\<close>

theorem poll_and_drop_no_panic:
  assumes "sys_reach is_more la ca up mem s"
    and "slab_alloc_ok la" and "slab_alloc_ok ca" and "mem_stable up mem"
    and "sy_live s k = Some (b, d)" and "\<And>d c. \<exists>out. co_complete up d c = Inr out"
  shows "(\<exists>op' o'. remove_op is_more (handle k (Some d)) (sy_ops s) = Inr (op', o'))
    \<and> (b \<or> (\<exists>r op' o'. poll_op up w (handle k (Some d)) (sy_ops s) = Inr (r, op', o')))"
  using reach_drop_progress [OF sys_reach_inv [OF assms(1-4)] assms(5)]
    reach_poll_single_progress [OF sys_reach_inv [OF assms(1-4)] _ assms(6), of k d w] assms(5)
  by (cases b) auto

theorem poll_and_drop_no_panic_witness:
  "\<exists>op' o'. remove_op demo_more (handle 0 (Some [])) (sy_ops demo_sys) = Inr (op', o')"
  using poll_and_drop_no_panic [OF demo_reach demo_alloc demo_alloc demo_stable, of 0 True "[]"]
  by (simp add: demo_sys_def demo_up_def)

text \<open>
  C5. Nothing leaks: in a reachable state with no live handle and no operation in the kernel, both
  slabs of the driver are empty.
\<close>

theorem quiescent_slabs_empty:
  assumes "sys_reach is_more la ca up mem s"
    and "slab_alloc_ok la" and "slab_alloc_ok ca" and "mem_stable up mem"
    and "sy_live s = Map.empty" and "sy_kernel s = Map.empty"
  shows "lifecycle (sy_ops s) = fmempty \<and> completions (sy_ops s) = fmempty"
proof -
  note inv = sys_reach_inv [OF assms(1-4)]
  have none: "fmlookup (lifecycle (sy_ops s)) k = None" for k
    using sys_inv_keyD [OF inv, of k] assms(5,6) by (simp add: abs_ops_def)
  then have "lifecycle (sy_ops s) = fmempty" by (intro fmap_ext) simp
  moreover have "fmdom' (completions (sy_ops s)) = {}"
    using ops_wfD(3) [OF sys_inv_wfD [OF inv]] none by (auto simp: owns_def)
  then have "completions (sy_ops s) = fmempty" by (intro fmap_ext) (simp add: fmlookup_None_iff)
  ultimately show ?thesis by simp
qed

theorem quiescent_slabs_empty_witness:
  "lifecycle (sy_ops (sys_init :: (nat list, unit) sys)) = fmempty"
  using quiescent_slabs_empty [OF Start demo_alloc demo_alloc demo_stable] by (simp add: sys_init_def)

section \<open>Shutting down\<close>

text \<open>
  C6. The drop of the driver frees memory the kernel still owns: for an operation whose handle was
  dropped while it was in flight, the slab entry holds the only owner of its memory, and the
  marking pass, which runs before any cancellation is submitted, replaces that entry by one that
  holds no data.
\<close>

theorem driver_drop_frees_inflight_memory:
  assumes "sys_reach is_more la ca up mem s"
    and "slab_alloc_ok la" and "slab_alloc_ok ca" and "mem_stable up mem"
    and "sy_kernel s k = Some (b, m)" and "sy_live s k = None"
  shows "\<exists>d o2. fmlookup (lifecycle (sy_ops s)) k = Some (Ignored (Some d)) \<and> mem d = m
    \<and> mark_cycles is_more (slab_keys (lifecycle (sy_ops s))) (sy_ops s) = Inr o2
    \<and> fmlookup (lifecycle o2) k = Some (Ignored None)"
proof -
  note inv = sys_reach_inv [OF assms(1-4)]
  from sys_inv_keyD [OF inv, of k] assms(5,6) obtain d where
    d: "abs_ops (sy_ops s) k = Some (AIgnored (Some d))" "mem d = m" by auto
  then obtain lc where lk: "fmlookup (lifecycle (sy_ops s)) k = Some lc"
    and "abs_lifecycle (pending (sy_ops s) k) lc = AIgnored (Some d)" by (auto simp: abs_ops_def)
  then have lc: "lc = Ignored (Some d)" by (cases lc) auto
  from mark_all_ok [OF sys_inv_wfD [OF inv]] obtain o2 where
    "mark_cycles is_more (slab_keys (lifecycle (sy_ops s))) (sy_ops s) = Inr o2"
    and m: "marked is_more (sy_ops s) o2 k" by blast
  moreover have "fmlookup (lifecycle o2) k = Some (Ignored None)"
    using m d(1) by (simp add: marked_def)
  ultimately show ?thesis using d(2) lk lc by blast
qed

lemma demo_dropped_reach:
  "sys_reach demo_more (first_vacant 4) (first_vacant 4) demo_up (\<lambda>d. ())
     (demo_sys\<lparr>sy_ops := put_lc 0 (Ignored (Some [])) demo_ops, sy_live := Map.empty\<rparr>)"
proof -
  have "remove_op demo_more (handle 0 (Some [])) (sy_ops demo_sys)
      = Inr (handle 0 None, put_lc 0 (Ignored (Some [])) demo_ops)"
    by (simp add: demo_sys_def demo_ops_def remove_op_def remove_lc_def take_data_def handle_def put_lc_def is_finished_def)
  from Step [OF demo_reach Drop_Live [OF _ this, of True]] show ?thesis by (simp add: demo_sys_def)
qed

theorem driver_drop_frees_inflight_memory_witness:
  "\<exists>o2. mark_cycles demo_more (slab_keys (lifecycle (put_lc 0 (Ignored (Some [])) demo_ops)))
      (put_lc 0 (Ignored (Some [])) demo_ops) = Inr o2 \<and> fmlookup (lifecycle o2) 0 = Some (Ignored None)"
  using driver_drop_frees_inflight_memory [OF demo_dropped_reach demo_alloc demo_alloc demo_stable, of 0 True "()"]
  by (auto simp: demo_sys_def)

section \<open>Operations against the abstract view\<close>

text \<open>
  C10. Polling a multishot operation refines its specification on lists: the queued completions
  are consumed in order; an early yield keeps the unconsumed rest queued and wakes the task; the
  final completion removes the entry and completes the data; with none left the task waits. The
  invariant of the slabs is kept and no other operation changes.
\<close>

theorem poll_multishot_refinement:
  assumes "ops_wf o1" and "abs_ops o1 (op_index op) = Some a" and "op_data op = Some data"
  shows "rel_sum (=) (poll_multishot_rel op o1)
    (poll_multishot_op up is_more w op o1) (abs_poll_multishot up is_more w data a)"
  by (rule poll_multishot_refines [OF assms])

theorem poll_multishot_refinement_witness:
  "rel_sum (=) (poll_multishot_rel (handle 0 (Some [])) demo_queue)
    (poll_multishot_op demo_up demo_more 9 (handle 0 (Some [])) demo_queue)
    (Inr (Ready [6], Some [], Some (AQueue [cqe_result_from (demo_cqe 0)]), [9]))"
  using poll_multishot_refinement [OF demo_queue_wf, of "handle 0 (Some [])" _ "[]" demo_up demo_more 9]
    demo_queue_abs
  by (simp add: demo_more_def demo_up_def demo_cqe_def)

text \<open>
  C11. A completion refines its specification on the abstract operation it is for: it wakes the
  waiting task, is kept or queued behind the earlier ones, or frees an ignored operation; no other
  operation changes and the invariant of the slabs is kept.
\<close>

theorem complete_refinement:
  assumes "ops_wf o1" and "slab_alloc_ok al" and "ops_complete is_more al k cqe o1 = Inr (o2, ws)"
  shows "ops_wf o2 \<and> (\<exists>a a'. abs_ops o1 k = Some a \<and> abs_complete is_more cqe a = Inr (a', ws)
    \<and> abs_ops o2 = (abs_ops o1)(k := a'))"
  by (rule ops_complete_refines_step [OF assms])

theorem complete_refinement_witness:
  "ops_wf (put_lifecycle 0 (Completed (demo_cqe 0)) fmempty demo_ops)"
proof -
  have "ops_complete demo_more (first_vacant 4) 0 (demo_cqe 0) demo_ops
      = Inr (put_lifecycle 0 (Completed (demo_cqe 0)) fmempty demo_ops, [])"
    by (simp add: demo_ops_def ops_complete_eq demo_more_def demo_cqe_def)
  from complete_refinement [OF demo_ops_wf demo_alloc this] show ?thesis by simp
qed

text \<open>
  C12. Dropping a handle refines its specification: while the kernel may still post completions
  the data moves from the handle into the slab entry; when it may not, the entry and every queued
  completion are freed; dropping twice would be the \<^verbatim>\<open>unreachable!\<close>.
\<close>

theorem remove_op_refinement:
  assumes "ops_wf o1" and "abs_ops o1 (op_index op) = Some a" and "op_data op = Some data"
  shows "case abs_remove is_more (Some data) a of
      Inl p \<Rightarrow> remove_op is_more op o1 = Inl p
    | Inr (kept, a') \<Rightarrow> \<exists>o2. remove_op is_more op o1 = Inr (op\<lparr>op_data := if kept then None else Some data\<rparr>, o2)
        \<and> ops_wf o2 \<and> abs_ops o2 = (abs_ops o1)(op_index op := a')"
  using remove_lc_refines [OF assms(1,2), of is_more "Some data"] assms(3)
  by (auto simp: remove_op_def is_finished_def take_data_def split: sum.splits)

theorem remove_op_refinement_witness:
  "\<exists>o2. remove_op demo_more (handle 0 (Some [])) demo_queue = Inr (handle 0 (Some []), o2)
     \<and> ops_wf o2 \<and> abs_ops o2 0 = None"
  using remove_op_refinement [OF demo_queue_wf, of "handle 0 (Some [])" _ "[]" demo_more] demo_queue_abs
  by (auto simp: demo_more_def demo_cqe_def handle_def)

text \<open>
  Dispatching a batch of completions acts as its completions one after the other, skips those
  of cancellations, and wakes the tasks in that order.
\<close>

theorem dispatch_refinement:
  assumes "slab_alloc_ok al" and "ops_wf (drv_ops d)" and "dispatch_completions api al d = Inr d'"
  shows "\<exists>ws. abs_dispatch (u_more api) (fst (u_completion api (drv_uring d))) (abs_ops (drv_ops d))
        = Inr (abs_ops (drv_ops d'), ws)
    \<and> drv_woken d' = drv_woken d @ ws \<and> ops_wf (drv_ops d')
    \<and> drv_uring d' = snd (u_completion api (drv_uring d))"
  using dispatch_cqes_refines [OF assms(1), of "d\<lparr>drv_uring := snd (u_completion api (drv_uring d))\<rparr>"]
    assms(2,3) by (fastforce simp: dispatch_completions_def split: prod.splits)

theorem dispatch_refinement_witness:
  "\<exists>d'. dispatch_completions demo_api (first_vacant 4) demo_driver = Inr d' \<and> ops_wf (drv_ops d')"
proof -
  obtain d' where d': "dispatch_completions demo_api (first_vacant 4) demo_driver = Inr d'"
    using demo_ops_wf
    by (auto simp: dispatch_completions_def demo_api_def demo_driver_def demo_ops_def ops_complete_eq
        demo_more_def demo_cqe_def usize_MAX_def)
  from dispatch_refinement [OF demo_alloc _ d'] d' show ?thesis by (auto simp: demo_driver_def demo_ops_wf)
qed

section \<open>Submission\<close>

text \<open>
  Submitting takes a vacant slab index that is not the user data of cancellations, tags the
  entry with it, and returns the handle of a new in-flight operation; no other operation changes.
\<close>

theorem submit_op_contract:
  assumes "slab_alloc_ok la" and "ops_wf (drv_ops d)"
    and "ops_insert la (drv_ops d) = Inr (k, o')" and "f data = Inr (s, data')"
    and "u_push api (s\<lparr>sqe_user_data := k\<rparr>) (drv_uring d) = Some u"
  shows "submit_op api la ca data f d = Some (Inr (Ok (op_new data' k), d\<lparr>drv_ops := o', drv_uring := u\<rparr>))
    \<and> abs_ops (drv_ops d) k = None \<and> k \<noteq> usize_MAX \<and> ops_wf o'
    \<and> abs_ops o' = (abs_ops (drv_ops d))(k \<mapsto> AInFlight None)"
  using submit_op_room(1) [where f = f, OF assms, of ca] ops_insert_ok [OF assms(2,1,3)] by auto

theorem submit_op_contract_witness:
  "\<exists>o'. submit_op demo_api (first_vacant 4) (first_vacant 4) [] (\<lambda>d. Inr (sqe_build OpNop, d)) demo_driver
     = Some (Inr (Ok (op_new [] 1), demo_driver\<lparr>drv_ops := o'\<rparr>)) \<and> ops_wf o'"
proof -
  obtain o' where o': "ops_insert (first_vacant 4) (drv_ops demo_driver) = Inr (1, o')"
    by (auto simp: ops_insert_def slab_insert_def first_vacant_def demo_driver_def demo_ops_def upt_conv_Cons)
  have "submit_op demo_api (first_vacant 4) (first_vacant 4) [] (\<lambda>d. Inr (sqe_build OpNop, d)) demo_driver
     = Some (Inr (Ok (op_new [] 1), demo_driver\<lparr>drv_ops := o', drv_uring := True\<rparr>)) \<and> ops_wf o'"
    using submit_op_contract [OF demo_alloc _ o', of "\<lambda>d. Inr (sqe_build OpNop, d)" "[]" "sqe_build OpNop" "[]"
        demo_api True "first_vacant 4"]
    by (simp add: demo_driver_def demo_ops_wf demo_api_def)
  then show ?thesis by (auto simp: demo_driver_def)
qed

text \<open>
  C14. Submitting returns: when \<^verbatim>\<open>EBUSY\<close> and \<^verbatim>\<open>EINTR\<close> end after finitely many rounds and a
  successful submission makes room in the queue, the loop of \<^verbatim>\<open>submit_op\<close> ends.
\<close>

theorem submit_op_returns:
  assumes "slab_alloc_ok la" and "slab_alloc_ok ca" and "ring_settles api rank"
    and "\<And>s. push_after_submit api (u_push api s)" and "ops_wf (drv_ops d)"
  shows "\<exists>y. submit_op api la ca data f d = Some y"
proof (cases "ops_insert la (drv_ops d)")
  case (Inr ko)
  obtain k o' where ko: "ko = (k, o')" by (cases ko)
  note wf = ops_insert_ok(1) [OF assms(5,1) Inr [unfolded ko]]
  show ?thesis
  proof (cases "f data")
    case (Inr sd)
    obtain s data' where sd: "sd = (s, data')" by (cases sd)
    have "\<exists>y. push_until api ca (u_push api (s\<lparr>sqe_user_data := k\<rparr>)) (d\<lparr>drv_ops := o'\<rparr>) = Some y"
      by (rule push_until_returns [OF assms(2,3,4)]) (simp add: wf)
    then show ?thesis using \<open>ops_insert la (drv_ops d) = Inr ko\<close> Inr ko sd
      by (auto simp: submit_op_def Let_def)
  qed (use Inr ko in \<open>simp add: submit_op_def\<close>)
qed (simp add: submit_op_def)

theorem submit_op_returns_witness:
  "\<exists>y. submit_op demo_api (first_vacant 4) (first_vacant 4) [] (\<lambda>d. Inr (sqe_build OpNop, d)) demo_driver = Some y"
  by (rule submit_op_returns [OF demo_alloc demo_alloc, of demo_api "\<lambda>u. 0"])
     (simp_all add: ring_settles_def push_after_submit_def demo_api_def demo_driver_def demo_ops_wf)

text \<open>
  C15. A batch of linked operations that does not fit the submission queue is never submitted:
  \<^verbatim>\<open>submit_ops\<close> never returns the indices, whatever the ring answers to \<^verbatim>\<open>submit\<close>.
\<close>

theorem submit_ops_oversized_never_ok:
  assumes "\<And>es u. length es = length sqes \<Longrightarrow> u_push_multiple api es u = None"
    and "slab_alloc_ok la" and "ops_wf (drv_ops d)"
  shows "submit_ops api la ca sqes d \<noteq> Some (Inr (ks, d'))"
proof (cases "insert_all la sqes (drv_ops d)")
  case (Inr r)
  obtain ix es o' where r: "r = (ix, es, o')" by (cases r)
  from insert_all_ok [OF assms(2,3) Inr [unfolded r]] have "length es = length sqes" by auto
  then have none: "u_push_multiple api es u = None" for u using assms(1) by blast
  have "push_until api ca (u_push_multiple api es) d0 = Some y \<Longrightarrow> y \<noteq> Inr (Ok x, d1)" for d0 y x d1
    by (rule push_until_never_ok [OF _ none])
  then show ?thesis using Inr r
    by (auto simp: submit_ops_def bind_eq_Some_conv bind_exec_eq_Inr split: result.splits)
qed (simp add: submit_ops_def)

theorem submit_ops_oversized_never_ok_witness:
  "\<forall>ks d'. submit_ops demo_api (first_vacant 4) (first_vacant 4) [sqe_build OpNop, sqe_build OpNop] demo_driver
     \<noteq> Some (Inr (ks, d'))"
  by (intro allI, rule submit_ops_oversized_never_ok [OF _ demo_alloc]) (simp_all add: demo_api_def demo_driver_def demo_ops_wf)

text \<open>
  A batch that fits is entered as a whole: the indices are distinct and were vacant, the
  entry in position \<open>i\<close> carries the index in position \<open>i\<close>, and exactly these operations are new.
\<close>

theorem submit_ops_contract:
  assumes "slab_alloc_ok la" and "ops_wf (drv_ops d)" and "insert_all la sqes (drv_ops d) = Inr (ks, es, o')"
    and "u_push_multiple api es (drv_uring d) = Some u"
  shows "submit_ops api la ca sqes d = Some (Inr (ks, d\<lparr>drv_ops := o', drv_uring := u\<rparr>))
    \<and> distinct ks \<and> es = map2 (\<lambda>s k. s\<lparr>sqe_user_data := k\<rparr>) sqes ks
    \<and> (\<forall>k \<in> set ks. abs_ops (drv_ops d) k = None \<and> k \<noteq> usize_MAX) \<and> ops_wf o'
    \<and> abs_ops o' = (\<lambda>k. if k \<in> set ks then Some (AInFlight None) else abs_ops (drv_ops d) k)"
proof -
  have "push_until api ca (u_push_multiple api es) (d\<lparr>drv_ops := o'\<rparr>)
      = Some (Inr (Ok (), d\<lparr>drv_ops := o', drv_uring := u\<rparr>))"
    using assms(4) by (subst push_until.simps) simp
  then have "submit_ops api la ca sqes d = Some (Inr (ks, d\<lparr>drv_ops := o', drv_uring := u\<rparr>))"
    using assms(3) by (simp add: submit_ops_def)
  with insert_all_ok [OF assms(1-3)] show ?thesis by auto
qed

theorem submit_ops_contract_witness:
  "\<exists>d'. submit_ops demo_api (first_vacant 4) (first_vacant 4) [sqe_build OpNop] demo_driver = Some (Inr ([1], d'))"
proof -
  obtain es o' where e: "insert_all (first_vacant 4) [sqe_build OpNop] (drv_ops demo_driver) = Inr ([1], es, o')"
    by (auto simp: ops_insert_def slab_insert_def first_vacant_def demo_driver_def demo_ops_def upt_conv_Cons)
  then have "u_push_multiple demo_api es (drv_uring demo_driver) = Some True"
    by (auto simp: demo_api_def demo_driver_def bind_exec_eq_Inr)
  from submit_ops_contract [OF demo_alloc _ e this, of "first_vacant 4"] show ?thesis
    by (auto simp: demo_driver_def demo_ops_wf)
qed

text \<open>
  C16. The completion lists are FIFO queues: entries pushed on an empty list of a shared slab are
  popped in the order they were pushed, and then the list is empty.
\<close>

theorem slab_list_fifo:
  assumes "slab_list_inv al q" and "contents q = []" and "enq_all (push al) xs q = Inr q'"
  shows "\<exists>q''. deq_n pop (length xs) q' = (map Some xs, q'') \<and> slab_list_is_empty q''
    \<and> pop q'' = (None, q'')"
  by (rule slab_fifo.enq_all_then_deq [OF assms])

theorem slab_list_fifo_witness:
  "\<exists>q' q''. enq_all (push (first_vacant 4)) [7, 8 :: nat] (into_list slab_list_indices_new fmempty) = Inr q'
     \<and> deq_n pop 2 q' = ([Some 7, Some 8], q'')"
proof -
  let ?q = "into_list slab_list_indices_new fmempty :: nat slab_list"
  have rep: "list_rep (sl_slab ?q) (sl_index ?q) []" by (simp add: into_list_def from_indices_def)
  then have inv: "slab_list_inv (first_vacant 4) ?q"
    by (auto simp: slab_list_inv_def demo_alloc slab_list_wf_iff) (simp add: into_list_def from_indices_def)
  obtain q' where q': "enq_all (push (first_vacant 4)) [7, 8] ?q = Inr q'"
    by (auto simp: push_def Let_def into_list_def from_indices_def slab_list_indices_new_def slab_insert_def
        slab_index_def first_vacant_def upt_conv_Cons usize_MAX_def)
  from slab_list_fifo [OF inv _ q'] q' contents_rep [OF rep] show ?thesis
    by (auto simp: numeral_2_eq_2)
qed

end
