(* ===== verification/Op_Handles.thy ===== *)
theory Op_Handles
  imports Driver_Drop
begin

text \<open>
  \<^verbatim>\<open>src/src/runtime/driver/handle.rs\<close>, \<^verbatim>\<open>src/src/runtime/context.rs\<close>, the futures and
  destructors of \<^verbatim>\<open>src/src/runtime/driver/op/mod.rs\<close>, \<^verbatim>\<open>op/link.rs\<close> and the entry points of
  \<^verbatim>\<open>src/src/runtime/mod.rs\<close>. The driver sits in an \<^verbatim>\<open>Rc<RefCell<Driver>>\<close>: the cell carries
  the borrow flag and the number of strong handles, so that a second \<^verbatim>\<open>borrow_mut\<close> panics and
  the last handle runs the driver's destructor.
\<close>

section \<open>The shared cell\<close>

record ('u, 'd) cell =
  cl_driver :: "('u, 'd) driver"
  cl_borrowed :: bool
  cl_strong :: nat

type_synonym ('u, 'd, 'a) on_driver = "('u, 'd) driver \<Rightarrow> ('a \<times> ('u, 'd) driver) exec option"
type_synonym ('u, 'd, 'a) on_cell = "('u, 'd) cell \<Rightarrow> ('a \<times> ('u, 'd) cell) exec option"

definition borrow_mut :: "('u, 'd, 'a) on_driver \<Rightarrow> ('u, 'd, 'a) on_cell" where
  "borrow_mut f c =
     (if cl_borrowed c then Some (Inl AlreadyBorrowed)
      else Option.bind (f (cl_driver c)) (\<lambda>r.
        Some (bind_exec r (\<lambda>(x, d'). Inr (x, c\<lparr>cl_driver := d'\<rparr>)))))"

definition on_ops :: "('d ops \<Rightarrow> ('a \<times> 'd ops) exec) \<Rightarrow> ('u, 'd, 'a) on_driver" where
  "on_ops f d = Some (bind_exec (f (drv_ops d)) (\<lambda>(x, o'). Inr (x, d\<lparr>drv_ops := o'\<rparr>)))"

definition on_uring :: "('u \<Rightarrow> 'a \<times> 'u) \<Rightarrow> ('u, 'd, 'a) on_driver" where
  "on_uring f d = (case f (drv_uring d) of (x, u) \<Rightarrow> Some (Inr (x, d\<lparr>drv_uring := u\<rparr>)))"

section \<open>Methods of the handle\<close>

definition handle_from :: "('u, 'd) driver \<Rightarrow> ('u, 'd) cell" where
  "handle_from d = \<lparr>cl_driver = d, cl_borrowed = False, cl_strong = 1\<rparr>"

definition handle_dispatch_completions :: "'u uring_api \<Rightarrow> slab_alloc \<Rightarrow> ('u, 'd, unit) on_cell" where
  "handle_dispatch_completions api ca =
     borrow_mut (\<lambda>d. Some (bind_exec (dispatch_completions api ca d) (\<lambda>d'. Inr ((), d'))))"

definition handle_flush :: "'u uring_api \<Rightarrow> ('u, 'd, (nat, io_error) result) on_cell" where
  "handle_flush api = borrow_mut (on_uring (u_submit api))"

definition driver_register_buffers ::
  "'u uring_api \<Rightarrow> iovec list \<Rightarrow> ('u, 'd, (unit, io_error) result) on_driver" where
  [simp]: "driver_register_buffers api bufs = on_uring (u_register_buffers api bufs)"

definition driver_unregister_buffers :: "'u uring_api \<Rightarrow> ('u, 'd, (unit, io_error) result) on_driver" where
  [simp]: "driver_unregister_buffers api = on_uring (u_unregister_buffers api)"

definition driver_register_files ::
  "'u uring_api \<Rightarrow> raw_fd list \<Rightarrow> ('u, 'd, (unit, io_error) result) on_driver" where
  [simp]: "driver_register_files api fds = on_uring (u_register_files api fds)"

definition driver_unregister_files :: "'u uring_api \<Rightarrow> ('u, 'd, (unit, io_error) result) on_driver" where
  [simp]: "driver_unregister_files api = on_uring (u_unregister_files api)"

definition handle_register_buffers ::
  "'u uring_api \<Rightarrow> iovec list \<Rightarrow> ('u, 'd, (unit, io_error) result) on_cell" where
  "handle_register_buffers api bufs = borrow_mut (driver_register_buffers api bufs)"

definition handle_unregister_buffers :: "'u uring_api \<Rightarrow> ('u, 'd, (unit, io_error) result) on_cell" where
  "handle_unregister_buffers api = borrow_mut (driver_unregister_buffers api)"

definition handle_register_files ::
  "'u uring_api \<Rightarrow> raw_fd list \<Rightarrow> ('u, 'd, (unit, io_error) result) on_cell" where
  "handle_register_files api fds = borrow_mut (driver_register_files api fds)"

definition handle_unregister_files :: "'u uring_api \<Rightarrow> ('u, 'd, (unit, io_error) result) on_cell" where
  "handle_unregister_files api = borrow_mut (driver_unregister_files api)"

definition handle_submit_op_2 ::
  "'u uring_api \<Rightarrow> slab_alloc \<Rightarrow> slab_alloc \<Rightarrow> sqe \<Rightarrow> ('u, 'd, nat) on_cell" where
  "handle_submit_op_2 api la ca s = borrow_mut (submit_op_2 api la ca s)"

definition handle_submit_ops ::
  "'u uring_api \<Rightarrow> slab_alloc \<Rightarrow> slab_alloc \<Rightarrow> sqe list \<Rightarrow> ('u, 'd, nat list) on_cell" where
  "handle_submit_ops api la ca ss = borrow_mut (submit_ops api la ca ss)"

definition handle_poll_op ::
  "('d, 'o, 'm) completable_scheme \<Rightarrow> waker \<Rightarrow> 'd op \<Rightarrow> ('u, 'd, 'o poll \<times> 'd op) on_cell" where
  "handle_poll_op co w op =
     borrow_mut (on_ops (\<lambda>o1. bind_exec (poll_op co w op o1) (\<lambda>(r, op', o'). Inr ((r, op'), o'))))"

definition handle_poll_op_2 :: "waker \<Rightarrow> nat \<Rightarrow> ('u, 'd, cqe poll) on_cell" where
  "handle_poll_op_2 w index = borrow_mut (on_ops (poll_op_2 w index))"

definition handle_poll_multishot_op ::
  "('d, 'o, 'm) updateable_scheme \<Rightarrow> (u32 \<Rightarrow> bool) \<Rightarrow> waker \<Rightarrow> 'd op \<Rightarrow> ('u, 'd, 'o poll \<times> 'd op) on_cell" where
  "handle_poll_multishot_op up is_more w op =
     borrow_mut (\<lambda>d. Some (bind_exec (poll_multishot_op up is_more w op (drv_ops d)) (\<lambda>(r, op', o', ws).
       Inr ((r, op'), d\<lparr>drv_ops := o', drv_woken := drv_woken d @ ws\<rparr>))))"

definition handle_cancel_op :: "'u uring_api \<Rightarrow> slab_alloc \<Rightarrow> nat \<Rightarrow> ('u, 'd, (unit, io_error) result) on_cell" where
  "handle_cancel_op api ca index = borrow_mut (cancel_op api ca index)"

definition handle_remove_op :: "(u32 \<Rightarrow> bool) \<Rightarrow> 'd op \<Rightarrow> ('u, 'd, 'd op) on_cell" where
  "handle_remove_op is_more op = borrow_mut (on_ops (remove_op is_more op))"

definition handle_remove_op_2 :: "(u32 \<Rightarrow> bool) \<Rightarrow> nat \<Rightarrow> 'd \<Rightarrow> ('u, 'd, unit) on_cell" where
  "handle_remove_op_2 is_more index data =
     borrow_mut (on_ops (\<lambda>o1. bind_exec (remove_op_2 is_more index data o1) (\<lambda>o'. Inr ((), o'))))"

text \<open>Upgrading a weak handle fails once the last strong one is gone.\<close>

definition upgrade :: "('u, 'd) cell \<Rightarrow> bool" where
  "upgrade c \<longleftrightarrow> cl_strong c \<noteq> 0"

text \<open>Dropping a strong handle; the last one drops the driver.\<close>

definition handle_drop :: "'u uring_api \<Rightarrow> slab_alloc \<Rightarrow> ('u, 'd, unit) on_cell" where
  "handle_drop api ca c =
     (if cl_strong c = 1 then
        Option.bind (driver_drop api ca (cl_driver c)) (\<lambda>r.
          Some (bind_exec r (\<lambda>d'. Inr ((), c\<lparr>cl_driver := d', cl_strong := 0\<rparr>))))
      else Some (Inr ((), c\<lparr>cl_strong := cl_strong c - 1\<rparr>)))"

section \<open>The futures and destructors of operations\<close>

definition op_drop :: "(u32 \<Rightarrow> bool) \<Rightarrow> 'd op \<Rightarrow> ('u, 'd, 'd op) on_cell" where
  "op_drop is_more op c =
     (if upgrade c then handle_remove_op is_more op c else Some (Inl (Expect ''Not in runtime context'')))"

definition op_poll :: "('d, 'o, 'm) completable_scheme \<Rightarrow> waker \<Rightarrow> 'd op \<Rightarrow> ('u, 'd, 'o poll \<times> 'd op) on_cell" where
  "op_poll co w op c =
     (if upgrade c then handle_poll_op co w op c else Some (Inl (Expect ''Not in runtime context'')))"

definition op_multi_poll ::
  "('d, 'o, 'm) updateable_scheme \<Rightarrow> (u32 \<Rightarrow> bool) \<Rightarrow> waker \<Rightarrow> 'd op \<Rightarrow> ('u, 'd, 'o poll \<times> 'd op) on_cell" where
  "op_multi_poll up is_more w op c =
     (if upgrade c then handle_poll_multishot_op up is_more w op c
      else Some (Inl (Expect ''Not in runtime context'')))"

definition op_cancel :: "'u uring_api \<Rightarrow> slab_alloc \<Rightarrow> 'd op \<Rightarrow> ('u, 'd, (unit, io_error) result) on_cell" where
  "op_cancel api ca op c =
     (if is_finished op then Some (Inr (Ok (), c))
      else if upgrade c then handle_cancel_op api ca (op_index op) c
      else Some (Inl (Expect ''Not in runtime context'')))"

text \<open>
  \<^verbatim>\<open>Handle::submit_op\<close>: the driver is borrowed for the whole call. When \<^verbatim>\<open>submit\<close> fails, the
  early return of the driver's method drops the new handle while the borrow is still held.
\<close>

definition handle_submit_op ::
  "'u uring_api \<Rightarrow> slab_alloc \<Rightarrow> slab_alloc \<Rightarrow> 'd \<Rightarrow> ('d \<Rightarrow> (sqe \<times> 'd) exec)
   \<Rightarrow> ('u, 'd, ('d op, io_error) result) on_cell" where
  "handle_submit_op api la ca data f c =
     (if cl_borrowed c then Some (Inl AlreadyBorrowed)
      else Option.bind (submit_op api la ca data f (cl_driver c)) (\<lambda>r.
        case r of
          Inl p \<Rightarrow> Some (Inl p)
        | Inr (Ok op, d') \<Rightarrow> Some (Inr (Ok op, c\<lparr>cl_driver := d'\<rparr>))
        | Inr (Err (e, op), d') \<Rightarrow>
            Option.bind (op_drop (u_more api) op (c\<lparr>cl_driver := d', cl_borrowed := True\<rparr>)) (\<lambda>r'.
              Some (bind_exec r' (\<lambda>(op', c'). Inr (Err e, c'\<lparr>cl_borrowed := False\<rparr>))))))"

section \<open>The thread-local context\<close>

text \<open>\<^verbatim>\<open>RuntimeContext\<close>: whether it holds a handle.\<close>

type_synonym ctx = bool

definition ctx_new :: ctx where "ctx_new = False"

definition set_handle :: "ctx \<Rightarrow> ctx exec" where
  "set_handle cx = (if cx then Inl (Explicit ''Attempted to initialize the driver twice'') else Inr True)"

definition unset_driver :: "ctx \<Rightarrow> ctx exec" where
  "unset_driver cx = (if cx then Inr False else Inl (Explicit ''Attempted to clear nonexistent driver''))"

definition is_set :: "ctx \<Rightarrow> bool" where "is_set cx = cx"

text \<open>
  \<^verbatim>\<open>Runtime::block_on\<close>: the handle is put into the context (a strong clone), the future runs,
  the guard clears the context on every exit, a panic of the future included.
\<close>

definition block_on ::
  "(ctx \<times> ('u, 'd) cell \<Rightarrow> 'a exec \<times> ('u, 'd) cell) \<Rightarrow> ctx \<times> ('u, 'd) cell
   \<Rightarrow> ('a exec \<times> ctx \<times> ('u, 'd) cell)" where
  "block_on fut s =
     (case s of (cx, c) \<Rightarrow>
        (case set_handle cx of
           Inl p \<Rightarrow> (Inl p, cx, c)
         | Inr cx1 \<Rightarrow>
             (case fut (cx1, c\<lparr>cl_strong := cl_strong c + 1\<rparr>) of (r, c1) \<Rightarrow>
                (case unset_driver cx1 of
                   Inl p \<Rightarrow> (Inl p, cx1, c1)
                 | Inr cx2 \<Rightarrow> (r, cx2, c1\<lparr>cl_strong := cl_strong c1 - 1\<rparr>)))))"

section \<open>Oneshot operations\<close>

record ('d, 'p) unsubmitted =
  us_stable_data :: 'd
  us_post_op :: 'p
  us_sqe :: sqe

definition unsubmitted_new :: "'d \<Rightarrow> 'p \<Rightarrow> sqe \<Rightarrow> ('d, 'p) unsubmitted" where
  "unsubmitted_new d p s = \<lparr>us_stable_data = d, us_post_op = p, us_sqe = s\<rparr>"

text \<open>\<^verbatim>\<open>squeue::Entry::flags\<close> adds to the flags of the entry.\<close>

definition set_flags :: "sqe_flag \<Rightarrow> ('d, 'p) unsubmitted \<Rightarrow> ('d, 'p) unsubmitted" where
  "set_flags fl u = u\<lparr>us_sqe := (us_sqe u)\<lparr>sqe_flags := sqe_flags (us_sqe u) @ [fl]\<rparr>\<rparr>"

record ('d, 'p) inflight_inner =
  if_index :: nat
  if_stable_data :: 'd
  if_post_op :: 'p

type_synonym ('d, 'p) inflight = "('d, 'p) inflight_inner option"

definition mk_inflight :: "nat \<Rightarrow> ('d, 'p) unsubmitted \<Rightarrow> ('d, 'p) inflight" where
  "mk_inflight index u =
     Some \<lparr>if_index = index, if_stable_data = us_stable_data u, if_post_op = us_post_op u\<rparr>"

definition inflight_of :: "ctx \<Rightarrow> nat \<Rightarrow> ('d, 'p) unsubmitted \<Rightarrow> ('d, 'p) inflight exec" where
  "inflight_of cx index u =
     (if cx then Inr (mk_inflight index u) else Inl (Expect ''Could not submit op; not in runtime context''))"

definition oneshot_submit ::
  "'u uring_api \<Rightarrow> slab_alloc \<Rightarrow> slab_alloc \<Rightarrow> ctx \<Rightarrow> ('d, 'p) unsubmitted
   \<Rightarrow> ('u, 'd, ('d, 'p) inflight) on_cell" where
  "oneshot_submit api la ca cx u c =
     (if cx then
        Option.bind (handle_submit_op_2 api la ca (us_sqe u) c) (\<lambda>r.
          Some (bind_exec r (\<lambda>(index, c'). Inr (mk_inflight index u, c'))))
      else Some (Inl (Expect ''Could not submit op; not in runtime context'')))"

text \<open>\<open>transform\<close> is \<^verbatim>\<open>OneshotOutputTransform::transform_oneshot_output\<close>.\<close>

definition oneshot_poll ::
  "('p \<Rightarrow> 'd \<Rightarrow> cqe \<Rightarrow> 'o exec) \<Rightarrow> waker \<Rightarrow> ('d, 'p) inflight
   \<Rightarrow> ('u, 'd, 'o poll \<times> ('d, 'p) inflight) on_cell" where
  "oneshot_poll transform w this c =
     (case this of
        None \<Rightarrow> Some (Inl (Expect ''Cannot poll already-completed operation''))
      | Some inner \<Rightarrow>
          if upgrade c then
            Option.bind (handle_poll_op_2 w (if_index inner) c) (\<lambda>r.
              Some (bind_exec r (\<lambda>(p, c').
                case p of
                  Pending \<Rightarrow> Inr ((Pending, this), c')
                | Ready cqe \<Rightarrow>
                    bind_exec (transform (if_post_op inner) (if_stable_data inner) cqe) (\<lambda>out.
                      Inr ((Ready out, None), c')))))
          else Some (Inl (Expect ''Failed to poll op: driver no longer exists'')))"

definition oneshot_drop :: "(u32 \<Rightarrow> bool) \<Rightarrow> ('d, 'p) inflight \<Rightarrow> ('u, 'd, unit) on_cell" where
  "oneshot_drop is_more this c =
     (case this of
        None \<Rightarrow> Some (Inr ((), c))
      | Some inner \<Rightarrow>
          if upgrade c then handle_remove_op_2 is_more (if_index inner) (if_stable_data inner) c
          else Some (Inr ((), c)))"

section \<open>Linked operations\<close>

record ('a, 'b) link =
  lk_data :: 'a
  lk_next :: 'b

definition link_new :: "'a \<Rightarrow> 'b \<Rightarrow> ('a, 'b) link" where
  "link_new d n = \<lparr>lk_data = d, lk_next = n\<rparr>"

definition oneshot_link ::
  "('d, 'p) unsubmitted \<Rightarrow> ('e, 'q) unsubmitted \<Rightarrow> (('d, 'p) unsubmitted, ('e, 'q) unsubmitted) link" where
  "oneshot_link a b = link_new (set_flags IO_LINK a) b"

definition oneshot_hard_link ::
  "('d, 'p) unsubmitted \<Rightarrow> ('e, 'q) unsubmitted \<Rightarrow> (('d, 'p) unsubmitted, ('e, 'q) unsubmitted) link" where
  "oneshot_hard_link a b = link_new (set_flags IO_HARDLINK a) b"

text \<open>Linking a link with one more operation.\<close>

definition link_link ::
  "(('d, 'p) unsubmitted, 'n) link \<Rightarrow> 'b \<Rightarrow> (('d, 'p) unsubmitted, ('n, 'b) link) link" where
  "link_link l other =
     \<lparr>lk_data = set_flags IO_LINK (lk_data l), lk_next = \<lparr>lk_data = lk_next l, lk_next = other\<rparr>\<rparr>"

definition link_hard_link ::
  "(('d, 'p) unsubmitted, 'n) link \<Rightarrow> 'b \<Rightarrow> (('d, 'p) unsubmitted, ('n, 'b) link) link" where
  "link_hard_link l other =
     \<lparr>lk_data = set_flags IO_HARDLINK (lk_data l), lk_next = \<lparr>lk_data = lk_next l, lk_next = other\<rparr>\<rparr>"

text \<open>\<^verbatim>\<open>Submit for Link\<close>: the data first, then the rest; the state is threaded through.\<close>

definition link_submit ::
  "('a \<Rightarrow> 's \<Rightarrow> ('x \<times> 's) exec option) \<Rightarrow> ('b \<Rightarrow> 's \<Rightarrow> ('y \<times> 's) exec option) \<Rightarrow> ('a, 'b) link
   \<Rightarrow> 's \<Rightarrow> (('x, 'y option) link \<times> 's) exec option" where
  "link_submit sub_d sub_n l s =
     Option.bind (sub_d (lk_data l) s) (\<lambda>r.
       case r of
         Inl p \<Rightarrow> Some (Inl p)
       | Inr (x, s') \<Rightarrow>
           Option.bind (sub_n (lk_next l) s') (\<lambda>r'.
             Some (bind_exec r' (\<lambda>(y, s''). Inr (\<lparr>lk_data = x, lk_next = Some y\<rparr>, s'')))))"

text \<open>\<^verbatim>\<open>Future for LinkedInFlightOneshot\<close>: the output of the head and the rest of the chain.\<close>

definition linked_poll ::
  "('x \<Rightarrow> 's \<Rightarrow> (('o poll \<times> 'x) \<times> 's) exec option) \<Rightarrow> ('x, 'y option) link \<Rightarrow> 's
   \<Rightarrow> ((('o \<times> 'y) poll \<times> ('x, 'y option) link) \<times> 's) exec option" where
  "linked_poll poll_d l s =
     Option.bind (poll_d (lk_data l) s) (\<lambda>r.
       Some (bind_exec r (\<lambda>((p, x), s').
         case p of
           Pending \<Rightarrow> Inr ((Pending, l\<lparr>lk_data := x\<rparr>), s')
         | Ready out \<Rightarrow>
             (case lk_next l of
                None \<Rightarrow> Inl UnwrapNone
              | Some next \<Rightarrow> Inr ((Ready (out, next), l\<lparr>lk_data := x, lk_next := None\<rparr>), s')))))"

end
