(* ===== verification/Handle_Properties.thy ===== *)
theory Handle_Properties
  imports Op_Handles Driver_Properties
begin

text \<open>
  Properties of the handles, the oneshot operations, linked operations and the runtime context.
\<close>

section \<open>Concrete cells\<close>

definition demo_cell :: "(bool, nat list) cell" where
  "demo_cell = \<lparr>cl_driver = demo_driver, cl_borrowed = False, cl_strong = 1\<rparr>"

text \<open>A ring whose queue is full and whose \<^verbatim>\<open>submit\<close> fails with an error that is not retried.\<close>

definition full_api :: "bool uring_api" where
  "full_api = demo_api\<lparr>u_push := (\<lambda>s u. None), u_submit := (\<lambda>u. (Err (OsError 9), u))\<rparr>"

section \<open>Submitting through a handle\<close>

text \<open>
  C20. When the driver's \<^verbatim>\<open>submit_op\<close> fails to submit, the error does not reach the caller: the new
  operation handle is dropped while the driver is borrowed, and its destructor's own
  \<^verbatim>\<open>borrow_mut\<close> panics.
\<close>

theorem submit_error_is_a_panic:
  assumes "\<not> cl_borrowed c" and "cl_strong c \<noteq> 0"
    and "submit_op api la ca data f (cl_driver c) = Some (Inr (Err (e, op), d'))"
  shows "handle_submit_op api la ca data f c = Some (Inl AlreadyBorrowed)"
  using assms by (simp add: handle_submit_op_def op_drop_def upgrade_def handle_remove_op_def borrow_mut_def)

theorem submit_error_is_a_panic_witness:
  "handle_submit_op full_api (first_vacant 4) (first_vacant 4) [] (\<lambda>d. Inr (sqe_build OpNop, d)) demo_cell
     = Some (Inl AlreadyBorrowed)"
proof -
  have sub: "driver_submit full_api (first_vacant 4) d = Some (Inr (Err (OsError 9), d\<lparr>drv_uring := drv_uring d\<rparr>))"
    for d :: "(bool, nat list) driver"
    by (subst driver_submit.simps) (simp add: full_api_def EBUSY_def EINTR_def)
  have push: "push_until full_api (first_vacant 4) (u_push full_api s) d
      = Some (Inr (Err (OsError 9), d\<lparr>drv_uring := drv_uring d\<rparr>))" for s and d :: "(bool, nat list) driver"
  proof -
    have "u_push full_api s (drv_uring d) = None" by (simp add: full_api_def)
    then show ?thesis by (subst push_until.simps) (simp add: sub)
  qed
  obtain o' where "ops_insert (first_vacant 4) demo_ops = Inr (1, o')"
    by (auto simp: ops_insert_def slab_insert_def first_vacant_def demo_ops_def upt_conv_Cons)
  then obtain op d' where "submit_op full_api (first_vacant 4) (first_vacant 4) [] (\<lambda>d. Inr (sqe_build OpNop, d))
      (cl_driver demo_cell) = Some (Inr (Err (OsError 9, op), d'))"
    by (auto simp: submit_op_def demo_cell_def demo_driver_def push Let_def)
  from submit_error_is_a_panic [OF _ _ this] show ?thesis by (simp add: demo_cell_def)
qed

lemma insert_complete_poll:
  assumes "slab_alloc_ok la" and "ops_wf o0" and "ops_insert la o0 = Inr (k, o1)" and "\<not> is_more (cq_flags cqe)"
  obtains o2 o3 where "ops_complete is_more ca k cqe o1 = Inr (o2, [])"
    "poll_op_2 w k o2 = Inr (Ready cqe, o3)" "abs_ops o3 = abs_ops o0"
proof -
  note ins = ops_insert_ok [OF assms(2,1,3)]
  have lk: "fmlookup (lifecycle o1) k = Some Submitted"
    using assms(3) by (auto simp: ops_insert_def bind_exec_eq_Inr slab_insert_Inr)
  let ?o2 = "put_lifecycle k (Completed cqe) (completions o1) o1"
  have comp: "ops_complete is_more ca k cqe o1 = Inr (?o2, [])"
    using lk assms(4) by (simp add: ops_complete_eq)
  have own: "owns o1 k = []" using lk by (simp add: owns_def)
  have wf2: "ops_wf ?o2" and ab2: "abs_ops ?o2 = (abs_ops o1)(k \<mapsto> ACompleted cqe)"
    using ops_complete_final [OF ins(1) own, of "Completed cqe"] by auto
  then obtain o3 where o3: "poll_op_2 w k ?o2 = Inr (Ready cqe, o3)" "abs_ops o3 = (abs_ops ?o2)(k := None)"
    using poll_op_2_refines [OF wf2, of k "ACompleted cqe" w] by auto
  have "abs_ops o3 = abs_ops o0" using o3(2) ab2 ins(2,3) by (auto simp: fun_eq_iff)
  with comp o3(1) that show ?thesis by blast
qed

lemma oneshot_submit_room:
  assumes "\<not> cl_borrowed c" and "ops_insert la (drv_ops (cl_driver c)) = Inr (k, o1)"
    and "u_push api ((us_sqe u)\<lparr>sqe_user_data := k\<rparr>) (drv_uring (cl_driver c)) = Some ring"
  shows "oneshot_submit api la ca True u c =
    Some (Inr (mk_inflight k u, c\<lparr>cl_driver := (cl_driver c)\<lparr>drv_ops := o1, drv_uring := ring\<rparr>\<rparr>))"
proof -
  have "push_until api ca (u_push api ((us_sqe u)\<lparr>sqe_user_data := k\<rparr>)) ((cl_driver c)\<lparr>drv_ops := o1\<rparr>)
      = Some (Inr (Ok (), (cl_driver c)\<lparr>drv_ops := o1, drv_uring := ring\<rparr>))"
    using assms(3) by (subst push_until.simps) simp
  then show ?thesis
    using assms(1,2) by (simp add: oneshot_submit_def handle_submit_op_2_def borrow_mut_def submit_op_2_def)
qed

text \<open>
  A oneshot operation from submission to result: it takes a vacant index; once its completion
  is dispatched, polling it applies the transformation to the very data it was submitted with and
  that completion, frees the index, and leaves every other operation as it was.
\<close>

theorem oneshot_roundtrip:
  assumes "slab_alloc_ok la" and "ops_wf (drv_ops (cl_driver c))" and "\<not> cl_borrowed c" and "cl_strong c \<noteq> 0"
    and "ops_insert la (drv_ops (cl_driver c)) = Inr (k, o1)"
    and "u_push api ((us_sqe u)\<lparr>sqe_user_data := k\<rparr>) (drv_uring (cl_driver c)) = Some ring"
    and "\<not> is_more (cq_flags cqe)" and "transform (us_post_op u) (us_stable_data u) cqe = Inr out"
  shows "\<exists>this c1 o2 c3. oneshot_submit api la ca True u c = Some (Inr (this, c1))
    \<and> ops_complete is_more ca k cqe (drv_ops (cl_driver c1)) = Inr (o2, [])
    \<and> oneshot_poll transform w this (c1\<lparr>cl_driver := (cl_driver c1)\<lparr>drv_ops := o2\<rparr>\<rparr>)
        = Some (Inr ((Ready out, None), c3))
    \<and> abs_ops (drv_ops (cl_driver c3)) = abs_ops (drv_ops (cl_driver c))"
proof -
  let ?d = "cl_driver c"
  let ?c1 = "c\<lparr>cl_driver := ?d\<lparr>drv_ops := o1, drv_uring := ring\<rparr>\<rparr>"
  have sub: "oneshot_submit api la ca True u c = Some (Inr (mk_inflight k u, ?c1))"
    by (rule oneshot_submit_room [OF assms(3,5,6)])
  obtain o2 o3 where o: "ops_complete is_more ca k cqe o1 = Inr (o2, [])" "poll_op_2 w k o2 = Inr (Ready cqe, o3)"
      "abs_ops o3 = abs_ops (drv_ops ?d)"
    by (rule insert_complete_poll [where is_more = is_more and cqe = cqe, OF assms(1,2,5,7)])
  have "oneshot_poll transform w (mk_inflight k u) (?c1\<lparr>cl_driver := (cl_driver ?c1)\<lparr>drv_ops := o2\<rparr>\<rparr>)
      = Some (Inr ((Ready out, None), ?c1\<lparr>cl_driver := (cl_driver ?c1)\<lparr>drv_ops := o3\<rparr>\<rparr>))"
    using o(2) assms(3,4,8)
    by (simp add: oneshot_poll_def mk_inflight_def upgrade_def handle_poll_op_2_def borrow_mut_def on_ops_def)
  then show ?thesis using sub o(1,3) by force
qed

theorem oneshot_roundtrip_witness:
  "\<exists>this c1. oneshot_submit demo_api (first_vacant 4) (first_vacant 4) True (unsubmitted_new [3] () (sqe_build OpNop)) demo_cell
     = Some (Inr (this, c1))"
proof -
  obtain o1 where o1: "ops_insert (first_vacant 4) (drv_ops (cl_driver demo_cell)) = Inr (1, o1)"
    by (auto simp: ops_insert_def slab_insert_def first_vacant_def demo_cell_def demo_driver_def demo_ops_def upt_conv_Cons)
  show ?thesis
    using oneshot_roundtrip [OF demo_alloc _ _ _ o1, of demo_api "unsubmitted_new [3] () (sqe_build OpNop)" True
        demo_more "demo_cqe 0" "\<lambda>p d c. Inr d" "[3]" "first_vacant 4" 5]
    by (auto simp: demo_cell_def demo_driver_def demo_ops_wf demo_api_def demo_more_def demo_cqe_def unsubmitted_new_def)
qed

text \<open>
  Once the last strong handle is gone, dropping an \<^verbatim>\<open>Op\<close> panics, although the driver's
  \<^verbatim>\<open>remove_op\<close> has a branch for it, while dropping a oneshot operation does nothing.
\<close>

lemma drop_after_driver:
  assumes "cl_strong c = 0"
  shows "op_drop is_more op c = Some (Inl (Expect ''Not in runtime context''))
    \<and> oneshot_drop is_more this c = Some (Inr ((), c))"
  using assms by (simp add: op_drop_def oneshot_drop_def upgrade_def split: option.splits)

section \<open>Two ways to the same result\<close>

text \<open>The label of the \<^verbatim>\<open>unreachable!\<close> is the only difference between the two polls.\<close>

fun relabel :: "panic \<Rightarrow> panic" where
  "relabel (Unreachable m) = Unreachable (if m = ''poll_op_2'' then ''poll_op'' else m)"
| "relabel p = p"

text \<open>
  C13. The two polling functions of the driver are equivalent: \<^verbatim>\<open>poll_op\<close> does what
  \<^verbatim>\<open>poll_op_2\<close> does on every state of the slabs, panics included, and then completes the data of
  the handle with the result, as the oneshot future does with its transformation.
\<close>

theorem poll_op_equivalence:
  shows "poll_op co w op o1 =
    (case poll_op_2 w (op_index op) o1 of
       Inl p \<Rightarrow> Inl (relabel p)
     | Inr (Pending, o2) \<Rightarrow> Inr (Pending, op, o2)
     | Inr (Ready cqe, o2) \<Rightarrow>
         (case take_data op of
            (None, op') \<Rightarrow> Inl UnwrapNone
          | (Some data, op') \<Rightarrow>
              bind_exec (co_complete co data (cqe_result_from cqe)) (\<lambda>out. Inr (Ready out, op', o2))))"
proof (cases "fmlookup (lifecycle o1) (op_index op)")
  case (Some lc)
  then show ?thesis
    by (cases lc) (auto simp: poll_op_def poll_op_2_def ops_remove_def slab_remove_def)
qed (simp add: poll_op_def poll_op_2_def)

text \<open>
  Submitting a batch of one operation is submitting the operation: where pushing a batch of
  one entry is pushing the entry, \<^verbatim>\<open>submit_ops\<close> and \<^verbatim>\<open>submit_op_2\<close> agree on every driver, on
  the index, the panics and the calls that do not return.
\<close>

theorem submit_ops_single:
  assumes "\<And>e. u_push_multiple api [e] = u_push api e"
  shows "submit_ops api la ca [s] d =
    Option.bind (submit_op_2 api la ca s d) (\<lambda>r. Some (bind_exec r (\<lambda>(k, d'). Inr ([k], d'))))"
proof (cases "ops_insert la (drv_ops d)")
  case (Inr r)
  obtain k o' where r: "r = (k, o')" by (cases r)
  let ?e = "s\<lparr>sqe_user_data := k\<rparr>"
  have lhs: "submit_ops api la ca [s] d = Option.bind (push_until api ca (u_push_multiple api [?e]) (d\<lparr>drv_ops := o'\<rparr>)) (\<lambda>r.
      Some (bind_exec r (\<lambda>(res, d'). case res of Ok _ \<Rightarrow> Inr ([k], d')
        | Err e \<Rightarrow> Inl (Expect ''Internal error, failed to submit ops''))))"
    using Inr r by (simp add: submit_ops_def)
  show ?thesis unfolding lhs using Inr r
    by (cases "push_until api ca (u_push api ?e) (d\<lparr>drv_ops := o'\<rparr>)")
       (auto simp: assms submit_op_2_def Let_def bind_exec_def split: sum.splits result.splits)
qed (simp add: submit_ops_def submit_op_2_def)

theorem submit_ops_single_witness:
  "submit_ops demo_api (first_vacant 4) (first_vacant 4) [sqe_build OpNop] (cl_driver demo_cell) =
    Option.bind (submit_op_2 demo_api (first_vacant 4) (first_vacant 4) (sqe_build OpNop) (cl_driver demo_cell)) (\<lambda>r.
      Some (bind_exec r (\<lambda>(k, d'). Inr ([k], d'))))"
  by (rule submit_ops_single) (simp add: demo_api_def fun_eq_iff)

section \<open>Linked operations\<close>

text \<open>
  Linking a third operation to a link does not extend the chain: the link flag goes to the first
  entry again, and the second entry keeps the flags it had, so the third operation is not linked
  to it.
\<close>

lemma link_of_three_is_broken:
  shows "sqe_flags (us_sqe (lk_data (link_link (oneshot_link a b) c))) = sqe_flags (us_sqe a) @ [IO_LINK, IO_LINK]
    \<and> lk_data (lk_next (link_link (oneshot_link a b) c)) = b
    \<and> lk_next (lk_next (link_link (oneshot_link a b) c)) = c"
  by (simp add: link_link_def oneshot_link_def link_new_def set_flags_def)

section \<open>The runtime context\<close>

text \<open>
  \<^verbatim>\<open>block_on\<close> leaves the context cleared whether its future returns or panics, and called from
  inside a runtime it panics without touching the context it found.
\<close>

lemma block_on_context:
  shows "fst (snd (block_on fut (False, c))) = False
    \<and> fst (block_on fut (False, c)) = fst (fut (True, c\<lparr>cl_strong := cl_strong c + 1\<rparr>))
    \<and> block_on fut (True, c) = (Inl (Explicit ''Attempted to initialize the driver twice''), True, c)"
  by (simp add: block_on_def set_handle_def unset_driver_def split: prod.splits)

end
