(* ===== verification/Buf_Core.thy ===== *)
theory Buf_Core
  imports Uring_Prelude
begin

text \<open>
  \<^verbatim>\<open>src/src/buf/io_buf.rs\<close>, \<^verbatim>\<open>io_buf_mut.rs\<close>, \<^verbatim>\<open>bounded.rs\<close> and \<^verbatim>\<open>slice.rs\<close>: the buffer
  traits, as records of the functions an implementation provides, and the owned slice. Memory is
  a map from addresses to bytes. The laws that the runtime relies on are the locales \<open>io_buf_laws\<close>
  and \<open>io_buf_mut_laws\<close>, interpreted on vectors here and on \<^verbatim>\<open>Buffer\<close> in its theory.
\<close>

section \<open>The traits\<close>

record 'b io_buf =
  ib_stable_ptr :: "'b \<Rightarrow> addr"
  ib_bytes_init :: "'b \<Rightarrow> nat"
  ib_bytes_total :: "'b \<Rightarrow> nat"

record 'b io_buf_mut = "'b io_buf" +
  ib_stable_mut_ptr :: "'b \<Rightarrow> addr"
  ib_set_init :: "nat \<Rightarrow> 'b \<Rightarrow> 'b"

text \<open>
  A \<^verbatim>\<open>Vec<u8>\<close> (and a \<^verbatim>\<open>BytesMut\<close>): the allocation, the length and the capacity. The
  contents are in memory.
\<close>

record vec_u8 =
  v_ptr :: addr
  v_len :: nat
  v_cap :: nat

definition vec_wf :: "vec_u8 \<Rightarrow> bool" where
  "vec_wf v \<longleftrightarrow> v_len v \<le> v_cap v \<and> v_cap v \<le> usize_MAX"

definition vec_set_init :: "nat \<Rightarrow> vec_u8 \<Rightarrow> vec_u8" where
  "vec_set_init init_len v = (if v_len v < init_len then v\<lparr>v_len := init_len\<rparr> else v)"

definition vec_io_buf :: "vec_u8 io_buf_mut" where
  "vec_io_buf = \<lparr>ib_stable_ptr = v_ptr, ib_bytes_init = v_len, ib_bytes_total = v_cap,
     ib_stable_mut_ptr = v_ptr, ib_set_init = vec_set_init\<rparr>"

text \<open>A \<^verbatim>\<open>&'static [u8]\<close> or \<^verbatim>\<open>&'static str\<close> or \<^verbatim>\<open>Bytes\<close>: pointer and length.\<close>

record static_slice =
  st_ptr :: addr
  st_len :: nat

definition static_io_buf :: "static_slice io_buf" where
  "static_io_buf = \<lparr>ib_stable_ptr = st_ptr, ib_bytes_init = st_len, ib_bytes_total = st_len\<rparr>"

section \<open>Memory\<close>

type_synonym memory = "addr \<Rightarrow> u8"

definition mem_read :: "memory \<Rightarrow> addr \<Rightarrow> nat \<Rightarrow> u8 list" where
  "mem_read mem p n = map (\<lambda>i. mem (p + i)) [0..<n]"

definition mem_write :: "addr \<Rightarrow> u8 list \<Rightarrow> memory \<Rightarrow> memory" where
  "mem_write p bs mem = (\<lambda>a. if p \<le> a \<and> a < p + length bs then bs ! (a - p) else mem a)"

text \<open>\<^verbatim>\<open>buf::deref\<close>: the initialized bytes, as a pointer and a length.\<close>

definition buf_deref :: "('b, 'm) io_buf_scheme \<Rightarrow> 'b \<Rightarrow> addr \<times> nat" where
  "buf_deref B b = (ib_stable_ptr B b, ib_bytes_init B b)"

section \<open>Slices\<close>

record 'b slice =
  s_buf :: 'b
  s_begin :: nat
  s_end :: nat

datatype bound = Included nat | Excluded nat | Unbounded

definition slice_new :: "'b \<Rightarrow> nat \<Rightarrow> nat \<Rightarrow> 'b slice" where
  "slice_new b bg en = \<lparr>s_buf = b, s_begin = bg, s_end = en\<rparr>"

definition into_inner :: "'b slice \<Rightarrow> 'b" where
  "into_inner s = s_buf s"

definition assert_that :: "bool \<Rightarrow> unit exec" where
  "assert_that c = (if c then Inr () else Inl Assertion)"

definition expect_in_range :: "nat option \<Rightarrow> nat exec" where
  "expect_in_range x = (case x of None \<Rightarrow> Inl (Expect ''out of range'') | Some n \<Rightarrow> Inr n)"

text \<open>\<^verbatim>\<open>usize\<close> subtraction of a release build.\<close>

definition wrapping_sub :: "nat \<Rightarrow> nat \<Rightarrow> nat" where
  "wrapping_sub a b = (if b \<le> a then a - b else a + (usize_MAX + 1) - b)"

definition wrapping_add :: "nat \<Rightarrow> nat \<Rightarrow> nat" where
  "wrapping_add a b = (a + b) mod (usize_MAX + 1)"

text \<open>\<^verbatim>\<open>BoundedBuf::slice\<close> of a whole buffer.\<close>

definition buf_slice :: "('b, 'm) io_buf_scheme \<Rightarrow> 'b \<Rightarrow> bound \<Rightarrow> bound \<Rightarrow> 'b slice exec" where
  "buf_slice B b lo hi =
     bind_exec (case lo of Included n \<Rightarrow> Inr n | Excluded n \<Rightarrow> expect_in_range (checked_add n 1)
                | Unbounded \<Rightarrow> Inr 0) (\<lambda>bg.
     bind_exec (assert_that (bg < ib_bytes_total B b)) (\<lambda>_.
     bind_exec (case hi of Included n \<Rightarrow> expect_in_range (checked_add n 1) | Excluded n \<Rightarrow> Inr n
                | Unbounded \<Rightarrow> Inr (ib_bytes_total B b)) (\<lambda>en.
     bind_exec (assert_that (en \<le> ib_bytes_total B b)) (\<lambda>_.
     bind_exec (assert_that (bg \<le> ib_bytes_init B b)) (\<lambda>_.
       Inr (slice_new b bg en))))))"

definition buf_slice_full :: "('b, 'm) io_buf_scheme \<Rightarrow> 'b \<Rightarrow> 'b slice" where
  "buf_slice_full B b = slice_new b 0 (ib_bytes_total B b)"

text \<open>\<^verbatim>\<open>BoundedBuf::slice\<close> of a slice: the bounds are relative to its beginning.\<close>

definition slice_slice :: "('b, 'm) io_buf_scheme \<Rightarrow> 'b slice \<Rightarrow> bound \<Rightarrow> bound \<Rightarrow> 'b slice exec" where
  "slice_slice B s lo hi =
     bind_exec (case lo of
         Included n \<Rightarrow> expect_in_range (checked_add (s_begin s) n)
       | Excluded n \<Rightarrow> expect_in_range (Option.bind (checked_add (s_begin s) n) (\<lambda>x. checked_add x 1))
       | Unbounded \<Rightarrow> Inr (s_begin s)) (\<lambda>bg.
     bind_exec (assert_that (bg \<le> s_end s)) (\<lambda>_.
     bind_exec (case hi of
         Included n \<Rightarrow> expect_in_range (Option.bind (checked_add (s_begin s) n) (\<lambda>x. checked_add x 1))
       | Excluded n \<Rightarrow> expect_in_range (checked_add (s_begin s) n)
       | Unbounded \<Rightarrow> Inr (s_end s)) (\<lambda>en.
     bind_exec (assert_that (en \<le> s_end s)) (\<lambda>_.
     bind_exec (assert_that (bg \<le> ib_bytes_init B (s_buf s))) (\<lambda>_.
       Inr (slice_new (s_buf s) bg en))))))"

definition slice_bounds :: "'b slice \<Rightarrow> nat \<times> nat" where
  "slice_bounds s = (s_begin s, s_end s)"

definition from_buf_bounds :: "('b, 'm) io_buf_scheme \<Rightarrow> 'b \<Rightarrow> nat \<times> nat \<Rightarrow> 'b slice exec" where
  "from_buf_bounds B b bs =
     bind_exec (assert_that (fst bs \<le> ib_bytes_init B b)) (\<lambda>_.
     bind_exec (assert_that (snd bs \<le> ib_bytes_total B b)) (\<lambda>_.
       Inr (slice_new b (fst bs) (snd bs))))"

text \<open>\<^verbatim>\<open>Deref for Slice\<close>: indexing \<^verbatim>\<open>[begin..end]\<close> panics on an invalid range.\<close>

definition slice_deref :: "('b, 'm) io_buf_scheme \<Rightarrow> 'b slice \<Rightarrow> (addr \<times> nat) exec" where
  "slice_deref B s =
     (case buf_deref B (s_buf s) of (p, n) \<Rightarrow>
        let en = min (s_end s) n in
        if s_begin s \<le> en then Inr (p + s_begin s, en - s_begin s) else Inl IndexOutOfBounds)"

definition slice_stable_ptr :: "('b, 'm) io_buf_scheme \<Rightarrow> 'b slice \<Rightarrow> addr exec" where
  "slice_stable_ptr B s =
     (case buf_deref B (s_buf s) of (p, n) \<Rightarrow>
        if s_begin s \<le> n then Inr (p + s_begin s) else Inl IndexOutOfBounds)"

definition slice_bytes_init :: "('b, 'm) io_buf_scheme \<Rightarrow> 'b slice \<Rightarrow> nat exec" where
  "slice_bytes_init B s = bind_exec (slice_deref B s) (\<lambda>(p, n). Inr n)"

definition slice_bytes_total :: "'b slice \<Rightarrow> nat" where
  "slice_bytes_total s = wrapping_sub (s_end s) (s_begin s)"

definition slice_set_init :: "('b, 'm) io_buf_mut_scheme \<Rightarrow> nat \<Rightarrow> 'b slice \<Rightarrow> 'b slice" where
  "slice_set_init B pos s = s\<lparr>s_buf := ib_set_init B (wrapping_add (s_begin s) pos) (s_buf s)\<rparr>"

text \<open>\<^verbatim>\<open>BoundedBufMut::put_slice\<close>, for a slice and for a whole buffer.\<close>

definition slice_put_slice ::
  "('b, 'm) io_buf_mut_scheme \<Rightarrow> u8 list \<Rightarrow> 'b slice \<Rightarrow> memory \<Rightarrow> ('b slice \<times> memory) exec" where
  "slice_put_slice B src s mem =
     bind_exec (assert_that (slice_bytes_total s \<ge> length src)) (\<lambda>_.
     bind_exec (slice_stable_ptr B s) (\<lambda>dst.
       Inr (slice_set_init B (length src) s, mem_write dst src mem)))"

definition buf_put_slice ::
  "('b, 'm) io_buf_mut_scheme \<Rightarrow> u8 list \<Rightarrow> 'b \<Rightarrow> memory \<Rightarrow> ('b \<times> memory) exec" where
  "buf_put_slice B src b mem =
     bind_exec (assert_that (ib_bytes_total B b \<ge> length src)) (\<lambda>_.
       Inr (ib_set_init B (length src) b, mem_write (ib_stable_mut_ptr B b) src mem))"

text \<open>The slices the documentation means: an ordered range, inside the buffer, starting in its
  initialized part or right after it.\<close>

definition slice_wf :: "('b, 'm) io_buf_scheme \<Rightarrow> 'b slice \<Rightarrow> bool" where
  "slice_wf B s \<longleftrightarrow> s_begin s \<le> s_end s \<and> s_end s \<le> ib_bytes_total B (s_buf s)
     \<and> s_begin s \<le> ib_bytes_init B (s_buf s)"

section \<open>Laws\<close>

locale io_buf_laws =
  fixes B :: "('b, 'm) io_buf_scheme"
    and inv :: "'b \<Rightarrow> bool"
  assumes init_le_total: "inv b \<Longrightarrow> ib_bytes_init B b \<le> ib_bytes_total B b"
    and total_le_MAX: "inv b \<Longrightarrow> ib_bytes_total B b \<le> usize_MAX"

locale io_buf_mut_laws = io_buf_laws B inv
  for B :: "('b, 'm) io_buf_mut_scheme" and inv :: "'b \<Rightarrow> bool" +
  assumes mut_ptr: "inv b \<Longrightarrow> ib_stable_mut_ptr B b = ib_stable_ptr B b"
    and set_init_inv: "inv b \<Longrightarrow> n \<le> ib_bytes_total B b \<Longrightarrow> inv (ib_set_init B n b)"
    and set_init_ptr: "inv b \<Longrightarrow> n \<le> ib_bytes_total B b \<Longrightarrow>
      ib_stable_ptr B (ib_set_init B n b) = ib_stable_ptr B b"
    and set_init_total: "inv b \<Longrightarrow> n \<le> ib_bytes_total B b \<Longrightarrow>
      ib_bytes_total B (ib_set_init B n b) = ib_bytes_total B b"
    and set_init_covers: "inv b \<Longrightarrow> n \<le> ib_bytes_total B b \<Longrightarrow> n \<le> ib_bytes_init B (ib_set_init B n b)"

text \<open>The documented water mark: bytes already initialized stay so.\<close>

locale io_buf_watermark = io_buf_mut_laws +
  assumes set_init_max: "inv b \<Longrightarrow> n \<le> ib_bytes_total B b \<Longrightarrow>
    ib_bytes_init B (ib_set_init B n b) = max (ib_bytes_init B b) n"

section \<open>Lemmas on slices\<close>

lemma assert_that_bind [simp]: "bind_exec (assert_that c) f = (if c then f () else Inl Assertion)"
  by (simp add: assert_that_def)

lemma expect_in_range_Inr: "expect_in_range x = Inr n \<longleftrightarrow> x = Some n"
  by (auto simp: expect_in_range_def split: option.splits)

lemma slice_new_simps [simp]: "s_buf (slice_new b x y) = b" "s_begin (slice_new b x y) = x" "s_end (slice_new b x y) = y"
  by (simp_all add: slice_new_def)

lemma slice_eta: "slice_new (s_buf s) (s_begin s) (s_end s) = s"
  by (simp add: slice_new_def)

lemma mem_read_length [simp]: "length (mem_read mem p n) = n"
  by (simp add: mem_read_def)

lemma mem_read_write: "mem_read (mem_write p bs mem) p (length bs) = bs"
  by (rule nth_equalityI) (auto simp: mem_read_def mem_write_def)

lemma mem_write_other: "a < p \<or> p + length bs \<le> a \<Longrightarrow> mem_write p bs mem a = mem a"
  by (auto simp: mem_write_def)

context io_buf_laws
begin

lemma slice_of_wf:
  assumes "inv b" and "buf_slice B b lo hi = Inr s" and "s_begin s \<le> s_end s"
  shows "slice_wf B s" and "s_buf s = b"
  using assms
  by (auto simp: buf_slice_def slice_wf_def bind_exec_eq_Inr split: bound.splits if_splits)

lemma full_wf: "inv b \<Longrightarrow> slice_wf B (buf_slice_full B b)"
  using total_le_MAX by (simp add: buf_slice_full_def slice_wf_def)

lemma nested_wf:
  assumes "slice_wf B s" and "slice_slice B s lo hi = Inr s'" and "s_begin s' \<le> s_end s'"
  shows "slice_wf B s'" and "s_buf s' = s_buf s"
  using assms
  by (auto simp: slice_slice_def slice_wf_def bind_exec_eq_Inr split: bound.splits if_splits)

text \<open>On a well-formed slice nothing panics and the view stays in the buffer.\<close>

lemma wf_view:
  assumes "inv (s_buf s)" and "slice_wf B s"
  shows "slice_deref B s = Inr (ib_stable_ptr B (s_buf s) + s_begin s,
      min (s_end s) (ib_bytes_init B (s_buf s)) - s_begin s)"
    and "slice_stable_ptr B s = Inr (ib_stable_ptr B (s_buf s) + s_begin s)"
    and "slice_bytes_total s = s_end s - s_begin s"
    and "s_begin s + slice_bytes_total s \<le> ib_bytes_total B (s_buf s)"
  using assms
  by (auto simp: slice_wf_def slice_deref_def slice_stable_ptr_def buf_deref_def Let_def slice_bytes_total_def
      wrapping_sub_def)

lemma bounds_roundtrip:
  "slice_wf B s \<Longrightarrow> from_buf_bounds B (into_inner s) (slice_bounds s) = Inr s"
  by (simp add: slice_wf_def from_buf_bounds_def into_inner_def slice_bounds_def slice_eta)

text \<open>A slice of a slice is the slice of the buffer with the bounds shifted.\<close>

lemma slice_slice_shift:
  assumes "inv b" and "slice_new b x y = s" and "slice_wf B s"
    and "slice_slice B s (Included i) (Excluded j) = Inr s'" and "x + i < ib_bytes_total B b"
  shows "buf_slice B b (Included (x + i)) (Excluded (x + j)) = Inr s'"
proof -
  from assms(2) have s: "s = slice_new b x y" by simp
  from assms(4) have "x + i \<le> y" "x + j \<le> y" "x + i \<le> ib_bytes_init B b" "s' = slice_new b (x + i) (x + j)"
    unfolding slice_slice_def s
    by (auto simp: bind_exec_eq_Inr expect_in_range_Inr checked_add_Some split: if_splits)
  moreover have "y \<le> ib_bytes_total B b" using assms(3) s by (simp add: slice_wf_def)
  ultimately show ?thesis using assms(5) by (simp add: buf_slice_def)
qed

end

context io_buf_mut_laws
begin

text \<open>Copying into a well-formed slice: the bytes are there and counted as initialized, the rest
  of the memory and the shape of the slice are untouched.\<close>

lemma put_slice_ok:
  assumes i: "inv (s_buf s)" and wf: "slice_wf B s" and len: "length src \<le> s_end s - s_begin s"
  obtains s' where "slice_put_slice B src s mem =
      Inr (s', mem_write (ib_stable_ptr B (s_buf s) + s_begin s) src mem)"
    and "inv (s_buf s')" and "slice_wf B s'"
    and "\<And>n. slice_bytes_init B s' = Inr n \<Longrightarrow> length src \<le> n"
    and "slice_stable_ptr B s' = Inr (ib_stable_ptr B (s_buf s) + s_begin s)"
proof -
  have le: "s_begin s + length src \<le> ib_bytes_total B (s_buf s)" using wf len by (auto simp: slice_wf_def)
  then have add: "wrapping_add (s_begin s) (length src) = s_begin s + length src"
    using total_le_MAX [OF i] by (simp add: wrapping_add_def)
  let ?s' = "slice_set_init B (length src) s"
  have buf: "s_buf ?s' = ib_set_init B (s_begin s + length src) (s_buf s)" "s_begin ?s' = s_begin s" "s_end ?s' = s_end s"
    by (simp_all add: slice_set_init_def add)
  note si = set_init_inv [OF i le] set_init_ptr [OF i le] set_init_total [OF i le] set_init_covers [OF i le]
  have wf': "slice_wf B ?s'" using wf si buf by (auto simp: slice_wf_def)
  show ?thesis
  proof (rule that [of ?s'])
    show "slice_put_slice B src s mem = Inr (?s', mem_write (ib_stable_ptr B (s_buf s) + s_begin s) src mem)"
      using wf_view [OF i wf] len by (simp add: slice_put_slice_def)
    show "inv (s_buf ?s')" using si buf by simp
    show "slice_wf B ?s'" by (rule wf')
    show "slice_stable_ptr B ?s' = Inr (ib_stable_ptr B (s_buf s) + s_begin s)"
      using wf_view(2) [of ?s'] wf' si buf by simp
    show "length src \<le> n" if "slice_bytes_init B ?s' = Inr n" for n
      using wf_view(1) [of ?s'] wf' si buf that len by (simp add: slice_bytes_init_def)
  qed
qed

end

interpretation vec_buf: io_buf_watermark vec_io_buf vec_wf
  by unfold_locales (auto simp: vec_io_buf_def vec_wf_def vec_set_init_def)

interpretation static_buf: io_buf_laws static_io_buf "\<lambda>s. st_len s \<le> usize_MAX"
  by unfold_locales (auto simp: static_io_buf_def)

end
