(* ===== verification/Buf_Buffer.thy ===== *)
theory Buf_Buffer
  imports Buf_Core
begin

text \<open>
  \<^verbatim>\<open>src/src/buf/mod.rs\<close>: the type-erased \<^verbatim>\<open>Buffer\<close>, a list of iovecs with the capacities and
  the identity of the type it was made from, and the implementations of \<^verbatim>\<open>BufferImpl\<close>. The
  trait's obligation, that \<^verbatim>\<open>from_raw_parts\<close> undoes \<^verbatim>\<open>into_raw_parts\<close>, is the locale
  \<open>buffer_impl_laws\<close>; from it follow the round trip through \<^verbatim>\<open>Buffer\<close> and that the destructor
  rebuilds the very value that went in.
\<close>

section \<open>Buffers\<close>

text \<open>The boxed user data behind the erased pointer, for the implementations of the crate.\<close>

datatype user_data = NoData | PoolInfo nat u16 | RegistryInfo nat u16

datatype buf_ty = TyVec | TyVecVec | TyPoolBuf | TyRegistryBuf

text \<open>
  \<open>bf_iovec_ptr\<close> is the address of the iovec array itself. The destructor is the closure that
  \<^verbatim>\<open>new\<close> captures: it is determined by the type.
\<close>

record buffer =
  bf_iovec :: "iovec list"
  bf_iovec_ptr :: addr
  bf_cap :: "nat list"
  bf_user_data :: user_data
  bf_ty :: buf_ty

type_synonym raw_parts = "addr list \<times> nat list \<times> nat list \<times> user_data"

record 'b buffer_impl =
  bi_type :: buf_ty
  bi_into_raw_parts :: "'b \<Rightarrow> raw_parts exec"
  bi_from_raw_parts :: "raw_parts \<Rightarrow> 'b exec"

definition mk_iovec :: "addr \<Rightarrow> nat \<Rightarrow> iovec" where
  "mk_iovec p n = \<lparr>iov_base = p, iov_len = n\<rparr>"

text \<open>\<^verbatim>\<open>Buffer::new\<close>; the iovec array is allocated at \<open>at\<close>.\<close>

definition buffer_new :: "'b buffer_impl \<Rightarrow> addr \<Rightarrow> 'b \<Rightarrow> buffer exec" where
  "buffer_new bi at buf =
     bind_exec (bi_into_raw_parts bi buf) (\<lambda>(ptr, len, cap, ud).
       Inr \<lparr>bf_iovec = map2 mk_iovec ptr len, bf_iovec_ptr = at, bf_cap = cap, bf_user_data = ud,
            bf_ty = bi_type bi\<rparr>)"

definition raw_parts_of :: "buffer \<Rightarrow> raw_parts" where
  "raw_parts_of b = (map iov_base (bf_iovec b), map iov_len (bf_iovec b), bf_cap b, bf_user_data b)"

definition buffer_try_into :: "'b buffer_impl \<Rightarrow> buffer \<Rightarrow> ('b, buffer) result exec" where
  "buffer_try_into bi b =
     (if bf_ty b \<noteq> bi_type bi then Inr (Err b)
      else bind_exec (bi_from_raw_parts bi (raw_parts_of b)) (\<lambda>buf. Inr (Ok buf)))"

text \<open>\<^verbatim>\<open>Drop for Buffer\<close>: the captured closure rebuilds the value and drops it, \<open>dropper\<close>.\<close>

definition buffer_drop :: "'b buffer_impl \<Rightarrow> ('b \<Rightarrow> 's \<Rightarrow> 's exec) \<Rightarrow> buffer \<Rightarrow> 's \<Rightarrow> 's exec" where
  "buffer_drop bi dropper b st =
     bind_exec (bi_from_raw_parts bi (raw_parts_of b)) (\<lambda>buf. dropper buf st)"

definition buffer_len :: "buffer \<Rightarrow> nat" where
  "buffer_len b = length (bf_iovec b)"

definition buffer_is_empty :: "buffer \<Rightarrow> bool" where
  "buffer_is_empty b \<longleftrightarrow> buffer_len b = 0"

fun fill_iov :: "iovec list \<Rightarrow> nat list \<Rightarrow> iovec list" where
  "fill_iov (v # vs) (c # cs) = v\<lparr>iov_len := c\<rparr> # fill_iov vs cs"
| "fill_iov vs cs = vs"

definition buffer_fill :: "buffer \<Rightarrow> buffer" where
  "buffer_fill b = b\<lparr>bf_iovec := fill_iov (bf_iovec b) (bf_cap b)\<rparr>"

definition buffer_index :: "buffer \<Rightarrow> nat \<Rightarrow> (addr \<times> nat) exec" where
  "buffer_index b i =
     (if i < length (bf_iovec b) then Inr (iov_base (bf_iovec b ! i), iov_len (bf_iovec b ! i))
      else Inl IndexOutOfBounds)"

definition buffer_stable_ptr :: "buffer \<Rightarrow> addr" where
  "buffer_stable_ptr b =
     (if length (bf_iovec b) = 1 then iov_base (bf_iovec b ! 0) else bf_iovec_ptr b)"

definition buffer_bytes_init :: "buffer \<Rightarrow> nat" where
  "buffer_bytes_init b = sum_list (map iov_len (bf_iovec b))"

definition buffer_bytes_total :: "buffer \<Rightarrow> nat" where
  "buffer_bytes_total b = sum_list (bf_cap b)"

fun set_init_iov :: "iovec list \<Rightarrow> nat list \<Rightarrow> nat \<Rightarrow> iovec list" where
  "set_init_iov (v # vs) (c # cs) pos =
     (let size = min c pos in v\<lparr>iov_len := size\<rparr> # set_init_iov vs cs (pos - size))"
| "set_init_iov vs cs pos = vs"

definition buffer_set_init :: "nat \<Rightarrow> buffer \<Rightarrow> buffer" where
  "buffer_set_init pos b = b\<lparr>bf_iovec := set_init_iov (bf_iovec b) (bf_cap b) pos\<rparr>"

definition buffer_io_buf :: "buffer io_buf_mut" where
  "buffer_io_buf = \<lparr>ib_stable_ptr = buffer_stable_ptr, ib_bytes_init = buffer_bytes_init,
     ib_bytes_total = buffer_bytes_total, ib_stable_mut_ptr = buffer_stable_ptr,
     ib_set_init = buffer_set_init\<rparr>"

section \<open>The implementations of the trait\<close>

text \<open>\<^verbatim>\<open>ptr[0]\<close> and the like panic on an empty vector.\<close>

fun raw_head :: "raw_parts \<Rightarrow> (addr \<times> nat \<times> nat \<times> user_data) exec" where
  "raw_head (p # ps, l # ls, c # cs, ud) = Inr (p, l, c, ud)"
| "raw_head r = Inl IndexOutOfBounds"

definition vec_impl :: "vec_u8 buffer_impl" where
  "vec_impl = \<lparr>bi_type = TyVec,
     bi_into_raw_parts = (\<lambda>v. Inr ([v_ptr v], [v_len v], [v_cap v], NoData)),
     bi_from_raw_parts = (\<lambda>r. bind_exec (raw_head r) (\<lambda>(p, l, c, ud).
       Inr \<lparr>v_ptr = p, v_len = l, v_cap = c\<rparr>))\<rparr>"

definition vecvec_impl :: "vec_u8 list buffer_impl" where
  "vecvec_impl = \<lparr>bi_type = TyVecVec,
     bi_into_raw_parts = (\<lambda>vs. Inr (map v_ptr vs, map v_len vs, map v_cap vs, NoData)),
     bi_from_raw_parts = (\<lambda>(ps, ls, cs, ud).
       Inr (map (\<lambda>((p, l), c). \<lparr>v_ptr = p, v_len = l, v_cap = c\<rparr>) (zip (zip ps ls) cs)))\<rparr>"

text \<open>
  \<^verbatim>\<open>FixedBuf\<close> of \<^verbatim>\<open>fixed/pool.rs\<close> and of \<^verbatim>\<open>fixed/registry.rs\<close>: the whole registered region,
  the initialized length, and where it has to be checked in.
\<close>

record fixed_buf =
  fb_iovec :: iovec
  fb_init_len :: nat
  fb_info :: "user_data option"

definition fixed_impl :: "buf_ty \<Rightarrow> fixed_buf buffer_impl" where
  "fixed_impl ty = \<lparr>bi_type = ty,
     bi_into_raw_parts = (\<lambda>f. case fb_info f of
         None \<Rightarrow> Inl UnwrapNone
       | Some info \<Rightarrow> Inr ([iov_base (fb_iovec f)], [fb_init_len f], [iov_len (fb_iovec f)], info)),
     bi_from_raw_parts = (\<lambda>r. bind_exec (raw_head r) (\<lambda>(p, l, c, ud).
       Inr \<lparr>fb_iovec = mk_iovec p c, fb_init_len = l, fb_info = Some ud\<rparr>))\<rparr>"

section \<open>The obligation of the trait\<close>

locale buffer_impl_laws =
  fixes bi :: "'b buffer_impl"
    and valid :: "'b \<Rightarrow> bool"
  assumes roundtrip: "valid b \<Longrightarrow>
    \<exists>ps ls cs ud. bi_into_raw_parts bi b = Inr (ps, ls, cs, ud) \<and> length ls = length ps
      \<and> length cs = length ps \<and> bi_from_raw_parts bi (ps, ls, cs, ud) = Inr b"
begin

lemma new_parts:
  assumes "valid b"
  obtains buf where "buffer_new bi at b = Inr buf" and "bf_ty buf = bi_type bi"
    and "bi_into_raw_parts bi b = Inr (raw_parts_of buf)"
    and "bi_from_raw_parts bi (raw_parts_of buf) = Inr b"
    and "length (bf_iovec buf) = length (bf_cap buf)"
proof -
  from roundtrip [OF assms] obtain ps ls cs ud where r:
    "bi_into_raw_parts bi b = Inr (ps, ls, cs, ud)" "length ls = length ps" "length cs = length ps"
    "bi_from_raw_parts bi (ps, ls, cs, ud) = Inr b" by blast
  have "map iov_base (map2 mk_iovec ps ls) = ps" "map iov_len (map2 mk_iovec ps ls) = ls"
    using r(2) by (auto simp: mk_iovec_def map_equality_iff intro!: nth_equalityI)
  with r that [of "\<lparr>bf_iovec = map2 mk_iovec ps ls, bf_iovec_ptr = at, bf_cap = cs, bf_user_data = ud,
      bf_ty = bi_type bi\<rparr>"] show ?thesis
    by (simp add: buffer_new_def raw_parts_of_def)
qed

lemma new_try_into:
  assumes "valid b"
  shows "\<exists>buf. buffer_new bi at b = Inr buf \<and> buffer_try_into bi buf = Inr (Ok b)"
  using new_parts [OF assms, of at] by (metis bind_exec_Inr buffer_try_into_def)

lemma new_drop:
  assumes "valid b"
  shows "\<exists>buf. buffer_new bi at b = Inr buf \<and> (\<forall>dropper st. buffer_drop bi dropper buf st = dropper b st)"
  using new_parts [OF assms, of at] by (metis bind_exec_Inr buffer_drop_def)

end

interpretation vec_impl: buffer_impl_laws vec_impl "\<lambda>v. True"
  by unfold_locales (simp add: vec_impl_def)

lemma vec_eta: "\<lparr>v_ptr = v_ptr v, v_len = v_len v, v_cap = v_cap v\<rparr> = v"
  by simp

interpretation vecvec_impl: buffer_impl_laws vecvec_impl "\<lambda>vs. True"
  by unfold_locales (auto simp: vecvec_impl_def zip_map_map zip_same_conv_map comp_def vec_eta)

interpretation fixed_impl: buffer_impl_laws "fixed_impl ty" "\<lambda>f. fb_info f \<noteq> None" for ty
  by unfold_locales (auto simp: fixed_impl_def mk_iovec_def)

section \<open>Initialized lengths\<close>

definition buffer_wf :: "buffer \<Rightarrow> bool" where
  "buffer_wf b \<longleftrightarrow> list_all2 (\<lambda>v c. iov_len v \<le> c) (bf_iovec b) (bf_cap b) \<and> sum_list (bf_cap b) \<le> usize_MAX"

lemma buffer_wf_length: "buffer_wf b \<Longrightarrow> length (bf_iovec b) = length (bf_cap b)"
  by (auto simp: buffer_wf_def dest: list_all2_lengthD)

lemma set_init_iov_length [simp]: "length (set_init_iov vs cs n) = length vs"
  by (induction vs cs n rule: set_init_iov.induct) (auto simp: Let_def)

lemma set_init_iov_base [simp]: "map iov_base (set_init_iov vs cs n) = map iov_base vs"
  by (induction vs cs n rule: set_init_iov.induct) (auto simp: Let_def)

lemma set_init_iov_sum:
  "length vs = length cs \<Longrightarrow> sum_list (map iov_len (set_init_iov vs cs n)) = min n (sum_list cs)"
  by (induction vs cs n rule: set_init_iov.induct) (auto simp: Let_def min_def)

lemma set_init_iov_le:
  "length vs = length cs \<Longrightarrow> list_all2 (\<lambda>v c. iov_len v \<le> c) (set_init_iov vs cs n) cs"
  by (induction vs cs n rule: set_init_iov.induct) (auto simp: Let_def)

lemma iov_len_sum: "list_all2 (\<lambda>v c. iov_len v \<le> c) vs cs \<Longrightarrow> sum_list (map iov_len vs) \<le> sum_list cs"
  by (induction rule: list_all2_induct) auto

lemma fill_iov_is_set_init:
  "length vs = length cs \<Longrightarrow> fill_iov vs cs = set_init_iov vs cs (sum_list cs)"
  by (induction vs cs rule: fill_iov.induct) (auto simp: Let_def)

lemma buffer_set_init_bytes:
  assumes "buffer_wf b"
  shows "buffer_bytes_init (buffer_set_init n b) = min n (buffer_bytes_total b)"
  using assms set_init_iov_sum [of "bf_iovec b" "bf_cap b" n] buffer_wf_length [OF assms]
  by (simp add: buffer_bytes_init_def buffer_set_init_def buffer_bytes_total_def)

lemma buffer_set_init_wf: "buffer_wf b \<Longrightarrow> buffer_wf (buffer_set_init n b)"
  using set_init_iov_le [of "bf_iovec b" "bf_cap b" n] buffer_wf_length [of b]
  by (simp add: buffer_wf_def buffer_set_init_def)

lemma buffer_set_init_ptr: "buffer_wf b \<Longrightarrow> buffer_stable_ptr (buffer_set_init n b) = buffer_stable_ptr b"
proof -
  have "iov_base (set_init_iov vs cs n ! 0) = iov_base (vs ! 0)" if "length vs = 1" for vs cs
  proof -
    have "map iov_base (set_init_iov vs cs n) ! 0 = map iov_base vs ! 0" by simp
    then show ?thesis using that by (simp del: set_init_iov_base)
  qed
  then show ?thesis by (simp add: buffer_stable_ptr_def buffer_set_init_def)
qed

lemma buffer_io_buf_simps [simp]:
  "ib_stable_ptr buffer_io_buf = buffer_stable_ptr" "ib_bytes_init buffer_io_buf = buffer_bytes_init"
  "ib_bytes_total buffer_io_buf = buffer_bytes_total" "ib_stable_mut_ptr buffer_io_buf = buffer_stable_ptr"
  "ib_set_init buffer_io_buf = buffer_set_init"
  by (simp_all add: buffer_io_buf_def)

interpretation buffer_buf: io_buf_mut_laws buffer_io_buf buffer_wf
proof
  fix b n
  assume wf: "buffer_wf b"
  show "ib_bytes_init buffer_io_buf b \<le> ib_bytes_total buffer_io_buf b"
    using wf iov_len_sum by (auto simp: buffer_wf_def buffer_bytes_init_def buffer_bytes_total_def)
  show "ib_bytes_total buffer_io_buf b \<le> usize_MAX"
    using wf by (simp add: buffer_wf_def buffer_bytes_total_def)
  show "ib_stable_mut_ptr buffer_io_buf b = ib_stable_ptr buffer_io_buf b"
    by simp
  show "buffer_wf (ib_set_init buffer_io_buf n b)"
    using buffer_set_init_wf [OF wf] by (simp add: buffer_io_buf_def)
  show "ib_stable_ptr buffer_io_buf (ib_set_init buffer_io_buf n b) = ib_stable_ptr buffer_io_buf b"
    using buffer_set_init_ptr [OF wf] by (simp add: buffer_io_buf_def)
  show "ib_bytes_total buffer_io_buf (ib_set_init buffer_io_buf n b) = ib_bytes_total buffer_io_buf b"
    by (simp add: buffer_bytes_total_def buffer_set_init_def)
  show "n \<le> ib_bytes_init buffer_io_buf (ib_set_init buffer_io_buf n b)"
    if "n \<le> ib_bytes_total buffer_io_buf b"
    using buffer_set_init_bytes [OF wf, of n] that by (simp add: buffer_io_buf_def)
qed

end
