(* ===== verification/Fixed_Bufs.thy ===== *)
theory Fixed_Bufs
  imports Buf_Buffer
begin

text \<open>
  \<^verbatim>\<open>src/src/buf/fixed\<close>: the collections of registered buffers. A \<^verbatim>\<open>Registry\<close> hands out
  buffers by index, a \<^verbatim>\<open>Pool\<close> by capacity, from one free list per capacity threaded through
  the states of the buffers. \<open>pool_inv\<close> says that the free lists hold exactly the free buffers
  of their capacity. The locale \<open>buf_collection\<close> is the promise both make: a buffer that is
  handed out is in nobody else's hands until it is checked in.
\<close>

section \<open>The registry\<close>

datatype reg_state = RFree nat | RCheckedOut

record registry =
  rg_iovecs :: "iovec list"
  rg_states :: "reg_state list"
  rg_buffers :: "buffer list"

definition UIO_MAXIOV :: nat where "UIO_MAXIOV = 1024"

definition max_bufs :: nat where
  "max_bufs = min UIO_MAXIOV 65535"

definition registry_new :: "buffer list \<Rightarrow> registry" where
  "registry_new bufs0 =
     (let bufs = take max_bufs bufs0 in
      \<lparr>rg_iovecs = map (\<lambda>b. mk_iovec (buffer_stable_ptr b) (buffer_bytes_total b)) bufs,
       rg_states = map (\<lambda>b. RFree (buffer_bytes_init b)) bufs,
       rg_buffers = bufs\<rparr>)"

definition registry_check_out :: "nat \<Rightarrow> registry \<Rightarrow> ((iovec \<times> nat) option \<times> registry) exec" where
  "registry_check_out index r =
     (if index < length (rg_states r) then
        (case rg_states r ! index of
           RCheckedOut \<Rightarrow> Inr (None, r)
         | RFree init_len \<Rightarrow>
             if index < length (rg_iovecs r) then
               Inr (Some (rg_iovecs r ! index, init_len), r\<lparr>rg_states := (rg_states r)[index := RCheckedOut]\<rparr>)
             else Inl IndexOutOfBounds)
      else Inl (Expect ''invalid buffer index''))"

definition registry_check_in :: "nat \<Rightarrow> nat \<Rightarrow> registry \<Rightarrow> registry exec" where
  "registry_check_in index init_len r =
     (if index < length (rg_states r) then Inr (r\<lparr>rg_states := (rg_states r)[index := RFree init_len]\<rparr>)
      else Inl (Expect ''invalid buffer index''))"

definition registry_drop :: "registry \<Rightarrow> unit exec" where
  "registry_drop r = assert_that (list_all (\<lambda>s. case s of RFree n \<Rightarrow> True | RCheckedOut \<Rightarrow> False) (rg_states r))"

section \<open>The pool\<close>

datatype pool_state = PFree nat "u16 option" | PCheckedOut

text \<open>
  \<^verbatim>\<open>tokio::sync::Notify\<close> is code of another crate, a parameter: its initial state, \<^verbatim>\<open>notify_one\<close>,
  and polling and dropping a \<^verbatim>\<open>Notified\<close> future, which is named by a number. The pool keeps one
  for each capacity that was ever waited for. Its debug assertions are those of a debug build
  and are not part of the model.
\<close>

record 'n notify_api =
  n_default :: 'n
  n_notify_one :: "'n \<Rightarrow> 'n"
  n_poll :: "nat \<Rightarrow> 'n \<Rightarrow> bool \<times> 'n"
  n_drop :: "nat \<Rightarrow> 'n \<Rightarrow> 'n"

record 'n pool =
  pl_iovecs :: "iovec list"
  pl_states :: "pool_state list"
  pl_free :: "nat \<rightharpoonup> u16"
  pl_notify :: "nat \<rightharpoonup> 'n"
  pl_buffers :: "buffer list"

primrec pool_add :: "nat \<Rightarrow> buffer list \<Rightarrow> 'n pool \<Rightarrow> 'n pool" where
  "pool_add i [] p = p"
| "pool_add i (b # bs) p =
     (let cap = buffer_bytes_total b;
          iovec = mk_iovec (buffer_stable_ptr b) cap;
          next = pl_free p cap
      in pool_add (Suc i) bs
           (p\<lparr>pl_iovecs := pl_iovecs p @ [iovec],
              pl_free := (pl_free p)(cap \<mapsto> of_nat i),
              pl_states := pl_states p @ [PFree (buffer_bytes_init b) next]\<rparr>))"

definition pool_new :: "buffer list \<Rightarrow> 'n pool" where
  "pool_new bufs0 =
     (let bufs = take max_bufs bufs0 in
      pool_add 0 bufs \<lparr>pl_iovecs = [], pl_states = [], pl_free = Map.empty, pl_notify = Map.empty,
        pl_buffers = bufs\<rparr>)"

definition pool_try_next :: "nat \<Rightarrow> 'n pool \<Rightarrow> ((iovec \<times> nat \<times> nat) option \<times> 'n pool) exec" where
  "pool_try_next cap p =
     (case pl_free p cap of
        None \<Rightarrow> Inr (None, p)
      | Some free_head \<Rightarrow>
          let index = unat free_head in
          if index < length (pl_states p) then
            (case pl_states p ! index of
               PCheckedOut \<Rightarrow> Inl (Explicit ''buffer is checked out'')
             | PFree init_len next \<Rightarrow>
                 let p' = p\<lparr>pl_states := (pl_states p)[index := PCheckedOut],
                            pl_free := (pl_free p)(cap := next)\<rparr> in
                 if index < length (pl_iovecs p) then Inr (Some (pl_iovecs p ! index, init_len, index), p')
                 else Inl IndexOutOfBounds)
          else Inl (Expect ''invalid buffer index''))"

definition pool_notify_on_next :: "'n notify_api \<Rightarrow> nat \<Rightarrow> 'n pool \<Rightarrow> 'n pool" where
  "pool_notify_on_next napi cap p =
     (case pl_notify p cap of
        Some notify \<Rightarrow> p
      | None \<Rightarrow> p\<lparr>pl_notify := (pl_notify p)(cap \<mapsto> n_default napi)\<rparr>)"

definition pool_check_in :: "'n notify_api \<Rightarrow> nat \<Rightarrow> nat \<Rightarrow> 'n pool \<Rightarrow> 'n pool exec" where
  "pool_check_in napi index init_len p =
     (if index < length (pl_iovecs p) \<and> index < length (pl_states p) then
        let cap = iov_len (pl_iovecs p ! index); next = pl_free p cap;
            p' = p\<lparr>pl_free := (pl_free p)(cap \<mapsto> of_nat index),
                   pl_states := (pl_states p)[index := PFree init_len next]\<rparr>
        in Inr (case pl_notify p cap of
                  Some notify \<Rightarrow> p'\<lparr>pl_notify := (pl_notify p)(cap \<mapsto> n_notify_one napi notify)\<rparr>
                | None \<Rightarrow> p')
      else Inl IndexOutOfBounds)"

definition pool_drop :: "'n pool \<Rightarrow> unit exec" where
  "pool_drop p = assert_that (list_all (\<lambda>s. case s of PFree n x \<Rightarrow> True | PCheckedOut \<Rightarrow> False) (pl_states p))"

section \<open>Handles\<close>

text \<open>
  The collections live behind an \<^verbatim>\<open>Arc<Mutex<_>>\<close>; \<open>me\<close> is the identity of that allocation.
  \<^verbatim>\<open>try_next\<close> and \<^verbatim>\<open>check_out\<close> wrap what they hand out into a \<^verbatim>\<open>Buffer\<close>; the destructor
  of that buffer checks it in.
\<close>

definition fixed_pool_try_next :: "nat \<Rightarrow> addr \<Rightarrow> nat \<Rightarrow> 'n pool \<Rightarrow> (buffer option \<times> 'n pool) exec" where
  "fixed_pool_try_next me at cap p =
     bind_exec (pool_try_next cap p) (\<lambda>(r, p').
       case r of
         None \<Rightarrow> Inr (None, p')
       | Some (iovec, init_len, index) \<Rightarrow>
           bind_exec (buffer_new (fixed_impl TyPoolBuf) at
             \<lparr>fb_iovec = iovec, fb_init_len = init_len, fb_info = Some (PoolInfo me (of_nat index))\<rparr>) (\<lambda>b.
             Inr (Some b, p')))"

text \<open>The \<^verbatim>\<open>FixedBuf\<close> of the registry has the same parts as the one of the pool.\<close>

definition registry_buf_impl :: "fixed_buf buffer_impl" where
  "registry_buf_impl = \<lparr>bi_type = TyRegistryBuf,
     bi_into_raw_parts = (\<lambda>f. case fb_info f of
         None \<Rightarrow> Inl UnwrapNone
       | Some info \<Rightarrow> Inr ([iov_base (fb_iovec f)], [fb_init_len f], [iov_len (fb_iovec f)], info)),
     bi_from_raw_parts = (\<lambda>r. bind_exec (raw_head r) (\<lambda>(p, l, c, ud).
       Inr \<lparr>fb_iovec = mk_iovec p c, fb_init_len = l, fb_info = Some ud\<rparr>))\<rparr>"

lemma registry_buf_impl_eq [simp]: "registry_buf_impl = fixed_impl TyRegistryBuf"
  by (simp add: registry_buf_impl_def fixed_impl_def)

definition fixed_registry_check_out :: "nat \<Rightarrow> addr \<Rightarrow> nat \<Rightarrow> registry \<Rightarrow> (buffer option \<times> registry) exec" where
  "fixed_registry_check_out me at index r =
     bind_exec (registry_check_out index r) (\<lambda>(x, r').
       case x of
         None \<Rightarrow> Inr (None, r')
       | Some (iovec, init_len) \<Rightarrow>
           bind_exec (buffer_new registry_buf_impl at
             \<lparr>fb_iovec = iovec, fb_init_len = init_len, fb_info = Some (RegistryInfo me (of_nat index))\<rparr>) (\<lambda>b.
             Inr (Some b, r')))"

definition fixed_pool_buf_drop :: "'n notify_api \<Rightarrow> fixed_buf \<Rightarrow> 'n pool \<Rightarrow> 'n pool exec" where
  "fixed_pool_buf_drop napi f p =
     (case fb_info f of
        Some (PoolInfo me index) \<Rightarrow> pool_check_in napi (unat index) (fb_init_len f) p
      | _ \<Rightarrow> Inr p)"

definition fixed_registry_buf_drop :: "fixed_buf \<Rightarrow> registry \<Rightarrow> registry exec" where
  "fixed_registry_buf_drop f r =
     (case fb_info f of
        Some (RegistryInfo me index) \<Rightarrow> registry_check_in (unat index) (fb_init_len f) r
      | _ \<Rightarrow> Inr r)"

section \<open>The free lists\<close>

fun pchain :: "pool_state list \<Rightarrow> u16 option \<Rightarrow> nat list \<Rightarrow> bool" where
  "pchain sts None ks \<longleftrightarrow> ks = []"
| "pchain sts (Some h) [] \<longleftrightarrow> False"
| "pchain sts (Some h) (k # ks) \<longleftrightarrow>
     k = unat h \<and> k < length sts \<and> (\<exists>n nx. sts ! k = PFree n nx \<and> pchain sts nx ks)"

definition pool_inv :: "'n pool \<Rightarrow> bool" where
  "pool_inv p \<longleftrightarrow> length (pl_iovecs p) = length (pl_states p) \<and> length (pl_states p) \<le> max_bufs
   \<and> (\<exists>L. (\<forall>cap. pchain (pl_states p) (pl_free p cap) (L cap)
          \<and> (\<forall>k \<in> set (L cap). iov_len (pl_iovecs p ! k) = cap))
      \<and> (\<forall>k < length (pl_states p). pl_states p ! k \<noteq> PCheckedOut \<longrightarrow> k \<in> set (L (iov_len (pl_iovecs p ! k)))))"

definition pool_lent :: "'n pool \<Rightarrow> nat set" where
  "pool_lent p = {k. k < length (pl_states p) \<and> pl_states p ! k = PCheckedOut}"

definition registry_inv :: "registry \<Rightarrow> bool" where
  "registry_inv r \<longleftrightarrow> length (rg_iovecs r) = length (rg_states r) \<and> length (rg_states r) \<le> max_bufs"

definition registry_lent :: "registry \<Rightarrow> nat set" where
  "registry_lent r = {k. k < length (rg_states r) \<and> rg_states r ! k = RCheckedOut}"

lemma pchain_unique: "pchain sts h ks \<Longrightarrow> pchain sts h ks' \<Longrightarrow> ks = ks'"
proof (induction ks arbitrary: h ks')
  case Nil
  then show ?case by (cases h) auto
next
  case (Cons k ks)
  then show ?case by (cases h; cases ks') auto
qed

lemma pchain_suffix: "pchain sts h (xs @ k # ys) \<Longrightarrow> \<exists>h'. pchain sts (Some h') (k # ys) \<and> unat h' = k"
proof (induction xs arbitrary: h)
  case Nil
  then show ?case by (cases h) auto
next
  case (Cons x xs)
  then show ?case by (cases h) auto
qed

lemma pchain_distinct: "pchain sts h ks \<Longrightarrow> distinct ks"
proof (induction ks arbitrary: h)
  case (Cons k ks)
  then obtain g n nx where h: "h = Some g" "k = unat g" "sts ! k = PFree n nx" "pchain sts nx ks"
    by (cases h) auto
  have "k \<notin> set ks"
  proof
    assume "k \<in> set ks"
    then obtain xs ys where ks: "ks = xs @ k # ys" by (meson split_list)
    with h(4) obtain g' where "pchain sts (Some g') (k # ys)" "unat g' = k" by (auto dest: pchain_suffix)
    then have "pchain sts (Some g) (k # ys)" using h(2) by (metis unsigned_word_eqI)
    then have "k # ys = k # ks" using Cons.prems h(1) by (blast dest: pchain_unique)
    with ks show False by auto
  qed
  with Cons.IH [OF h(4)] show ?case by simp
qed simp

lemma pchain_free: "pchain sts h ks \<Longrightarrow> k \<in> set ks \<Longrightarrow> k < length sts \<and> sts ! k \<noteq> PCheckedOut"
proof (induction ks arbitrary: h)
  case (Cons x ks)
  then show ?case by (cases h) auto
qed simp

lemma pchain_upd: "k \<notin> set ks \<Longrightarrow> pchain (sts[k := s]) h ks = pchain sts h ks"
proof (induction ks arbitrary: h)
  case Nil
  then show ?case by (cases h) auto
next
  case (Cons x ks)
  then show ?case by (cases h) auto
qed

lemma pchain_append: "pchain sts h ks \<Longrightarrow> pchain (sts @ ss) h ks"
proof (induction ks arbitrary: h)
  case Nil
  then show ?case by (cases h) auto
next
  case (Cons x ks)
  then show ?case by (cases h) (auto simp: nth_append)
qed

lemma index_u16: "i < max_bufs \<Longrightarrow> unat (of_nat i :: u16) = i"
  by (simp add: max_bufs_def UIO_MAXIOV_def unat_of_nat take_bit_eq_mod)

lemma pool_inv_obtain:
  assumes "pool_inv p"
  obtains L where "\<And>cap. pchain (pl_states p) (pl_free p cap) (L cap)"
    and "\<And>cap k. k \<in> set (L cap) \<Longrightarrow> iov_len (pl_iovecs p ! k) = cap"
    and "\<And>k. k < length (pl_states p) \<Longrightarrow> pl_states p ! k \<noteq> PCheckedOut \<Longrightarrow> k \<in> set (L (iov_len (pl_iovecs p ! k)))"
    and "length (pl_iovecs p) = length (pl_states p)" and "length (pl_states p) \<le> max_bufs"
  using assms unfolding pool_inv_def by blast

lemma pool_invI:
  assumes "length (pl_iovecs p) = length (pl_states p)" and "length (pl_states p) \<le> max_bufs"
    and "\<And>cap. pchain (pl_states p) (pl_free p cap) (L cap)"
    and "\<And>cap k. k \<in> set (L cap) \<Longrightarrow> iov_len (pl_iovecs p ! k) = cap"
    and "\<And>k. k < length (pl_states p) \<Longrightarrow> pl_states p ! k \<noteq> PCheckedOut \<Longrightarrow> k \<in> set (L (iov_len (pl_iovecs p ! k)))"
  shows "pool_inv p"
  using assms unfolding pool_inv_def by blast

section \<open>The operations of the pool\<close>

text \<open>Making the next buffer the head of the list of its capacity.\<close>

lemma pool_link:
  assumes inv: "pool_inv p" and sts: "pl_states p' = pl_states p @ [PFree n (pl_free p cap)]"
    and iov: "pl_iovecs p' = pl_iovecs p @ [v]" and cap: "iov_len v = cap"
    and free: "pl_free p' = (pl_free p)(cap \<mapsto> of_nat (length (pl_states p)))"
    and len: "length (pl_states p) < max_bufs"
  shows "pool_inv p'"
proof -
  let ?n = "length (pl_states p)"
  from pool_inv_obtain [OF inv] obtain L where
    L: "\<And>cap. pchain (pl_states p) (pl_free p cap) (L cap)"
      "\<And>cap k. k \<in> set (L cap) \<Longrightarrow> iov_len (pl_iovecs p ! k) = cap"
      "\<And>k. k < ?n \<Longrightarrow> pl_states p ! k \<noteq> PCheckedOut \<Longrightarrow> k \<in> set (L (iov_len (pl_iovecs p ! k)))"
      "length (pl_iovecs p) = ?n" by metis
  have lt: "k < ?n" if "k \<in> set (L c)" for k c using pchain_free [OF L(1) that] by simp
  show ?thesis
  proof (rule pool_invI [where L = "L(cap := ?n # L cap)"])
    show "pchain (pl_states p') (pl_free p' c) ((L(cap := ?n # L cap)) c)" for c
      using pchain_append [OF L(1), where ss = "[PFree n (pl_free p cap)]"] len
      by (auto simp: sts free index_u16 nth_append)
    show "iov_len (pl_iovecs p' ! k) = c" if "k \<in> set ((L(cap := ?n # L cap)) c)" for c k
      using that L(2) lt cap L(4) by (auto simp: iov nth_append split: if_splits)
    show "k \<in> set ((L(cap := ?n # L cap)) (iov_len (pl_iovecs p' ! k)))"
      if "k < length (pl_states p')" "pl_states p' ! k \<noteq> PCheckedOut" for k
      using that L(3) [of k] cap L(4) by (cases "k = ?n") (auto simp: sts iov nth_append split: if_splits)
  qed (use L(4) len in \<open>auto simp: sts iov\<close>)
qed

lemma pool_add_inv:
  "pool_inv p \<Longrightarrow> i = length (pl_states p) \<Longrightarrow> length (pl_states p) + length bs \<le> max_bufs \<Longrightarrow>
   pool_inv (pool_add i bs p) \<and> length (pl_states (pool_add i bs p)) = i + length bs
   \<and> pool_lent (pool_add i bs p) = pool_lent p"
proof (induction bs arbitrary: i p)
  case (Cons b bs)
  let ?cap = "buffer_bytes_total b"
  let ?p = "p\<lparr>pl_iovecs := pl_iovecs p @ [mk_iovec (buffer_stable_ptr b) ?cap],
      pl_free := (pl_free p)(?cap \<mapsto> of_nat i), pl_states := pl_states p @ [PFree (buffer_bytes_init b) (pl_free p ?cap)]\<rparr>"
  have "pool_inv ?p"
    by (rule pool_link [OF Cons.prems(1), where cap = ?cap]) (use Cons.prems in \<open>auto simp: mk_iovec_def\<close>)
  moreover have "pool_lent ?p = pool_lent p" by (auto simp: pool_lent_def nth_append less_Suc_eq)
  ultimately show ?case using Cons.IH [of ?p "Suc i"] Cons.prems by (simp add: Let_def)
qed simp

lemma pool_new_inv:
  fixes p :: "'n pool"
  assumes "p = pool_new bufs"
  shows "pool_inv p \<and> pool_lent p = {} \<and> length (pl_states p) = min max_bufs (length bufs)"
proof -
  let ?p = "\<lparr>pl_iovecs = [], pl_states = [], pl_free = Map.empty, pl_notify = Map.empty,
        pl_buffers = take max_bufs bufs\<rparr> :: 'n pool"
  have "pool_inv ?p" by (rule pool_invI [where L = "\<lambda>c. []"]) auto
  from pool_add_inv [OF this, of 0 "take max_bufs bufs"] show ?thesis
    by (simp add: assms pool_new_def Let_def pool_lent_def min.commute)
qed

text \<open>\<^verbatim>\<open>try_next\<close> never panics, fails exactly when no free buffer has the capacity, and otherwise
  takes one that was free.\<close>

lemma pool_try_next_ok:
  assumes inv: "pool_inv p"
  shows "(pool_try_next cap p = Inr (None, p)
      \<and> (\<forall>k < length (pl_states p). iov_len (pl_iovecs p ! k) = cap \<longrightarrow> k \<in> pool_lent p))
    \<or> (\<exists>n k p'. pool_try_next cap p = Inr (Some (pl_iovecs p ! k, n, k), p') \<and> k < length (pl_states p)
        \<and> iov_len (pl_iovecs p ! k) = cap \<and> k \<notin> pool_lent p \<and> (\<exists>nx. pl_states p ! k = PFree n nx)
        \<and> pool_inv p' \<and> pool_lent p' = insert k (pool_lent p)
        \<and> pl_states p' = (pl_states p)[k := PCheckedOut] \<and> pl_iovecs p' = pl_iovecs p
        \<and> pl_notify p' = pl_notify p)"
proof -
  from pool_inv_obtain [OF inv] obtain L where
    L: "\<And>cap. pchain (pl_states p) (pl_free p cap) (L cap)"
      "\<And>cap k. k \<in> set (L cap) \<Longrightarrow> iov_len (pl_iovecs p ! k) = cap"
      "\<And>k. k < length (pl_states p) \<Longrightarrow> pl_states p ! k \<noteq> PCheckedOut \<Longrightarrow> k \<in> set (L (iov_len (pl_iovecs p ! k)))"
      "length (pl_iovecs p) = length (pl_states p)" "length (pl_states p) \<le> max_bufs" by metis
  show ?thesis
  proof (cases "pl_free p cap")
    case None
    then have "L cap = []" using L(1) [of cap] by simp
    then have "\<forall>k < length (pl_states p). iov_len (pl_iovecs p ! k) = cap \<longrightarrow> k \<in> pool_lent p"
      using L(3) by (force simp: pool_lent_def)
    then show ?thesis using None by (simp add: pool_try_next_def)
  next
    case (Some h)
    let ?k = "unat h"
    obtain ks n nx where k: "L cap = ?k # ks" "?k < length (pl_states p)" "pl_states p ! ?k = PFree n nx"
      "pchain (pl_states p) nx ks"
      using L(1) [of cap] Some by (cases "L cap") auto
    let ?p = "p\<lparr>pl_states := (pl_states p)[?k := PCheckedOut], pl_free := (pl_free p)(cap := nx)\<rparr>"
    have kc: "iov_len (pl_iovecs p ! ?k) = cap" using L(2) [of ?k cap] k(1) by simp
    have nin: "?k \<notin> set ks" using pchain_distinct [OF L(1) [of cap]] k(1) by simp
    have other: "?k \<notin> set (L c)" if "c \<noteq> cap" for c using L(2) [of ?k c] kc that by auto
    have "pool_inv ?p"
    proof (rule pool_invI [where L = "L(cap := ks)"])
      show "pchain (pl_states ?p) (pl_free ?p c) ((L(cap := ks)) c)" for c
        using L(1) [of c] k(4) nin other by (simp add: pchain_upd)
      show "iov_len (pl_iovecs ?p ! j) = c" if "j \<in> set ((L(cap := ks)) c)" for c j
        using that L(2) k(1) by (auto split: if_splits)
      show "j \<in> set ((L(cap := ks)) (iov_len (pl_iovecs ?p ! j)))"
        if "j < length (pl_states ?p)" "pl_states ?p ! j \<noteq> PCheckedOut" for j
      proof -
        have "j \<noteq> ?k" using that k(2) by auto
        with L(3) [of j] that k(1) show ?thesis by (auto split: if_splits)
      qed
    qed (use L(4,5) in auto)
    moreover have "pool_lent ?p = insert ?k (pool_lent p)"
      using k(2) by (auto simp: pool_lent_def nth_list_update)
    moreover have "?k \<notin> pool_lent p" using k(3) by (simp add: pool_lent_def)
    ultimately show ?thesis using Some k kc L(4)
      by (auto simp: pool_try_next_def Let_def)
  qed
qed

lemma pool_check_in_ok:
  assumes inv: "pool_inv p" and k: "k \<in> pool_lent p"
  obtains p' where "pool_check_in napi k n p = Inr p'" and "pool_inv p'" and "pool_lent p' = pool_lent p - {k}"
    and "pl_free p' (iov_len (pl_iovecs p ! k)) = Some (of_nat k)"
    and "\<exists>nx. pl_states p' = (pl_states p)[k := PFree n nx]" and "pl_iovecs p' = pl_iovecs p"
    and "pl_notify p' = (pl_notify p)(iov_len (pl_iovecs p ! k) :=
           map_option (n_notify_one napi) (pl_notify p (iov_len (pl_iovecs p ! k))))"
proof -
  from pool_inv_obtain [OF inv] obtain L where
    L: "\<And>cap. pchain (pl_states p) (pl_free p cap) (L cap)"
      "\<And>cap k. k \<in> set (L cap) \<Longrightarrow> iov_len (pl_iovecs p ! k) = cap"
      "\<And>k. k < length (pl_states p) \<Longrightarrow> pl_states p ! k \<noteq> PCheckedOut \<Longrightarrow> k \<in> set (L (iov_len (pl_iovecs p ! k)))"
      "length (pl_iovecs p) = length (pl_states p)" "length (pl_states p) \<le> max_bufs" by metis
  let ?cap = "iov_len (pl_iovecs p ! k)"
  have lt: "k < length (pl_states p)" "pl_states p ! k = PCheckedOut" using k by (auto simp: pool_lent_def)
  have nin: "k \<notin> set (L c)" for c using pchain_free [OF L(1)] lt by auto
  have ku: "unat (of_nat k :: u16) = k" using lt(1) L(5) by (intro index_u16) simp
  obtain q where q: "pool_check_in napi k n p = Inr q" "pl_iovecs q = pl_iovecs p"
    "pl_free q = (pl_free p)(?cap \<mapsto> of_nat k)" "pl_states q = (pl_states p)[k := PFree n (pl_free p ?cap)]"
    "pl_notify q = (pl_notify p)(?cap := map_option (n_notify_one napi) (pl_notify p ?cap))"
  proof (cases "pl_notify p ?cap")
    case None
    then have "(pl_notify p)(?cap := None) = pl_notify p" by auto
    with None that lt(1) L(4) show ?thesis by (simp add: pool_check_in_def Let_def)
  next
    case (Some x)
    with that lt(1) L(4) show ?thesis by (simp add: pool_check_in_def Let_def)
  qed
  have "pool_inv q"
  proof (rule pool_invI [where L = "L(?cap := k # L ?cap)"])
    show "pchain (pl_states q) (pl_free q c) ((L(?cap := k # L ?cap)) c)" for c
      using L(1) [of c] L(1) [of ?cap] nin lt ku by (simp add: q pchain_upd)
    show "iov_len (pl_iovecs q ! j) = c" if "j \<in> set ((L(?cap := k # L ?cap)) c)" for c j
      using that L(2) by (auto simp: q split: if_splits)
    show "j \<in> set ((L(?cap := k # L ?cap)) (iov_len (pl_iovecs q ! j)))"
      if "j < length (pl_states q)" "pl_states q ! j \<noteq> PCheckedOut" for j
      using that L(3) [of j] by (cases "j = k") (auto simp: q split: if_splits)
  qed (use L(4,5) in \<open>auto simp: q\<close>)
  moreover have "pool_lent q = pool_lent p - {k}"
    using lt by (auto simp: pool_lent_def q nth_list_update)
  moreover have "\<exists>nx. pl_states q = (pl_states p)[k := PFree n nx]" using q(4) by blast
  ultimately show ?thesis using q by (intro that [of q]) simp_all
qed

section \<open>The promise of a collection\<close>

text \<open>
  Clients of a collection: each step asks for a buffer or drops the handle of one that is held.
  The list of handles outstanding is kept beside the collection.
\<close>

datatype 'k coll_op = Out 'k | In nat nat

primrec coll_run ::
  "('k \<Rightarrow> 's \<Rightarrow> (nat option \<times> 's) exec) \<Rightarrow> (nat \<Rightarrow> nat \<Rightarrow> 's \<Rightarrow> 's exec) \<Rightarrow> 'k coll_op list
   \<Rightarrow> 's \<Rightarrow> nat list \<Rightarrow> ('s \<times> nat list) exec" where
  "coll_run out inn [] s held = Inr (s, held)"
| "coll_run out inn (c # cs) s held =
     (case c of
        Out k \<Rightarrow> bind_exec (out k s) (\<lambda>(r, s').
          coll_run out inn cs s' (case r of None \<Rightarrow> held | Some i \<Rightarrow> i # held))
      | In i n \<Rightarrow>
          if i \<in> set held then bind_exec (inn i n s) (\<lambda>s'. coll_run out inn cs s' (remove1 i held))
          else coll_run out inn cs s held)"

locale buf_collection =
  fixes out :: "'k \<Rightarrow> 's \<Rightarrow> (nat option \<times> 's) exec"
    and inn :: "nat \<Rightarrow> nat \<Rightarrow> 's \<Rightarrow> 's exec"
    and lent :: "'s \<Rightarrow> nat set"
    and inv :: "'s \<Rightarrow> bool"
    and valid :: "'k \<Rightarrow> 's \<Rightarrow> bool"
  assumes out_ok: "inv s \<Longrightarrow> valid k s \<Longrightarrow> \<exists>r s'. out k s = Inr (r, s') \<and> inv s' \<and> (\<forall>k'. valid k' s \<longrightarrow> valid k' s')
      \<and> (case r of None \<Rightarrow> s' = s | Some i \<Rightarrow> i \<notin> lent s \<and> lent s' = insert i (lent s))"
    and in_ok: "inv s \<Longrightarrow> i \<in> lent s \<Longrightarrow> \<exists>s'. inn i n s = Inr s' \<and> inv s' \<and> lent s' = lent s - {i}
      \<and> (\<forall>k'. valid k' s \<longrightarrow> valid k' s')"
begin

text \<open>No buffer is ever in two hands, nothing panics, and what is not held is available again.\<close>

lemma run_exclusive:
  assumes "inv s" and "distinct held" and "set held = lent s"
    and "\<And>k. Out k \<in> set cs \<Longrightarrow> valid k s"
  shows "\<exists>s' held'. coll_run out inn cs s held = Inr (s', held') \<and> inv s' \<and> distinct held' \<and> set held' = lent s'"
  using assms
proof (induction cs arbitrary: s held)
  case (Cons c cs)
  show ?case
  proof (cases c)
    case (Out k)
    from out_ok [OF Cons.prems(1), of k] Cons.prems(4) Out obtain r s1 where
      o: "out k s = Inr (r, s1)" "inv s1" "\<And>k'. valid k' s \<Longrightarrow> valid k' s1"
        "case r of None \<Rightarrow> s1 = s | Some i \<Rightarrow> i \<notin> lent s \<and> lent s1 = insert i (lent s)" by auto
    have "distinct (case r of None \<Rightarrow> held | Some i \<Rightarrow> i # held)"
      "set (case r of None \<Rightarrow> held | Some i \<Rightarrow> i # held) = lent s1"
      using o(4) Cons.prems(2,3) by (auto split: option.splits)
    with Cons.IH [OF o(2), of "case r of None \<Rightarrow> held | Some i \<Rightarrow> i # held"] o(1,3) Out Cons.prems(4)
    show ?thesis by simp
  next
    case (In i n)
    show ?thesis
    proof (cases "i \<in> set held")
      case True
      with in_ok [OF Cons.prems(1), of i n] Cons.prems(3) obtain s1 where
        s1: "inn i n s = Inr s1" "inv s1" "lent s1 = lent s - {i}" "\<And>k'. valid k' s \<Longrightarrow> valid k' s1" by auto
      with Cons.IH [OF s1(2), of "remove1 i held"] True Cons.prems In show ?thesis by simp
    next
      case False
      with Cons.IH [OF Cons.prems(1-3)] Cons.prems(4) In show ?thesis by simp
    qed
  qed
qed auto

end

definition pool_out :: "nat \<Rightarrow> 'n pool \<Rightarrow> (nat option \<times> 'n pool) exec" where
  "pool_out cap p = bind_exec (pool_try_next cap p) (\<lambda>(r, p'). Inr (map_option (\<lambda>(v, n, i). i) r, p'))"

definition registry_out :: "nat \<Rightarrow> registry \<Rightarrow> (nat option \<times> registry) exec" where
  "registry_out index r = bind_exec (registry_check_out index r) (\<lambda>(x, r'). Inr (map_option (\<lambda>_. index) x, r'))"

interpretation pool_coll: buf_collection pool_out "pool_check_in napi" pool_lent pool_inv "\<lambda>cap p. True"
proof
  fix s :: "'a pool" and k i n
  assume inv: "pool_inv s"
  show "\<exists>r s'. pool_out k s = Inr (r, s') \<and> pool_inv s' \<and> (\<forall>k' :: nat. True \<longrightarrow> True)
      \<and> (case r of None \<Rightarrow> s' = s | Some i \<Rightarrow> i \<notin> pool_lent s \<and> pool_lent s' = insert i (pool_lent s))"
    using pool_try_next_ok [OF inv, of k] inv by (auto simp: pool_out_def)
  show "\<exists>s'. pool_check_in napi i n s = Inr s' \<and> pool_inv s' \<and> pool_lent s' = pool_lent s - {i}
      \<and> (\<forall>k' :: nat. True \<longrightarrow> True)" if "i \<in> pool_lent s"
    using pool_check_in_ok [OF inv that, of napi n] by metis
qed

interpretation registry_coll: buf_collection registry_out registry_check_in registry_lent registry_inv
  "\<lambda>index r. index < length (rg_states r)"
proof
  fix s :: registry and k i n
  assume inv: "registry_inv s"
  show "\<exists>r s'. registry_out k s = Inr (r, s') \<and> registry_inv s' \<and> (\<forall>k'. k' < length (rg_states s) \<longrightarrow> k' < length (rg_states s'))
      \<and> (case r of None \<Rightarrow> s' = s | Some i \<Rightarrow> i \<notin> registry_lent s \<and> registry_lent s' = insert i (registry_lent s))"
    if "k < length (rg_states s)"
    using that inv
    by (cases "rg_states s ! k")
       (auto simp: registry_out_def registry_check_out_def registry_inv_def registry_lent_def nth_list_update)
  show "\<exists>s'. registry_check_in i n s = Inr s' \<and> registry_inv s' \<and> registry_lent s' = registry_lent s - {i}
      \<and> (\<forall>k'. k' < length (rg_states s) \<longrightarrow> k' < length (rg_states s'))" if "i \<in> registry_lent s"
    using that inv by (auto simp: registry_check_in_def registry_inv_def registry_lent_def nth_list_update)
qed

section \<open>Handles check their buffer in\<close>

lemma fixed_pool_roundtrip:
  assumes inv: "pool_inv p" and eq: "fixed_pool_try_next me at cap p = Inr (Some b, p1)"
    and n: "n \<le> cap"
  shows "\<exists>p2 k nx. buffer_drop (fixed_impl TyPoolBuf) (fixed_pool_buf_drop napi) (buffer_set_init n b) p1 = Inr p2
    \<and> pool_inv p2 \<and> pool_lent p2 = pool_lent p \<and> k \<notin> pool_lent p \<and> pl_states p2 ! k = PFree n nx
    \<and> buffer_bytes_total b = cap \<and> buffer_stable_ptr b = iov_base (pl_iovecs p ! k)"
proof -
  from eq obtain v m k where t: "pool_try_next cap p = Inr (Some (v, m, k), p1)"
    and b: "buffer_new (fixed_impl TyPoolBuf) at
      \<lparr>fb_iovec = v, fb_init_len = m, fb_info = Some (PoolInfo me (of_nat k))\<rparr> = Inr b"
    by (auto simp: fixed_pool_try_next_def bind_exec_eq_Inr split: option.splits)
  from pool_try_next_ok [OF inv, of cap] t have k: "v = pl_iovecs p ! k" "k < length (pl_states p)"
    "iov_len v = cap" "k \<notin> pool_lent p" "pool_inv p1" "pool_lent p1 = insert k (pool_lent p)"
    "pl_states p1 = (pl_states p)[k := PCheckedOut]" by auto
  have ku: "unat (of_nat k :: u16) = k"
    using k(2) pool_inv_obtain [OF inv] by (metis index_u16 order_less_le_trans)
  from b have b': "b = \<lparr>bf_iovec = [mk_iovec (iov_base v) m], bf_iovec_ptr = at, bf_cap = [cap],
      bf_user_data = PoolInfo me (of_nat k), bf_ty = TyPoolBuf\<rparr>"
    using k(3) by (simp add: buffer_new_def fixed_impl_def)
  have drop: "buffer_drop (fixed_impl TyPoolBuf) (fixed_pool_buf_drop napi) (buffer_set_init n b) p1 = pool_check_in napi k n p1"
    using n by (simp add: b' buffer_drop_def buffer_set_init_def raw_parts_of_def fixed_impl_def
        fixed_pool_buf_drop_def ku mk_iovec_def min_def)
  have "k \<in> pool_lent p1" using k(6) by simp
  from pool_check_in_ok [OF k(5) this, of napi n] obtain p2 nx where
    "pool_check_in napi k n p1 = Inr p2" "pool_inv p2" "pool_lent p2 = pool_lent p1 - {k}"
    "pl_states p2 = (pl_states p1)[k := PFree n nx]" by metis
  moreover from this have "pl_states p2 ! k = PFree n nx" using k(2,7) by simp
  moreover have "buffer_bytes_total b = cap" "buffer_stable_ptr b = iov_base (pl_iovecs p ! k)"
    using b' k(1) by (simp_all add: buffer_bytes_total_def buffer_stable_ptr_def mk_iovec_def)
  ultimately show ?thesis using drop k(4,6) by auto
qed

end
