(* ===== verification/Pool_Next.thy ===== *)
theory Pool_Next
  imports Fixed_Bufs
begin

text \<open>
  \<^verbatim>\<open>FixedBufPool::next\<close> of \<^verbatim>\<open>src/src/buf/fixed/pool.rs\<close>: a task that finds no buffer of the
  capacity it wants waits on the \<^verbatim>\<open>Notify\<close> of that capacity. Tasks run on one thread, so each
  poll of the future is one step; the steps of the tasks, of clients that call \<^verbatim>\<open>try_next\<close> or
  drop a buffer and of tasks whose future is dropped interleave in any order. The invariant
  \<open>psys_inv\<close> excludes lost wake-ups: while a task waits without having been notified, every free
  buffer of its capacity is matched by a task that has been.
\<close>

section \<open>What tokio::sync::Notify promises\<close>

text \<open>
  The documented behaviour, over a view of the object: at most one permit; the futures that wait,
  in the order they were polled first; the futures that were notified and not polled since. A
  future that is dropped after it was notified passes the notification on.
\<close>

record notify_view =
  nv_permit :: bool
  nv_waiting :: "nat list"
  nv_woken :: "nat list"

fun view_notify_one :: "notify_view \<Rightarrow> notify_view" where
  "view_notify_one v =
     (case nv_waiting v of
        [] \<Rightarrow> v\<lparr>nv_permit := True\<rparr>
      | t # ts \<Rightarrow> v\<lparr>nv_waiting := ts, nv_woken := nv_woken v @ [t]\<rparr>)"

fun view_poll :: "nat \<Rightarrow> notify_view \<Rightarrow> bool \<times> notify_view" where
  "view_poll t v =
     (if t \<in> set (nv_woken v) then (True, v\<lparr>nv_woken := remove1 t (nv_woken v)\<rparr>)
      else if t \<in> set (nv_waiting v) then (False, v)
      else if nv_permit v then (True, v\<lparr>nv_permit := False\<rparr>)
      else (False, v\<lparr>nv_waiting := nv_waiting v @ [t]\<rparr>))"

fun view_drop :: "nat \<Rightarrow> notify_view \<Rightarrow> notify_view" where
  "view_drop t v =
     (if t \<in> set (nv_woken v) then view_notify_one (v\<lparr>nv_woken := remove1 t (nv_woken v)\<rparr>)
      else v\<lparr>nv_waiting := remove1 t (nv_waiting v)\<rparr>)"

definition no_waiters :: notify_view where
  "no_waiters = \<lparr>nv_permit = False, nv_waiting = [], nv_woken = []\<rparr>"

definition notify_ok :: "'n notify_api \<Rightarrow> ('n \<Rightarrow> notify_view) \<Rightarrow> bool" where
  "notify_ok napi vw \<longleftrightarrow>
     vw (n_default napi) = no_waiters
     \<and> (\<forall>n. vw (n_notify_one napi n) = view_notify_one (vw n))
     \<and> (\<forall>t n. fst (n_poll napi t n) = fst (view_poll t (vw n))
           \<and> vw (snd (n_poll napi t n)) = snd (view_poll t (vw n)))
     \<and> (\<forall>t n. vw (n_drop napi t n) = view_drop t (vw n))"

text \<open>The contract can be met: the object that is its own view.\<close>

definition view_api :: "notify_view notify_api" where
  "view_api = \<lparr>n_default = no_waiters, n_notify_one = view_notify_one, n_poll = view_poll, n_drop = view_drop\<rparr>"

lemma view_api_ok: "notify_ok view_api (\<lambda>v. v)"
  by (simp add: notify_ok_def view_api_def del: view_notify_one.simps view_poll.simps view_drop.simps)

section \<open>The future of next\<close>

text \<open>
  An entry of \<^verbatim>\<open>notify_next_by_cap\<close> is never removed, so the \<^verbatim>\<open>Arc<Notify>\<close> a future holds and the
  entry of its capacity are the same object.
\<close>

definition notify_of :: "'n notify_api \<Rightarrow> nat \<Rightarrow> 'n pool \<Rightarrow> 'n" where
  "notify_of napi cap p = (case pl_notify p cap of Some notify \<Rightarrow> notify | None \<Rightarrow> n_default napi)"

definition set_notify :: "nat \<Rightarrow> 'n \<Rightarrow> 'n pool \<Rightarrow> 'n pool" where
  "set_notify cap notify p = p\<lparr>pl_notify := (pl_notify p)(cap \<mapsto> notify)\<rparr>"

text \<open>
  One poll of \<^verbatim>\<open>next_when_notified\<close> by the task \<open>t\<close>: \<open>Pending\<close> at the \<^verbatim>\<open>await\<close>, or the buffer.
  A notified task that finds no buffer waits again with a new \<^verbatim>\<open>Notified\<close>.
\<close>

partial_function (option) next_when_notified ::
  "'n notify_api \<Rightarrow> nat \<Rightarrow> addr \<Rightarrow> nat \<Rightarrow> nat \<Rightarrow> 'n pool \<Rightarrow> (buffer poll \<times> 'n pool) exec option" where
  "next_when_notified napi me at t cap p =
     (case n_poll napi t (notify_of napi cap p) of (ready, notify) \<Rightarrow>
        let p1 = set_notify cap notify p in
        if ready then
          (case fixed_pool_try_next me at cap p1 of
             Inl e \<Rightarrow> Some (Inl e)
           | Inr (Some b, p2) \<Rightarrow> Some (Inr (Ready b, p2))
           | Inr (None, p2) \<Rightarrow> next_when_notified napi me at t cap p2)
        else Some (Inr (Pending, p1)))"

text \<open>The first poll of \<^verbatim>\<open>next\<close>: the fast path, then registration.\<close>

definition fixed_pool_next ::
  "'n notify_api \<Rightarrow> nat \<Rightarrow> addr \<Rightarrow> nat \<Rightarrow> nat \<Rightarrow> 'n pool \<Rightarrow> (buffer poll \<times> 'n pool) exec option" where
  "fixed_pool_next napi me at t cap p =
     (case fixed_pool_try_next me at cap p of
        Inl e \<Rightarrow> Some (Inl e)
      | Inr (Some b, p1) \<Rightarrow> Some (Inr (Ready b, p1))
      | Inr (None, p1) \<Rightarrow> next_when_notified napi me at t cap (pool_notify_on_next napi cap p1))"

text \<open>Dropping the future while it is at the \<^verbatim>\<open>await\<close>.\<close>

definition next_cancel :: "'n notify_api \<Rightarrow> nat \<Rightarrow> nat \<Rightarrow> 'n pool \<Rightarrow> 'n pool" where
  "next_cancel napi t cap p = set_notify cap (n_drop napi t (notify_of napi cap p)) p"

section \<open>Views\<close>

definition pool_view :: "'n notify_api \<Rightarrow> ('n \<Rightarrow> notify_view) \<Rightarrow> 'n pool \<Rightarrow> nat \<Rightarrow> notify_view" where
  "pool_view napi vw p cap = vw (notify_of napi cap p)"

definition free_of :: "nat \<Rightarrow> 'n pool \<Rightarrow> nat set" where
  "free_of cap p = {k. k < length (pl_states p) \<and> iov_len (pl_iovecs p ! k) = cap \<and> k \<notin> pool_lent p}"

lemma finite_free_of [simp]: "finite (free_of cap p)"
  by (rule finite_subset [of _ "{..<length (pl_states p)}"]) (auto simp: free_of_def)

lemma set_notify_fields [simp]:
  "pl_states (set_notify c n p) = pl_states p" "pl_iovecs (set_notify c n p) = pl_iovecs p"
  "pl_free (set_notify c n p) = pl_free p"
  by (simp_all add: set_notify_def)

lemma same_fields:
  assumes "pl_states q = pl_states p" "pl_iovecs q = pl_iovecs p"
  shows "pool_lent q = pool_lent p" "free_of c q = free_of c p"
  using assms by (simp_all add: pool_lent_def free_of_def)

lemma pool_inv_cong:
  assumes "pl_states q = pl_states p" "pl_iovecs q = pl_iovecs p" "pl_free q = pl_free p"
  shows "pool_inv q = pool_inv p"
  using assms by (simp add: pool_inv_def)

lemma notify_on_next_fields [simp]:
  "pl_states (pool_notify_on_next napi c p) = pl_states p" "pl_iovecs (pool_notify_on_next napi c p) = pl_iovecs p"
  "pl_free (pool_notify_on_next napi c p) = pl_free p"
  by (simp_all add: pool_notify_on_next_def split: option.split)

lemmas pool_frame [simp] =
  same_fields [OF set_notify_fields(1,2)] pool_inv_cong [OF set_notify_fields]
  same_fields [OF notify_on_next_fields(1,2)] pool_inv_cong [OF notify_on_next_fields]

lemma pool_view_set [simp]:
  "pool_view napi vw (set_notify c n p) = (pool_view napi vw p)(c := vw n)"
  by (auto simp: pool_view_def notify_of_def set_notify_def)

lemma pool_view_on_next [simp]: "pool_view napi vw (pool_notify_on_next napi c p) = pool_view napi vw p"
  by (auto simp: pool_view_def notify_of_def pool_notify_on_next_def split: option.split)

section \<open>One poll\<close>

lemma free_of_take:
  "k \<in> free_of cap p \<Longrightarrow> pl_states q = (pl_states p)[k := PCheckedOut] \<Longrightarrow> pl_iovecs q = pl_iovecs p \<Longrightarrow>
   free_of c q = free_of c p - {k}"
  by (auto simp: free_of_def pool_lent_def nth_list_update)

lemma free_of_return:
  "k \<in> pool_lent p \<Longrightarrow> pl_states q = (pl_states p)[k := PFree n nx] \<Longrightarrow> pl_iovecs q = pl_iovecs p \<Longrightarrow>
   free_of c q = (if c = iov_len (pl_iovecs p ! k) then insert k (free_of c p) else free_of c p)"
  by (auto simp: free_of_def pool_lent_def nth_list_update split: if_splits)

lemma buffer_bytes_total_fixed:
  "buffer_new (fixed_impl TyPoolBuf) at \<lparr>fb_iovec = v, fb_init_len = n, fb_info = Some u\<rparr> = Inr b \<Longrightarrow>
   buffer_bytes_total b = iov_len v"
  by (auto simp: buffer_new_def fixed_impl_def buffer_bytes_total_def)

lemma fixed_try_next_cases:
  assumes "pool_inv p"
  obtains (none) "fixed_pool_try_next me at cap p = Inr (None, p)" and "free_of cap p = {}"
    | (some) b k q where "fixed_pool_try_next me at cap p = Inr (Some b, q)" and "k \<in> free_of cap p"
        and "pool_inv q" and "pool_lent q = insert k (pool_lent p)" and "\<And>c. free_of c q = free_of c p - {k}"
        and "\<And>napi vw. pool_view napi vw q = pool_view napi vw p" and "buffer_bytes_total b = cap"
proof (cases "pool_try_next cap p = Inr (None, p)")
  case True
  with pool_try_next_ok [OF assms, of cap] have "free_of cap p = {}" by (auto simp: free_of_def)
  with True show ?thesis by (intro none) (simp_all add: fixed_pool_try_next_def)
next
  case False
  with pool_try_next_ok [OF assms, of cap] obtain n k q where
    q: "pool_try_next cap p = Inr (Some (pl_iovecs p ! k, n, k), q)" "k < length (pl_states p)"
      "iov_len (pl_iovecs p ! k) = cap" "k \<notin> pool_lent p" "pool_inv q" "pool_lent q = insert k (pool_lent p)"
      "pl_states q = (pl_states p)[k := PCheckedOut]" "pl_iovecs q = pl_iovecs p" "pl_notify q = pl_notify p"
    by auto
  have k: "k \<in> free_of cap p" using q by (simp add: free_of_def)
  obtain b where b: "buffer_new (fixed_impl TyPoolBuf) at
      \<lparr>fb_iovec = pl_iovecs p ! k, fb_init_len = n, fb_info = Some (PoolInfo me (of_nat k))\<rparr> = Inr b"
    by (simp add: buffer_new_def fixed_impl_def)
  have "pool_view napi vw q = pool_view napi vw p" for napi and vw :: "_ \<Rightarrow> notify_view"
    by (rule ext) (simp add: pool_view_def notify_of_def q)
  with q k b buffer_bytes_total_fixed [OF b] show ?thesis
    by (intro some [of b q k]) (simp_all add: fixed_pool_try_next_def free_of_take)
qed

text \<open>What is kept of each capacity: \<open>S\<close> are the tasks that wait for it, \<open>f\<close> the free buffers.\<close>

definition cap_ok :: "notify_view \<Rightarrow> nat set \<Rightarrow> nat \<Rightarrow> bool" where
  "cap_ok v S f \<longleftrightarrow> distinct (nv_waiting v @ nv_woken v) \<and> set (nv_waiting v @ nv_woken v) = S
     \<and> (nv_waiting v \<noteq> [] \<longrightarrow> \<not> nv_permit v \<and> f \<le> length (nv_woken v))"

lemma poll_view:
  assumes "notify_ok napi vw" and "n_poll napi t (notify_of napi cap p) = (r, n)"
  shows "view_poll t (pool_view napi vw p cap) = (r, vw n)"
  using assms by (auto simp: notify_ok_def pool_view_def prod_eq_iff simp del: view_poll.simps)

text \<open>A task that is not queued and finds no buffer ends up queued, a stored permit being used up.\<close>

lemma next_enqueues:
  assumes ok: "notify_ok napi vw" and inv: "pool_inv p" and f: "free_of cap p = {}"
    and t: "t \<notin> set (nv_waiting (pool_view napi vw p cap) @ nv_woken (pool_view napi vw p cap))"
  obtains q where "next_when_notified napi me at t cap p = Some (Inr (Pending, q))" and "pool_inv q"
    and "pool_lent q = pool_lent p" and "\<And>c. free_of c q = free_of c p"
    and "pool_view napi vw q = (pool_view napi vw p)(cap := (pool_view napi vw p cap)
           \<lparr>nv_permit := False, nv_waiting := nv_waiting (pool_view napi vw p cap) @ [t]\<rparr>)"
proof -
  note queued = that
  have base: thesis if p0: "pool_inv p0" "free_of cap p0 = {}" "pool_lent p0 = pool_lent p" "\<And>c. free_of c p0 = free_of c p"
      "pool_view napi vw p0 = (pool_view napi vw p)(cap := (pool_view napi vw p cap)\<lparr>nv_permit := False\<rparr>)"
      and eq: "next_when_notified napi me at t cap p = next_when_notified napi me at t cap p0" for p0
  proof -
    obtain r n where n: "n_poll napi t (notify_of napi cap p0) = (r, n)" by fastforce
    from poll_view [OF ok n] t p0(5) have r: "\<not> r" and
      v: "vw n = (pool_view napi vw p cap)\<lparr>nv_permit := False, nv_waiting := nv_waiting (pool_view napi vw p cap) @ [t]\<rparr>"
      by (auto split: if_splits)
    from n r have "next_when_notified napi me at t cap p0 = Some (Inr (Pending, set_notify cap n p0))"
      by (simp add: next_when_notified.simps [of napi me at t cap p0] Let_def)
    with eq p0 v show thesis by (intro queued [of "set_notify cap n p0"]) simp_all
  qed
  show thesis
  proof (cases "nv_permit (pool_view napi vw p cap)")
    case False
    then have "(pool_view napi vw p cap)\<lparr>nv_permit := False\<rparr> = pool_view napi vw p cap" by simp
    then show thesis by (intro base [OF inv f refl refl _ refl]) simp
  next
    case True
    obtain r n where n: "n_poll napi t (notify_of napi cap p) = (r, n)" by fastforce
    from poll_view [OF ok n] t True have r: r and v: "vw n = (pool_view napi vw p cap)\<lparr>nv_permit := False\<rparr>"
      by (auto split: if_splits)
    from inv have inv': "pool_inv (set_notify cap n p)" by simp
    have "fixed_pool_try_next me at cap (set_notify cap n p) = Inr (None, set_notify cap n p)"
      by (rule fixed_try_next_cases [OF inv', of me at cap]) (use f in auto)
    then have "next_when_notified napi me at t cap p = next_when_notified napi me at t cap (set_notify cap n p)"
      using n r by (simp add: next_when_notified.simps [of napi me at t cap p] Let_def)
    with inv f v show thesis by (intro base [of "set_notify cap n p"]) simp_all
  qed
qed

text \<open>
  Polling a waiting task: nothing happens unless it was notified; a notified task takes a buffer
  when there is one and queues again when there is none.
\<close>

lemma poll_waiting:
  assumes ok: "notify_ok napi vw" and inv: "pool_inv p"
    and cok: "cap_ok (pool_view napi vw p cap) S (card (free_of cap p))" and t: "t \<in> S"
  obtains (pending) q where "next_when_notified napi me at t cap p = Some (Inr (Pending, q))" and "pool_inv q"
      and "pool_lent q = pool_lent p" and "\<And>c. free_of c q = free_of c p"
      and "\<And>c. c \<noteq> cap \<Longrightarrow> pool_view napi vw q c = pool_view napi vw p c"
      and "cap_ok (pool_view napi vw q cap) S (card (free_of cap q))"
      and "t \<notin> set (nv_woken (pool_view napi vw p cap)) \<or> free_of cap p = {}"
    | (ready) b k q where "next_when_notified napi me at t cap p = Some (Inr (Ready b, q))" and "pool_inv q"
      and "k \<in> free_of cap p" and "\<And>c. free_of c q = free_of c p - {k}" and "pool_lent q = insert k (pool_lent p)"
      and "\<And>c. c \<noteq> cap \<Longrightarrow> pool_view napi vw q c = pool_view napi vw p c"
      and "cap_ok (pool_view napi vw q cap) (S - {t}) (card (free_of cap q))"
      and "t \<in> set (nv_woken (pool_view napi vw p cap))" and "buffer_bytes_total b = cap"
proof -
  let ?v = "pool_view napi vw p cap"
  obtain r n where n: "n_poll napi t (notify_of napi cap p) = (r, n)" by fastforce
  show thesis
  proof (cases "t \<in> set (nv_woken ?v)")
    case False
    with t cok have "t \<in> set (nv_waiting ?v)" by (auto simp: cap_ok_def)
    with False poll_view [OF ok n] have "\<not> r" "vw n = ?v" by auto
    moreover from this n have "next_when_notified napi me at t cap p = Some (Inr (Pending, set_notify cap n p))"
      by (simp add: next_when_notified.simps [of napi me at t cap p] Let_def)
    ultimately show thesis using inv cok False by (intro pending [of "set_notify cap n p"]) simp_all
  next
    case True
    from True poll_view [OF ok n] have r: r and v: "vw n = ?v\<lparr>nv_woken := remove1 t (nv_woken ?v)\<rparr>" by auto
    have tw: "t \<notin> set (nv_waiting ?v)" "t \<notin> set (remove1 t (nv_woken ?v))" "distinct (nv_woken ?v)"
      using cok True by (auto simp: cap_ok_def)
    let ?p1 = "set_notify cap n p"
    from inv have inv': "pool_inv ?p1" by simp
    show thesis
    proof (rule fixed_try_next_cases [OF inv', of me at cap])
      assume no: "fixed_pool_try_next me at cap ?p1 = Inr (None, ?p1)" "free_of cap ?p1 = {}"
      then have eq: "next_when_notified napi me at t cap p = next_when_notified napi me at t cap ?p1"
        using n r by (simp add: next_when_notified.simps [of napi me at t cap p] Let_def)
      show thesis
      proof (rule next_enqueues [OF ok inv' no(2), of t me at])
        show "t \<notin> set (nv_waiting (pool_view napi vw ?p1 cap) @ nv_woken (pool_view napi vw ?p1 cap))"
          using tw v by simp
        fix q
        assume q: "next_when_notified napi me at t cap ?p1 = Some (Inr (Pending, q))" "pool_inv q"
          "pool_lent q = pool_lent ?p1" "\<And>c. free_of c q = free_of c ?p1"
          "pool_view napi vw q = (pool_view napi vw ?p1)(cap := (pool_view napi vw ?p1 cap)
             \<lparr>nv_permit := False, nv_waiting := nv_waiting (pool_view napi vw ?p1 cap) @ [t]\<rparr>)"
        have "cap_ok (pool_view napi vw q cap) S (card (free_of cap q))"
          using cok tw True no(2) by (auto simp: cap_ok_def q v)
        with q eq no(2) show thesis by (intro pending [of q]) simp_all
      qed
    next
      fix b k q
      assume q: "fixed_pool_try_next me at cap ?p1 = Inr (Some b, q)" "k \<in> free_of cap ?p1" "pool_inv q"
        "pool_lent q = insert k (pool_lent ?p1)" "\<And>c. free_of c q = free_of c ?p1 - {k}"
        "\<And>napi vw. pool_view napi vw q = pool_view napi vw ?p1" "buffer_bytes_total b = cap"
      have "next_when_notified napi me at t cap p = Some (Inr (Ready b, q))"
        using n r q(1) by (simp add: next_when_notified.simps [of napi me at t cap p] Let_def)
      moreover have "cap_ok (pool_view napi vw q cap) (S - {t}) (card (free_of cap q))"
        using cok tw True q(2) by (auto simp: cap_ok_def q(5,6) v length_remove1)
      ultimately show thesis using q True by (intro ready [of b q k]) simp_all
    qed
  qed
qed

section \<open>Tasks and clients interleaved\<close>

text \<open>\<open>ps_pending\<close>: the tasks at the \<^verbatim>\<open>await\<close> of \<^verbatim>\<open>next_when_notified\<close>, and their capacities.\<close>

record 'n psys =
  ps_pool :: "'n pool"
  ps_pending :: "nat \<rightharpoonup> nat"

inductive psys_step :: "'n notify_api \<Rightarrow> nat \<Rightarrow> 'n psys \<Rightarrow> 'n psys \<Rightarrow> bool" for napi me where
  call_ready: "ps_pending s t = None \<Longrightarrow> fixed_pool_next napi me at t cap (ps_pool s) = Some (Inr (Ready b, p)) \<Longrightarrow>
    psys_step napi me s (s\<lparr>ps_pool := p\<rparr>)"
| call_waits: "ps_pending s t = None \<Longrightarrow> fixed_pool_next napi me at t cap (ps_pool s) = Some (Inr (Pending, p)) \<Longrightarrow>
    psys_step napi me s (s\<lparr>ps_pool := p, ps_pending := (ps_pending s)(t \<mapsto> cap)\<rparr>)"
| poll_ready: "ps_pending s t = Some cap \<Longrightarrow> next_when_notified napi me at t cap (ps_pool s) = Some (Inr (Ready b, p)) \<Longrightarrow>
    psys_step napi me s (s\<lparr>ps_pool := p, ps_pending := (ps_pending s)(t := None)\<rparr>)"
| poll_waits: "ps_pending s t = Some cap \<Longrightarrow> next_when_notified napi me at t cap (ps_pool s) = Some (Inr (Pending, p)) \<Longrightarrow>
    psys_step napi me s (s\<lparr>ps_pool := p\<rparr>)"
| cancel: "ps_pending s t = Some cap \<Longrightarrow>
    psys_step napi me s (s\<lparr>ps_pool := next_cancel napi t cap (ps_pool s), ps_pending := (ps_pending s)(t := None)\<rparr>)"
| try_next: "fixed_pool_try_next me at cap (ps_pool s) = Inr (r, p) \<Longrightarrow> psys_step napi me s (s\<lparr>ps_pool := p\<rparr>)"
| check_in: "k \<in> pool_lent (ps_pool s) \<Longrightarrow> pool_check_in napi k n (ps_pool s) = Inr p \<Longrightarrow>
    psys_step napi me s (s\<lparr>ps_pool := p\<rparr>)"

inductive_cases psys_stepE: "psys_step napi me s s'"

inductive psys_reach :: "'n notify_api \<Rightarrow> nat \<Rightarrow> buffer list \<Rightarrow> 'n psys \<Rightarrow> bool" for napi me bufs where
  start: "psys_reach napi me bufs \<lparr>ps_pool = pool_new bufs, ps_pending = Map.empty\<rparr>"
| step: "psys_reach napi me bufs s \<Longrightarrow> psys_step napi me s s' \<Longrightarrow> psys_reach napi me bufs s'"

definition psys_inv :: "'n notify_api \<Rightarrow> ('n \<Rightarrow> notify_view) \<Rightarrow> 'n psys \<Rightarrow> bool" where
  "psys_inv napi vw s \<longleftrightarrow> pool_inv (ps_pool s)
     \<and> (\<forall>cap. cap_ok (pool_view napi vw (ps_pool s) cap) {t. ps_pending s t = Some cap} (card (free_of cap (ps_pool s))))"

lemma psys_invI:
  assumes "pool_inv q" and "\<And>c. cap_ok (pool_view napi vw q c) {t. pd t = Some c} (card (free_of c q))"
  shows "psys_inv napi vw \<lparr>ps_pool = q, ps_pending = pd\<rparr>"
  using assms by (simp add: psys_inv_def)

lemma cap_ok_fewer: "cap_ok v S f \<Longrightarrow> f' \<le> f \<Longrightarrow> cap_ok v S f'"
  by (auto simp: cap_ok_def)

lemma cap_ok_notify: "cap_ok v S f \<Longrightarrow> cap_ok (view_notify_one v) S (Suc f)"
  by (auto simp: cap_ok_def split: list.split)

lemma cap_ok_drop: "cap_ok v S f \<Longrightarrow> t \<in> S \<Longrightarrow> cap_ok (view_drop t v) (S - {t}) f"
  by (auto simp: cap_ok_def length_remove1 split: list.split)

text \<open>Each step keeps the invariant.\<close>

lemma take_keeps:
  assumes "psys_inv napi vw \<lparr>ps_pool = p, ps_pending = pd\<rparr>" and "pool_inv q"
    and "\<And>c. free_of c q \<subseteq> free_of c p" and "pool_view napi vw q = pool_view napi vw p"
  shows "psys_inv napi vw \<lparr>ps_pool = q, ps_pending = pd\<rparr>"
proof (rule psys_invI)
  show "cap_ok (pool_view napi vw q c) {t. pd t = Some c} (card (free_of c q))" for c
  proof (rule cap_ok_fewer)
    show "cap_ok (pool_view napi vw q c) {t. pd t = Some c} (card (free_of c p))"
      using assms(1,4) by (simp add: psys_inv_def)
    show "card (free_of c q) \<le> card (free_of c p)" by (rule card_mono) (simp_all add: assms(3))
  qed
qed (rule assms(2))

lemma call_keeps:
  assumes ok: "notify_ok napi vw" and inv: "psys_inv napi vw \<lparr>ps_pool = p, ps_pending = pd\<rparr>" and t: "pd t = None"
    and eq: "fixed_pool_next napi me at t cap p = Some (Inr (r, q))"
  shows "psys_inv napi vw \<lparr>ps_pool = q, ps_pending = (case r of Ready b \<Rightarrow> pd | Pending \<Rightarrow> pd(t \<mapsto> cap))\<rparr>"
proof -
  from inv have pinv: "pool_inv p" and cok: "\<And>c. cap_ok (pool_view napi vw p c) {t. pd t = Some c} (card (free_of c p))"
    by (auto simp: psys_inv_def)
  show ?thesis
  proof (rule fixed_try_next_cases [OF pinv, of me at cap])
    fix b k q1
    assume "fixed_pool_try_next me at cap p = Inr (Some b, q1)" "pool_inv q1" "\<And>c. free_of c q1 = free_of c p - {k}"
      "\<And>napi vw. pool_view napi vw q1 = pool_view napi vw p"
    then show ?thesis using eq take_keeps [OF inv, of q1] by (auto simp: fixed_pool_next_def)
  next
    assume no: "fixed_pool_try_next me at cap p = Inr (None, p)" "free_of cap p = {}"
    let ?p = "pool_notify_on_next napi cap p"
    have new: "t \<notin> set (nv_waiting (pool_view napi vw ?p cap) @ nv_woken (pool_view napi vw ?p cap))"
      using cok [of cap] t by (auto simp: cap_ok_def)
    have pinv': "pool_inv ?p" and free': "free_of cap ?p = {}" using pinv no(2) by simp_all
    show ?thesis
    proof (rule next_enqueues [OF ok pinv' free' new, of me at])
      fix q1
      assume q1: "next_when_notified napi me at t cap ?p = Some (Inr (Pending, q1))" "pool_inv q1"
        "\<And>c. free_of c q1 = free_of c ?p"
        "pool_view napi vw q1 = (pool_view napi vw ?p)(cap := (pool_view napi vw ?p cap)
           \<lparr>nv_permit := False, nv_waiting := nv_waiting (pool_view napi vw ?p cap) @ [t]\<rparr>)"
      from eq no q1(1) have r: "r = Pending" "q = q1" by (simp_all add: fixed_pool_next_def)
      have "cap_ok (pool_view napi vw q1 c) {u. (pd(t \<mapsto> cap)) u = Some c} (card (free_of c q1))" for c
      proof (cases "c = cap")
        case True
        have "{u. (pd(t \<mapsto> cap)) u = Some cap} = insert t {u. pd u = Some cap}" by auto
        moreover from new have "t \<notin> set (nv_waiting (pool_view napi vw p cap))" "t \<notin> set (nv_woken (pool_view napi vw p cap))"
          by simp_all
        ultimately show ?thesis using cok [of cap] no(2) by (simp add: True cap_ok_def q1)
      next
        case False
        then have "{u. (pd(t \<mapsto> cap)) u = Some c} = {u. pd u = Some c}" using t by auto
        with False cok [of c] show ?thesis by (simp add: q1)
      qed
      with q1(2) r show ?thesis by (auto intro: psys_invI)
    qed
  qed
qed

lemma poll_keeps:
  assumes ok: "notify_ok napi vw" and inv: "psys_inv napi vw \<lparr>ps_pool = p, ps_pending = pd\<rparr>" and t: "pd t = Some cap"
    and eq: "next_when_notified napi me at t cap p = Some (Inr (r, q))"
  shows "psys_inv napi vw \<lparr>ps_pool = q, ps_pending = (case r of Ready b \<Rightarrow> pd(t := None) | Pending \<Rightarrow> pd)\<rparr>"
proof -
  from inv have pinv: "pool_inv p" and cok: "\<And>c. cap_ok (pool_view napi vw p c) {t. pd t = Some c} (card (free_of c p))"
    by (auto simp: psys_inv_def)
  from t have tS: "t \<in> {t. pd t = Some cap}" by simp
  show ?thesis
  proof (rule poll_waiting [OF ok pinv cok tS, of me at])
    fix q1
    assume q1: "next_when_notified napi me at t cap p = Some (Inr (Pending, q1))" "pool_inv q1"
      "\<And>c. free_of c q1 = free_of c p" "\<And>c. c \<noteq> cap \<Longrightarrow> pool_view napi vw q1 c = pool_view napi vw p c"
      "cap_ok (pool_view napi vw q1 cap) {t. pd t = Some cap} (card (free_of cap q1))"
    have "cap_ok (pool_view napi vw q1 c) {t. pd t = Some c} (card (free_of c q1))" for c
      using q1(3-5) cok [of c] by (cases "c = cap") simp_all
    with q1(1,2) eq show ?thesis by (auto intro: psys_invI)
  next
    fix b k q1
    assume q1: "next_when_notified napi me at t cap p = Some (Inr (Ready b, q1))" "pool_inv q1" "k \<in> free_of cap p"
      "\<And>c. free_of c q1 = free_of c p - {k}" "\<And>c. c \<noteq> cap \<Longrightarrow> pool_view napi vw q1 c = pool_view napi vw p c"
      "cap_ok (pool_view napi vw q1 cap) ({t. pd t = Some cap} - {t}) (card (free_of cap q1))"
    have "cap_ok (pool_view napi vw q1 c) {u. (pd(t := None)) u = Some c} (card (free_of c q1))" for c
    proof (cases "c = cap")
      case True
      moreover have "{u. (pd(t := None)) u = Some cap} = {t. pd t = Some cap} - {t}" by auto
      ultimately show ?thesis using q1(6) by simp
    next
      case False
      moreover have "{u. (pd(t := None)) u = Some c} = {u. pd u = Some c}" using False t by auto
      moreover have "card (free_of c q1) \<le> card (free_of c p)" by (simp add: q1(4) card_mono)
      ultimately show ?thesis using q1(5) cok [of c] by (auto intro: cap_ok_fewer)
    qed
    with q1(1,2) eq show ?thesis by (auto intro: psys_invI)
  qed
qed

lemma cancel_keeps:
  assumes ok: "notify_ok napi vw" and inv: "psys_inv napi vw \<lparr>ps_pool = p, ps_pending = pd\<rparr>" and t: "pd t = Some cap"
  shows "psys_inv napi vw \<lparr>ps_pool = next_cancel napi t cap p, ps_pending = pd(t := None)\<rparr>"
proof (rule psys_invI)
  from inv have pinv: "pool_inv p" and cok: "\<And>c. cap_ok (pool_view napi vw p c) {t. pd t = Some c} (card (free_of c p))"
    by (auto simp: psys_inv_def)
  show "pool_inv (next_cancel napi t cap p)" using pinv by (simp add: next_cancel_def)
  have v: "pool_view napi vw (next_cancel napi t cap p) = (pool_view napi vw p)(cap := view_drop t (pool_view napi vw p cap))"
    using ok by (simp add: next_cancel_def notify_ok_def pool_view_def)
  have f: "free_of c (next_cancel napi t cap p) = free_of c p" for c by (simp add: next_cancel_def)
  show "cap_ok (pool_view napi vw (next_cancel napi t cap p) c) {u. (pd(t := None)) u = Some c}
      (card (free_of c (next_cancel napi t cap p)))" for c
  proof (cases "c = cap")
    case True
    moreover have "{u. (pd(t := None)) u = Some cap} = {t. pd t = Some cap} - {t}" by auto
    ultimately show ?thesis using cap_ok_drop [OF cok [of cap], of t] t by (simp add: v f del: view_drop.simps)
  next
    case False
    moreover have "{u. (pd(t := None)) u = Some c} = {u. pd u = Some c}" using False t by auto
    ultimately show ?thesis using cok [of c] by (simp add: v f del: view_drop.simps)
  qed
qed

lemma check_in_keeps:
  assumes ok: "notify_ok napi vw" and inv: "psys_inv napi vw \<lparr>ps_pool = p, ps_pending = pd\<rparr>" and k: "k \<in> pool_lent p"
    and eq: "pool_check_in napi k n p = Inr q"
  shows "psys_inv napi vw \<lparr>ps_pool = q, ps_pending = pd\<rparr>"
proof -
  from inv have pinv: "pool_inv p" and cok: "\<And>c. cap_ok (pool_view napi vw p c) {t. pd t = Some c} (card (free_of c p))"
    by (auto simp: psys_inv_def)
  let ?cap = "iov_len (pl_iovecs p ! k)"
  from pool_check_in_ok [OF pinv k, of napi n] eq obtain nx where q: "pool_inv q"
    "pl_states q = (pl_states p)[k := PFree n nx]" "pl_iovecs q = pl_iovecs p"
    "pl_notify q = (pl_notify p)(?cap := map_option (n_notify_one napi) (pl_notify p ?cap))" by auto
  have f: "free_of c q = (if c = ?cap then insert k (free_of c p) else free_of c p)" for c
    by (rule free_of_return [OF k q(2,3)])
  have kf: "k \<notin> free_of ?cap p" using k by (simp add: free_of_def)
  have "cap_ok (pool_view napi vw q c) {t. pd t = Some c} (card (free_of c q))" for c
  proof (cases "c = ?cap")
    case True
    show ?thesis
    proof (cases "pl_notify p ?cap")
      case None
      then have "pool_view napi vw p ?cap = no_waiters" "pool_view napi vw q ?cap = no_waiters"
        using ok by (simp_all add: pool_view_def notify_of_def notify_ok_def q(4))
      with cok [of ?cap] True show ?thesis by (simp add: cap_ok_def no_waiters_def)
    next
      case (Some x)
      then have "pool_view napi vw q ?cap = view_notify_one (pool_view napi vw p ?cap)"
        using ok by (simp add: pool_view_def notify_of_def notify_ok_def q(4))
      with cap_ok_notify [OF cok [of ?cap]] True kf show ?thesis by (simp add: f del: view_notify_one.simps)
    qed
  next
    case False
    moreover from False have "pool_view napi vw q c = pool_view napi vw p c" by (simp add: pool_view_def notify_of_def q(4))
    ultimately show ?thesis using cok [of c] by (simp add: f)
  qed
  with q(1) show ?thesis by (rule psys_invI)
qed

lemma psys_step_inv:
  assumes ok: "notify_ok napi vw" and st: "psys_step napi me s s'" and inv: "psys_inv napi vw s"
  shows "psys_inv napi vw s'"
proof -
  obtain p pd where s: "s = \<lparr>ps_pool = p, ps_pending = pd\<rparr>" by (cases s) simp
  note inv = inv [unfolded s]
  from st show ?thesis unfolding s
  proof (cases rule: psys_step.cases)
    case (call_ready t at cap b q)
    with call_keeps [OF ok inv, of t me at cap "Ready b" q] show ?thesis by simp
  next
    case (call_waits t at cap q)
    with call_keeps [OF ok inv, of t me at cap Pending q] show ?thesis by simp
  next
    case (poll_ready t cap at b q)
    with poll_keeps [OF ok inv, of t cap me at "Ready b" q] show ?thesis by simp
  next
    case (poll_waits t cap at q)
    with poll_keeps [OF ok inv, of t cap me at Pending q] show ?thesis by simp
  next
    case (cancel t cap)
    with cancel_keeps [OF ok inv] show ?thesis by simp
  next
    case (try_next at cap r q)
    have pinv: "pool_inv p" using inv by (simp add: psys_inv_def)
    show ?thesis
      by (rule fixed_try_next_cases [OF pinv, of me at cap]) (use try_next inv take_keeps [OF inv, of q] in auto)
  next
    case (check_in k n q)
    with check_in_keeps [OF ok inv, of k n q] show ?thesis by simp
  qed
qed

lemma psys_reach_inv:
  fixes s :: "'n psys"
  assumes ok: "notify_ok napi vw"
  shows "psys_reach napi me bufs s \<Longrightarrow> psys_inv napi vw s"
proof (induction rule: psys_reach.induct)
  case start
  have "pool_view napi vw (pool_new bufs) c = no_waiters" for c
  proof -
    have "pl_notify (pool_add i bs p) = pl_notify p" for i bs and p :: "'n pool"
      by (induction bs arbitrary: i p) (simp_all add: Let_def)
    then have "pl_notify (pool_new bufs :: 'n pool) = Map.empty" by (simp add: pool_new_def Let_def)
    with ok show ?thesis by (simp add: pool_view_def notify_of_def notify_ok_def)
  qed
  then show ?case using pool_new_inv [of "pool_new bufs :: 'n pool" bufs]
    by (intro psys_invI) (simp_all add: cap_ok_def no_waiters_def)
next
  case (step s s')
  then show ?case using psys_step_inv [OF ok] by blast
qed

end
