(* ===== verification/Buf_Properties.thy ===== *)
theory Buf_Properties
  imports Pool_Next
begin

text \<open>Properties of buffers, slices, the collections of registered buffers and tasks waiting for one.\<close>

section \<open>Concrete buffers\<close>

definition demo_vec :: vec_u8 where
  "demo_vec = \<lparr>v_ptr = 4096, v_len = 8, v_cap = 10\<rparr>"

definition demo_buffer :: buffer where
  "demo_buffer = \<lparr>bf_iovec = [mk_iovec 4096 8, mk_iovec 8192 0], bf_iovec_ptr = 64, bf_cap = [10, 6],
     bf_user_data = NoData, bf_ty = TyVecVec\<rparr>"

definition demo_single :: buffer where
  "demo_single = \<lparr>bf_iovec = [mk_iovec 4096 8], bf_iovec_ptr = 64, bf_cap = [10],
     bf_user_data = NoData, bf_ty = TyVec\<rparr>"

definition demo_notify :: "unit notify_api" where
  "demo_notify = \<lparr>n_default = (), n_notify_one = (\<lambda>n. n), n_poll = (\<lambda>t n. (True, n)), n_drop = (\<lambda>t n. n)\<rparr>"

definition demo_pool :: "unit pool" where
  "demo_pool = pool_new [demo_single, demo_single]"

lemma demo_buffer_wf: "buffer_wf demo_buffer" "buffer_wf demo_single"
  by (simp_all add: demo_buffer_def demo_single_def buffer_wf_def mk_iovec_def usize_MAX_def)

section \<open>The type-erased buffer\<close>

lemma try_into_other:
  "buffer_new bi at v = Inr b \<Longrightarrow> bi_type bj \<noteq> bi_type bi \<Longrightarrow> buffer_try_into bj b = Inr (Err b)"
  by (auto simp: buffer_new_def buffer_try_into_def bind_exec_eq_Inr)

text \<open>
  C21. A vector, a vector of vectors or a checked-out registered buffer that is turned into a
  \<^verbatim>\<open>Buffer\<close> comes back as the same value from \<^verbatim>\<open>try_into\<close> with its type, and any other type
  gets the buffer back unchanged.
\<close>

theorem buffer_roundtrip:
  shows "(\<exists>b. buffer_new vec_impl at v = Inr b \<and> buffer_try_into vec_impl b = Inr (Ok v)
      \<and> buffer_try_into vecvec_impl b = Inr (Err b))
    \<and> (\<exists>b. buffer_new vecvec_impl at vs = Inr b \<and> buffer_try_into vecvec_impl b = Inr (Ok vs)
      \<and> buffer_try_into vec_impl b = Inr (Err b))
    \<and> (\<exists>b. buffer_new (fixed_impl ty) at \<lparr>fb_iovec = iv, fb_init_len = n, fb_info = Some info\<rparr> = Inr b
      \<and> buffer_try_into (fixed_impl ty) b = Inr (Ok \<lparr>fb_iovec = iv, fb_init_len = n, fb_info = Some info\<rparr>))"
proof (intro conjI)
  have ty: "bi_type vec_impl = TyVec" "bi_type vecvec_impl = TyVecVec"
    by (simp_all add: vec_impl_def vecvec_impl_def)
  show "\<exists>b. buffer_new vec_impl at v = Inr b \<and> buffer_try_into vec_impl b = Inr (Ok v)
      \<and> buffer_try_into vecvec_impl b = Inr (Err b)"
    using vec_impl.new_try_into [where b = v and at = at] try_into_other [of vec_impl at v _ vecvec_impl] ty by auto
  show "\<exists>b. buffer_new vecvec_impl at vs = Inr b \<and> buffer_try_into vecvec_impl b = Inr (Ok vs)
      \<and> buffer_try_into vec_impl b = Inr (Err b)"
    using vecvec_impl.new_try_into [where b = vs and at = at] try_into_other [of vecvec_impl at vs _ vec_impl] ty by auto
  show "\<exists>b. buffer_new (fixed_impl ty) at \<lparr>fb_iovec = iv, fb_init_len = n, fb_info = Some info\<rparr> = Inr b
      \<and> buffer_try_into (fixed_impl ty) b = Inr (Ok \<lparr>fb_iovec = iv, fb_init_len = n, fb_info = Some info\<rparr>)"
    by (rule fixed_impl.new_try_into) simp
qed

text \<open>
  \<^verbatim>\<open>Buffer::set_init\<close> makes exactly the first \<open>n\<close> bytes count as initialized, filling the
  iovecs in order up to their capacities. It is not the water mark the trait documents: with a
  smaller \<open>n\<close> the initialized length goes down.
\<close>

theorem buffer_set_init_exact:
  assumes "buffer_wf b" and "n \<le> buffer_bytes_total b"
  shows "buffer_bytes_init (buffer_set_init n b) = n \<and> buffer_wf (buffer_set_init n b)
    \<and> buffer_bytes_total (buffer_set_init n b) = buffer_bytes_total b
    \<and> buffer_stable_ptr (buffer_set_init n b) = buffer_stable_ptr b"
  using buffer_set_init_bytes [OF assms(1), of n] buffer_set_init_wf [OF assms(1), of n]
    buffer_set_init_ptr [OF assms(1), of n] assms(2)
  by (simp add: buffer_bytes_total_def buffer_set_init_def)

theorem buffer_set_init_exact_witness:
  "buffer_bytes_init demo_buffer = 8 \<and> buffer_bytes_init (buffer_set_init 3 demo_buffer) = 3"
  using buffer_set_init_exact [OF demo_buffer_wf(1), of 3]
  by (simp add: demo_buffer_def buffer_bytes_total_def buffer_bytes_init_def mk_iovec_def)

section \<open>Slices\<close>



text \<open>
  \<^verbatim>\<open>slice\<close> accepts a range whose end lies before its start: no assertion compares the two.
  The total size of such a slice wraps around to nearly the whole address space, and reading it
  panics.
\<close>

theorem slice_accepts_inverted_range:
  assumes "hi < lo" and "lo < ib_bytes_total B b" and "lo \<le> ib_bytes_init B b" and "lo \<le> usize_MAX"
  shows "buf_slice B b (Included lo) (Excluded hi) = Inr (slice_new b lo hi)
    \<and> slice_bytes_total (slice_new b lo hi) = usize_MAX + 1 - (lo - hi)
    \<and> slice_deref B (slice_new b lo hi) = Inl IndexOutOfBounds"
  using assms
  by (auto simp: buf_slice_def slice_bytes_total_def wrapping_sub_def slice_deref_def buf_deref_def Let_def)

theorem slice_accepts_inverted_range_witness:
  "slice_bytes_total (slice_new demo_vec 5 3) = 18446744073709551614
   \<and> buf_slice vec_io_buf demo_vec (Included 5) (Excluded 3) = Inr (slice_new demo_vec 5 3)"
  using slice_accepts_inverted_range [of 3 5 vec_io_buf demo_vec]
  by (simp add: demo_vec_def vec_io_buf_def usize_MAX_def)



section \<open>Registered buffers\<close>

text \<open>
  C25. The pool never hands out a buffer twice: after any sequence of requests and drops, starting
  with a new pool, nothing panicked, the handles outstanding are all different, and they are
  exactly the buffers marked as checked out.
\<close>

theorem pool_exclusive:
  shows "\<exists>p held. coll_run pool_out (pool_check_in napi) cs (pool_new bufs) [] = Inr (p, held)
    \<and> pool_inv p \<and> distinct held \<and> set held = pool_lent p"
  using pool_coll.run_exclusive [of "pool_new bufs" "[]" cs napi] pool_new_inv [OF refl, of bufs] by auto

text \<open>
  \<^verbatim>\<open>try_next\<close> is complete: in a valid pool it returns nothing only when every buffer of the
  requested capacity is checked out, and otherwise returns a buffer of exactly that capacity that
  nobody holds, with its recorded initialized length.
\<close>

theorem pool_try_next_complete:
  assumes "pool_inv p"
  shows "(pool_try_next cap p = Inr (None, p)
      \<and> (\<forall>k < length (pl_states p). iov_len (pl_iovecs p ! k) = cap \<longrightarrow> k \<in> pool_lent p))
    \<or> (\<exists>n k p'. pool_try_next cap p = Inr (Some (pl_iovecs p ! k, n, k), p') \<and> k < length (pl_states p)
        \<and> iov_len (pl_iovecs p ! k) = cap \<and> k \<notin> pool_lent p \<and> (\<exists>nx. pl_states p ! k = PFree n nx)
        \<and> pool_inv p' \<and> pool_lent p' = insert k (pool_lent p))"
  using pool_try_next_ok [OF assms, of cap] by blast

theorem pool_try_next_complete_witness:
  "(\<exists>n k p'. pool_try_next 10 demo_pool = Inr (Some (pl_iovecs demo_pool ! k, n, k), p'))
   \<and> pool_try_next 7 demo_pool = Inr (None, demo_pool)"
  using pool_try_next_complete [of demo_pool 10] pool_try_next_complete [of demo_pool 7] pool_new_inv [OF refl, of "[demo_single, demo_single]"]
  by (auto simp: demo_pool_def pool_new_def Let_def max_bufs_def UIO_MAXIOV_def demo_single_def
      buffer_bytes_total_def buffer_stable_ptr_def buffer_bytes_init_def mk_iovec_def pool_lent_def pool_try_next_def)

text \<open>
  Dropping the \<^verbatim>\<open>Buffer\<close> of a pool gives the buffer back: whatever initialized length was set
  on it is recorded, the pool is valid and lends what it lent before the buffer was taken.
\<close>

theorem pool_buffer_returns:
  assumes "pool_inv p" and "fixed_pool_try_next me at cap p = Inr (Some b, p1)" and "n \<le> cap"
  shows "\<exists>p2 k nx. buffer_drop (fixed_impl TyPoolBuf) (fixed_pool_buf_drop napi) (buffer_set_init n b) p1 = Inr p2
    \<and> pool_inv p2 \<and> pool_lent p2 = pool_lent p \<and> k \<notin> pool_lent p \<and> pl_states p2 ! k = PFree n nx
    \<and> buffer_bytes_total b = cap \<and> buffer_stable_ptr b = iov_base (pl_iovecs p ! k)"
  by (rule fixed_pool_roundtrip [OF assms])

theorem pool_buffer_returns_witness:
  "\<exists>b p1 p2. fixed_pool_try_next 0 64 10 demo_pool = Inr (Some b, p1)
    \<and> buffer_drop (fixed_impl TyPoolBuf) (fixed_pool_buf_drop demo_notify) (buffer_set_init 4 b) p1 = Inr p2 \<and> pool_lent p2 = {}"
proof -
  obtain b p1 where "fixed_pool_try_next 0 64 10 demo_pool = Inr (Some b, p1)"
    by (auto simp: demo_pool_def pool_new_def Let_def max_bufs_def UIO_MAXIOV_def demo_single_def fixed_pool_try_next_def
        buffer_new_def fixed_impl_def buffer_bytes_total_def buffer_stable_ptr_def buffer_bytes_init_def mk_iovec_def
        pool_try_next_def)
  with pool_buffer_returns [of demo_pool 0 64 10 b p1 4 demo_notify] pool_new_inv [OF refl, of "[demo_single, demo_single]"] show ?thesis
    by (auto simp: demo_pool_def)
qed

text \<open>
  The registry never hands out an index twice: after any sequence of check-outs of existing
  indices and drops, the handles outstanding are all different and are exactly the buffers marked
  as checked out.
\<close>

theorem registry_exclusive:
  assumes "list_all (\<lambda>c. case c of Out i \<Rightarrow> i < min max_bufs (length bufs) | In i n \<Rightarrow> True) cs"
  shows "\<exists>r held. coll_run registry_out registry_check_in cs (registry_new bufs) [] = Inr (r, held)
    \<and> registry_inv r \<and> distinct held \<and> set held = registry_lent r"
proof -
  have "registry_inv (registry_new bufs)" "registry_lent (registry_new bufs) = {}"
    by (auto simp: registry_new_def Let_def registry_inv_def registry_lent_def)
  moreover have "length (rg_states (registry_new bufs)) = min max_bufs (length bufs)"
    by (simp add: registry_new_def Let_def min.commute)
  ultimately show ?thesis
    using registry_coll.run_exclusive [of "registry_new bufs" "[]" cs] assms
    by (fastforce simp: list_all_iff split: coll_op.splits)
qed

theorem registry_exclusive_witness:
  "\<exists>r held. coll_run registry_out registry_check_in [Out 0, Out 0, In 0 5, Out 0] (registry_new [demo_single]) [] = Inr (r, held)
    \<and> distinct held"
  using registry_exclusive [of "[demo_single]" "[Out 0, Out 0, In 0 5, Out 0]"]
  by (auto simp: max_bufs_def UIO_MAXIOV_def)

section \<open>Waiting for a buffer\<close>

text \<open>One buffer of capacity 10, taken by a client; task 1 waits for it; the client drops it.\<close>

definition demo_taken :: "notify_view pool" where
  "demo_taken = (pool_new [demo_single])\<lparr>pl_states := [PCheckedOut], pl_free := Map.empty\<rparr>"

definition demo_asleep :: "notify_view psys" where
  "demo_asleep = \<lparr>ps_pool = set_notify 10 (no_waiters\<lparr>nv_waiting := [1]\<rparr>) demo_taken, ps_pending = [1 \<mapsto> 10]\<rparr>"

definition demo_back :: "notify_view psys" where
  "demo_back = \<lparr>ps_pool = (set_notify 10 (no_waiters\<lparr>nv_woken := [1]\<rparr>) demo_taken)
      \<lparr>pl_free := [10 \<mapsto> 0], pl_states := [PFree 5 None]\<rparr>, ps_pending = [1 \<mapsto> 10]\<rparr>"

lemmas demo_pool_simps = pool_new_def Let_def max_bufs_def UIO_MAXIOV_def demo_single_def
  buffer_bytes_total_def buffer_stable_ptr_def buffer_bytes_init_def mk_iovec_def

lemma demo_take: "\<exists>b. fixed_pool_try_next 0 64 10 (pool_new [demo_single]) = Inr (Some b, demo_taken)"
  by (auto simp: demo_taken_def fixed_pool_try_next_def pool_try_next_def buffer_new_def fixed_impl_def demo_pool_simps)

lemma demo_enqueues: "fixed_pool_next view_api 0 64 1 10 demo_taken = Some (Inr (Pending, ps_pool demo_asleep))"
  by (simp add: demo_taken_def demo_asleep_def fixed_pool_next_def fixed_pool_try_next_def pool_try_next_def
      pool_notify_on_next_def next_when_notified.simps [of _ _ _ _ _ "_ :: notify_view pool"] notify_of_def set_notify_def view_api_def no_waiters_def demo_pool_simps)

lemma demo_return: "pool_check_in view_api 0 5 (ps_pool demo_asleep) = Inr (ps_pool demo_back)"
  by (simp add: demo_taken_def demo_asleep_def demo_back_def pool_check_in_def set_notify_def view_api_def
      no_waiters_def demo_pool_simps)

lemma demo_back_reach: "psys_reach view_api 0 [demo_single] demo_back"
proof -
  let ?s0 = "\<lparr>ps_pool = pool_new [demo_single], ps_pending = Map.empty\<rparr> :: notify_view psys"
  have "psys_step view_api 0 ?s0 (?s0\<lparr>ps_pool := demo_taken\<rparr>)"
    using demo_take psys_step.try_next [of 0 64 10 ?s0] by auto
  then have r1: "psys_reach view_api 0 [demo_single] (?s0\<lparr>ps_pool := demo_taken\<rparr>)"
    by (rule psys_reach.step [OF psys_reach.start])
  have "psys_step view_api 0 (?s0\<lparr>ps_pool := demo_taken\<rparr>) demo_asleep"
    using psys_step.call_waits [of "?s0\<lparr>ps_pool := demo_taken\<rparr>" 1 view_api 0 64 10 "ps_pool demo_asleep"] demo_enqueues
    by (simp add: demo_asleep_def)
  then have r2: "psys_reach view_api 0 [demo_single] demo_asleep" by (rule psys_reach.step [OF r1])
  have "0 \<in> pool_lent (ps_pool demo_asleep)" by (simp add: demo_asleep_def demo_taken_def pool_lent_def)
  from psys_step.check_in [OF this demo_return] have "psys_step view_api 0 demo_asleep demo_back"
    by (simp add: demo_asleep_def demo_back_def)
  then show ?thesis by (rule psys_reach.step [OF r2])
qed

text \<open>
  C26. No wake-up is lost: whatever tasks and clients did with a pool on its thread, if a task waits
  in \<^verbatim>\<open>next\<close> for a capacity and a buffer of that capacity is free, then some task waiting for that
  capacity has been notified, and polling it returns a buffer of that capacity.
\<close>

theorem pool_next_no_lost_wakeup:
  assumes "notify_ok napi vw" and "psys_reach napi me bufs s" and "ps_pending s t = Some cap"
    and "free_of cap (ps_pool s) \<noteq> {}"
  shows "\<exists>u b q. ps_pending s u = Some cap \<and> u \<in> set (nv_woken (pool_view napi vw (ps_pool s) cap))
    \<and> next_when_notified napi me at u cap (ps_pool s) = Some (Inr (Ready b, q)) \<and> buffer_bytes_total b = cap"
proof -
  let ?v = "pool_view napi vw (ps_pool s) cap"
  from psys_reach_inv [OF assms(1,2)] have inv: "pool_inv (ps_pool s)"
    and cok: "cap_ok ?v {t. ps_pending s t = Some cap} (card (free_of cap (ps_pool s)))"
    by (auto simp: psys_inv_def)
  have "card (free_of cap (ps_pool s)) \<noteq> 0" using assms(4) by simp
  with cok assms(3) have "nv_woken ?v \<noteq> []" by (auto simp: cap_ok_def)
  then obtain u where u: "u \<in> set (nv_woken ?v)" by (meson hd_in_set)
  with cok have "u \<in> {t. ps_pending s t = Some cap}" by (auto simp: cap_ok_def)
  with u assms(4) show ?thesis by (rule_tac poll_waiting [OF assms(1) inv cok, of u me at]) auto
qed

theorem pool_next_no_lost_wakeup_witness:
  "\<exists>u b q. ps_pending demo_back u = Some 10
    \<and> next_when_notified view_api 0 64 u 10 (ps_pool demo_back) = Some (Inr (Ready b, q)) \<and> buffer_bytes_total b = 10"
proof -
  have "0 \<in> free_of 10 (ps_pool demo_back)"
    by (simp add: free_of_def demo_back_def demo_taken_def pool_lent_def demo_pool_simps)
  then have "free_of 10 (ps_pool demo_back) \<noteq> {}" by blast
  moreover have "ps_pending demo_back 1 = Some 10" by (simp add: demo_back_def)
  ultimately show ?thesis
    using pool_next_no_lost_wakeup [OF view_api_ok demo_back_reach, of 1 10 64] by blast
qed

text \<open>
  C27. A poll of \<^verbatim>\<open>next\<close> always returns: neither the first poll nor a later one panics or loops, in
  any state that tasks and clients can reach.
\<close>

theorem pool_next_returns:
  assumes "notify_ok napi vw" and "psys_reach napi me bufs s"
    and "ps_pending s t = None \<or> ps_pending s t = Some cap"
  shows "\<exists>r q. (if ps_pending s t = None then fixed_pool_next napi me at t cap (ps_pool s)
      else next_when_notified napi me at t cap (ps_pool s)) = Some (Inr (r, q))"
proof -
  let ?v = "pool_view napi vw (ps_pool s) cap" and ?p = "pool_notify_on_next napi cap (ps_pool s)"
  from psys_reach_inv [OF assms(1,2)] have inv: "pool_inv (ps_pool s)" and inv': "pool_inv ?p"
    and cok: "cap_ok ?v {t. ps_pending s t = Some cap} (card (free_of cap (ps_pool s)))"
    by (auto simp: psys_inv_def)
  show ?thesis
  proof (cases "ps_pending s t")
    case None
    then have new: "t \<notin> set (nv_waiting (pool_view napi vw ?p cap) @ nv_woken (pool_view napi vw ?p cap))"
      using cok by (auto simp: cap_ok_def)
    show ?thesis
    proof (rule fixed_try_next_cases [OF inv, of me at cap])
      assume no: "fixed_pool_try_next me at cap (ps_pool s) = Inr (None, ps_pool s)" "free_of cap (ps_pool s) = {}"
      then have "free_of cap ?p = {}" by simp
      from no(1) None show ?thesis
        by (rule_tac next_enqueues [OF assms(1) inv' \<open>free_of cap ?p = {}\<close> new, of me at])
           (auto simp: fixed_pool_next_def)
    qed (use None in \<open>auto simp: fixed_pool_next_def\<close>)
  next
    case (Some c)
    with assms(3) have "t \<in> {t. ps_pending s t = Some cap}" by simp
    with Some show ?thesis by (rule_tac poll_waiting [OF assms(1) inv cok, of t me at]) auto
  qed
qed

theorem pool_next_returns_witness:
  "(\<exists>r q. next_when_notified view_api 0 64 1 10 (ps_pool demo_back) = Some (Inr (r, q)))
   \<and> (\<exists>r q. fixed_pool_next view_api 0 64 2 10 (ps_pool demo_back) = Some (Inr (r, q)))"
  using pool_next_returns [OF view_api_ok demo_back_reach, of 1 10 64]
    pool_next_returns [OF view_api_ok demo_back_reach, of 2 10 64]
  by (simp add: demo_back_def)

end
