(* ===== verification/Shared_Fd.thy ===== *)
theory Shared_Fd
  imports Uring_Prelude
begin

text \<open>
  \<^verbatim>\<open>src/src/io/shared_fd.rs\<close>: a file descriptor shared by the operations in flight on it, each
  holding a clone. The state is the descriptor, the sharing state, the number of strong
  references, the log of the closes issued for the descriptor and the log of the wakes.
\<close>

section \<open>State and operations\<close>

datatype fd_state = Init | WaitingForUniqueness waker | Closed

text \<open>A close operation submitted to the ring, or the close of \<^verbatim>\<open>Drop for Inner\<close>.\<close>

datatype close_event = RingClose raw_fd | SyncClose raw_fd

record shared_fd =
  sf_fd :: raw_fd
  sf_state :: fd_state
  sf_strong :: nat
  sf_closes :: "close_event list"
  sf_woken :: "waker list"

definition shared_fd_new :: "raw_fd \<Rightarrow> shared_fd" where
  "shared_fd_new fd = \<lparr>sf_fd = fd, sf_state = Init, sf_strong = 1, sf_closes = [], sf_woken = []\<rparr>"

definition shared_fd_clone :: "shared_fd \<Rightarrow> shared_fd" where
  "shared_fd_clone s = s\<lparr>sf_strong := sf_strong s + 1\<rparr>"

definition shared_fd_is_unique :: "waker \<Rightarrow> shared_fd \<Rightarrow> unit poll \<times> shared_fd" where
  "shared_fd_is_unique w s =
     (if sf_strong s = 1 then (Ready (), s)
      else case sf_state s of
        Init \<Rightarrow> (Pending, s\<lparr>sf_state := WaitingForUniqueness w\<rparr>)
      | WaitingForUniqueness v \<Rightarrow> (Pending, s\<lparr>sf_state := WaitingForUniqueness (if v \<noteq> w then w else v)\<rparr>)
      | Closed \<Rightarrow> (Ready (), s))"

text \<open>
  How a poll of \<^verbatim>\<open>close\<close> ends: with a result, with the close operation submitted (its own
  completion is the result), or waiting for the other references.
\<close>

datatype close_progress = CloseReady "(unit, io_error) result" | CloseSubmitted | CloseWaiting

text \<open>\<open>sub\<close> is the answer of \<^verbatim>\<open>Op::close\<close>, the submission.\<close>

definition async_close_op :: "(unit, io_error) result \<Rightarrow> shared_fd \<Rightarrow> close_progress \<times> shared_fd" where
  "async_close_op sub s =
     (case sf_state s of
        Closed \<Rightarrow> (CloseReady (Ok ()), s)
      | _ \<Rightarrow>
          let s' = s\<lparr>sf_state := Closed\<rparr> in
          (case sub of
             Err e \<Rightarrow> (CloseReady (Err e), s')
           | Ok _ \<Rightarrow> (CloseSubmitted, s'\<lparr>sf_closes := sf_closes s @ [RingClose (sf_fd s)]\<rparr>)))"

partial_function (option) shared_fd_close ::
  "waker \<Rightarrow> (unit, io_error) result \<Rightarrow> shared_fd \<Rightarrow> (close_progress \<times> shared_fd) option" where
  "shared_fd_close w sub s =
     (if sf_strong s = 1 then Some (async_close_op sub s)
      else case shared_fd_is_unique w s of
        (Pending, s') \<Rightarrow> Some (CloseWaiting, s')
      | (Ready _, s') \<Rightarrow> shared_fd_close w sub s')"

definition inner_drop :: "shared_fd \<Rightarrow> shared_fd" where
  "inner_drop s =
     (case sf_state s of
        Closed \<Rightarrow> s
      | _ \<Rightarrow> s\<lparr>sf_closes := sf_closes s @ [SyncClose (sf_fd s)]\<rparr>)"

text \<open>Dropping a reference: wake the task that waits, and with the last one drop \<^verbatim>\<open>Inner\<close>.\<close>

definition shared_fd_drop :: "shared_fd \<Rightarrow> shared_fd" where
  "shared_fd_drop s =
     (let s1 = (case sf_state s of
                  WaitingForUniqueness w \<Rightarrow> s\<lparr>sf_state := Init, sf_woken := sf_woken s @ [w]\<rparr>
                | _ \<Rightarrow> s);
          s2 = s1\<lparr>sf_strong := sf_strong s1 - 1\<rparr>
      in if sf_strong s2 = 0 then inner_drop s2 else s2)"

section \<open>The life of a descriptor\<close>

text \<open>Steps of the owners while there is a reference; \<open>failed\<close> records a failed submission.\<close>

inductive fd_step :: "shared_fd \<times> bool \<Rightarrow> shared_fd \<times> bool \<Rightarrow> bool" where
  Clone: "sf_strong s > 0 \<Longrightarrow> fd_step (s, failed) (shared_fd_clone s, failed)"
| Drop: "sf_strong s > 0 \<Longrightarrow> fd_step (s, failed) (shared_fd_drop s, failed)"
| Close: "sf_strong s > 0 \<Longrightarrow> shared_fd_close w sub s = Some (r, s') \<Longrightarrow>
    fd_step (s, failed) (s', failed \<or> (\<exists>e. r = CloseReady (Err e)))"

inductive fd_reach :: "raw_fd \<Rightarrow> shared_fd \<times> bool \<Rightarrow> bool" for fd where
  New: "fd_reach fd (shared_fd_new fd, False)"
| Next: "fd_reach fd p \<Longrightarrow> fd_step p q \<Longrightarrow> fd_reach fd q"

definition fd_inv :: "raw_fd \<Rightarrow> shared_fd \<times> bool \<Rightarrow> bool" where
  "fd_inv fd p \<longleftrightarrow>
     (case p of (s, failed) \<Rightarrow>
        sf_fd s = fd
      \<and> (sf_strong s > 0 \<longrightarrow>
          (sf_state s \<noteq> Closed \<longrightarrow> sf_closes s = [] \<and> \<not> failed)
        \<and> (sf_state s = Closed \<longrightarrow> sf_closes s = (if failed then [] else [RingClose fd])))
      \<and> (sf_strong s = 0 \<longrightarrow>
          sf_closes s = [SyncClose fd] \<and> \<not> failed \<or> sf_closes s = (if failed then [] else [RingClose fd])))"

text \<open>One poll of \<^verbatim>\<open>close\<close>, by cases.\<close>

lemma shared_fd_close_cases:
  assumes "shared_fd_close w sub s = Some (r, s')" and "sf_strong s > 0"
  shows "(sf_strong s = 1 \<and> (r, s') = async_close_op sub s)
    \<or> (sf_strong s > 1 \<and> sf_state s \<noteq> Closed \<and> r = CloseWaiting \<and> s' = s\<lparr>sf_state := WaitingForUniqueness w\<rparr>)
    \<or> (sf_strong s > 1 \<and> sf_state s = Closed \<and> r = CloseWaiting \<and> s' = s)"
proof -
  have never: "shared_fd_close w sub s \<noteq> Some y" if "sf_strong s > 1" "sf_state s = Closed" for y
  proof
    assume "shared_fd_close w sub s = Some y"
    from shared_fd_close.raw_induct [where P = "\<lambda>w sub s y. sf_strong s > 1 \<longrightarrow> sf_state s = Closed \<longrightarrow> False", OF _ this]
    show False using that by (force simp: shared_fd_is_unique_def split: if_splits)
  qed
  show ?thesis
  proof (cases "sf_strong s = 1")
    case True
    with assms(1) show ?thesis by (subst (asm) shared_fd_close.simps) simp
  next
    case False
    then have gt: "sf_strong s > 1" using assms(2) by simp
    then have "sf_state s \<noteq> Closed" using never assms(1) by blast
    with assms(1) gt show ?thesis
      by (subst (asm) shared_fd_close.simps) (cases "sf_state s", auto simp: shared_fd_is_unique_def split: if_splits)
  qed
qed

lemma fd_step_inv:
  assumes "fd_step p q" and "fd_inv fd p"
  shows "fd_inv fd q"
  using assms
proof (induction rule: fd_step.induct)
  case (Clone s failed)
  then show ?case by (auto simp: fd_inv_def shared_fd_clone_def)
next
  case (Drop s failed)
  then show ?case
    by (cases "sf_state s") (auto simp: fd_inv_def shared_fd_drop_def inner_drop_def Let_def split: if_splits)
next
  case (Close s w sub r s' failed)
  from shared_fd_close_cases [OF Close(2,1)] Close(1,3) show ?case
    by (cases "sf_state s"; cases sub) (auto simp: fd_inv_def async_close_op_def Let_def split: if_splits)
qed

lemma fd_reach_inv: "fd_reach fd p \<Longrightarrow> fd_inv fd p"
  by (induction rule: fd_reach.induct) (auto simp: fd_inv_def shared_fd_new_def dest: fd_step_inv)

section \<open>Properties\<close>

text \<open>
  C29. A descriptor is never closed twice, and once the last reference is gone it has been closed
  exactly once, by the ring or synchronously, unless the submission of the close failed: then it
  is never closed.
\<close>

theorem fd_closed_once:
  assumes "fd_reach fd (s, failed)"
  shows "length (sf_closes s) \<le> 1
    \<and> (sf_strong s = 0 \<longrightarrow> (if failed then sf_closes s = [] else sf_closes s = [RingClose fd] \<or> sf_closes s = [SyncClose fd]))"
  using fd_reach_inv [OF assms] by (cases "sf_state s = Closed"; cases "sf_strong s") (auto simp: fd_inv_def)

theorem fd_closed_once_witness:
  "sf_closes (shared_fd_drop (shared_fd_new 7)) = [SyncClose 7]"
proof -
  have "fd_reach 7 (shared_fd_drop (shared_fd_new 7), False)"
    by (rule Next [OF New], rule Drop) (simp add: shared_fd_new_def)
  from fd_closed_once [OF this] show ?thesis
    by (simp add: shared_fd_drop_def shared_fd_new_def inner_drop_def Let_def)
qed



end
