(* ===== verification/Io_Read_Write.thy ===== *)
theory Io_Read_Write
  imports Fixed_Bufs Op_Handles
begin

text \<open>
  \<^verbatim>\<open>src/src/io/read_write.rs\<close>, \<^verbatim>\<open>read_fixed.rs\<close>, \<^verbatim>\<open>write_fixed.rs\<close>, the loops that write a
  whole buffer in \<^verbatim>\<open>src/src/fs/file.rs\<close> and \<^verbatim>\<open>src/src/io/socket.rs\<close>, and the result types of
  \<^verbatim>\<open>src/src/types.rs\<close>. An operation is the submission entry it builds and what it makes of the
  completion; the kernel that performs an entry is a parameter of the loops.
\<close>

section \<open>Results that carry the buffer\<close>

text \<open>\<^verbatim>\<open>crate::Result<T, B>\<close> and \<^verbatim>\<open>crate::Error<B>\<close>.\<close>

type_synonym ('t, 'b) buf_result = "('t \<times> 'b, io_error \<times> 'b) result"

fun error_map :: "('b \<Rightarrow> 'c) \<Rightarrow> io_error \<times> 'b \<Rightarrow> io_error \<times> 'c" where
  "error_map f (e, b) = (e, f b)"

fun map_buf :: "('b \<Rightarrow> 'c) \<Rightarrow> ('t, 'b) buf_result \<Rightarrow> ('t, 'c) buf_result" where
  "map_buf f (Ok (r, b)) = Ok (r, f b)"
| "map_buf f (Err e) = Err (error_map f e)"

fun with_buffer :: "('t, io_error) result \<Rightarrow> 'b \<Rightarrow> ('t, 'b) buf_result" where
  "with_buffer (Ok r) b = Ok (r, b)"
| "with_buffer (Err e) b = Err (e, b)"

fun result_map :: "('a \<Rightarrow> 'b) \<Rightarrow> ('a, 'e) result \<Rightarrow> ('b, 'e) result" where
  "result_map f (Ok x) = Ok (f x)"
| "result_map f (Err e) = Err e"

section \<open>Bounded views of a Buffer\<close>

text \<open>\<^verbatim>\<open>T: BoundedBuf<Buf = Buffer>\<close>: the buffer itself or a slice of it.\<close>

datatype bounded = Whole buffer | Sliced "buffer slice"

fun bb_get_buf :: "bounded \<Rightarrow> buffer" where
  "bb_get_buf (Whole b) = b"
| "bb_get_buf (Sliced s) = s_buf s"

fun bb_stable_ptr :: "bounded \<Rightarrow> addr exec" where
  "bb_stable_ptr (Whole b) = Inr (buffer_stable_ptr b)"
| "bb_stable_ptr (Sliced s) = slice_stable_ptr buffer_io_buf s"

fun bb_bytes_init :: "bounded \<Rightarrow> nat exec" where
  "bb_bytes_init (Whole b) = Inr (buffer_bytes_init b)"
| "bb_bytes_init (Sliced s) = slice_bytes_init buffer_io_buf s"

fun bb_bytes_total :: "bounded \<Rightarrow> nat" where
  "bb_bytes_total (Whole b) = buffer_bytes_total b"
| "bb_bytes_total (Sliced s) = slice_bytes_total s"

fun bb_set_init :: "nat \<Rightarrow> bounded \<Rightarrow> bounded" where
  "bb_set_init n (Whole b) = Whole (buffer_set_init n b)"
| "bb_set_init n (Sliced s) = Sliced (slice_set_init buffer_io_buf n s)"

fun bb_slice_full :: "bounded \<Rightarrow> buffer slice" where
  "bb_slice_full (Whole b) = buf_slice_full buffer_io_buf b"
| "bb_slice_full (Sliced s) = s"

text \<open>\<^verbatim>\<open>bounds\<close> and \<^verbatim>\<open>from_buf_bounds\<close>: \<open>None\<close> is the full range of a whole buffer.\<close>

fun bb_bounds :: "bounded \<Rightarrow> (nat \<times> nat) option" where
  "bb_bounds (Whole b) = None"
| "bb_bounds (Sliced s) = Some (slice_bounds s)"

fun bb_from_buf_bounds :: "buffer \<Rightarrow> (nat \<times> nat) option \<Rightarrow> bounded exec" where
  "bb_from_buf_bounds b None = Inr (Whole b)"
| "bb_from_buf_bounds b (Some bs) = bind_exec (from_buf_bounds buffer_io_buf b bs) (\<lambda>s. Inr (Sliced s))"

section \<open>Reading and writing at an offset\<close>

record rw_data =
  rw_fd :: raw_fd
  rw_buf :: buffer

datatype rw_kind = Read | Write

text \<open>The index of a registered buffer, behind the erased user data.\<close>

definition fixed_index :: "buffer \<Rightarrow> u16 option" where
  "fixed_index b =
     (if bf_ty b = TyRegistryBuf then (case bf_user_data b of RegistryInfo r i \<Rightarrow> Some i | _ \<Rightarrow> None)
      else if bf_ty b = TyPoolBuf then (case bf_user_data b of PoolInfo p i \<Rightarrow> Some i | _ \<Rightarrow> None)
      else None)"

definition write_at :: "raw_fd \<Rightarrow> buffer \<Rightarrow> nat \<Rightarrow> (rw_data, rw_kind) unsubmitted" where
  "write_at fd buf offset =
     (let ptr = buffer_stable_ptr buf; len = buffer_bytes_init buf;
          c = (if buffer_len buf = 1 then
                 (case fixed_index buf of
                    Some buf_index \<Rightarrow> OpWriteFixed fd ptr (of_nat len) buf_index offset
                  | None \<Rightarrow> OpWrite fd ptr (of_nat len) offset)
               else OpWritev fd ptr (of_nat (buffer_len buf)) offset)
      in unsubmitted_new \<lparr>rw_fd = fd, rw_buf = buf\<rparr> Write (sqe_build c))"

definition read_at :: "raw_fd \<Rightarrow> buffer \<Rightarrow> nat \<Rightarrow> (rw_data, rw_kind) unsubmitted" where
  "read_at fd buf offset =
     (let ptr = buffer_stable_ptr buf; len = buffer_bytes_total buf;
          buf' = buffer_fill buf;
          c = (if buffer_len buf' = 1 then
                 (case fixed_index buf' of
                    Some buf_index \<Rightarrow> OpReadFixed fd ptr (of_nat len) buf_index offset
                  | None \<Rightarrow> OpRead fd ptr (of_nat len) offset)
               else OpReadv fd ptr (of_nat (buffer_len buf')) offset)
      in unsubmitted_new \<lparr>rw_fd = fd, rw_buf = buf'\<rparr> Read (sqe_build c))"

definition rw_transform :: "rw_kind \<Rightarrow> rw_data \<Rightarrow> cqe \<Rightarrow> (nat, buffer) buf_result" where
  "rw_transform kind data cqe =
     (let n = cq_result cqe in
      if n <s 0 then Err (OsError (- n), rw_buf data)
      else Ok (unat n, if kind = Read then buffer_set_init (unat n) (rw_buf data) else rw_buf data))"

section \<open>Registered buffers\<close>

definition no_fixed_buf :: panic where
  "no_fixed_buf = Explicit ''Buffer must be created from FixedBuf''"

definition read_fixed_sqe :: "raw_fd \<Rightarrow> nat \<Rightarrow> bounded \<Rightarrow> sqe exec" where
  "read_fixed_sqe fd offset buf =
     bind_exec (bb_stable_ptr buf) (\<lambda>ptr.
       case fixed_index (bb_get_buf buf) of
         None \<Rightarrow> Inl no_fixed_buf
       | Some buf_index \<Rightarrow>
           Inr (sqe_build (OpReadFixed fd ptr (of_nat (bb_bytes_total buf)) buf_index offset)))"

definition read_fixed_complete :: "bounded \<Rightarrow> cqe_result \<Rightarrow> (nat, bounded) buf_result" where
  "read_fixed_complete buf cqe =
     (let res = result_map unat (cr_result cqe) in
      with_buffer res (case res of Ok n \<Rightarrow> bb_set_init n buf | Err e \<Rightarrow> buf))"

definition write_fixed_sqe :: "raw_fd \<Rightarrow> nat \<Rightarrow> bounded \<Rightarrow> sqe exec" where
  "write_fixed_sqe fd offset buf =
     bind_exec (bb_stable_ptr buf) (\<lambda>ptr.
     bind_exec (bb_bytes_init buf) (\<lambda>len.
       case fixed_index (bb_get_buf buf) of
         None \<Rightarrow> Inl no_fixed_buf
       | Some buf_index \<Rightarrow> Inr (sqe_build (OpWriteFixed fd ptr (of_nat len) buf_index offset))))"

definition write_fixed_complete :: "'b \<Rightarrow> cqe_result \<Rightarrow> (nat, 'b) buf_result" where
  "write_fixed_complete buf cqe = with_buffer (result_map unat (cr_result cqe)) buf"

section \<open>Writing a whole buffer\<close>

text \<open>\<open>perform\<close> runs an entry to its completion: the result the kernel posts and the state after.\<close>

type_synonym 's kernel = "opcode \<Rightarrow> 's \<Rightarrow> cqe_result \<times> 's"

definition write_fixed_await ::
  "'s kernel \<Rightarrow> raw_fd \<Rightarrow> buffer slice \<Rightarrow> nat \<Rightarrow> 's \<Rightarrow> ((nat, buffer slice) buf_result \<times> 's) exec" where
  "write_fixed_await perform fd s pos st =
     bind_exec (write_fixed_sqe fd pos (Sliced s)) (\<lambda>e.
       case perform (sqe_op e) st of (cqe, st') \<Rightarrow> Inr (write_fixed_complete s cqe, st'))"

definition write_zero :: io_error where
  "write_zero = KindError WriteZero ''failed to write whole buffer''"

lemma slice_from_dec:
  assumes "slice_bytes_init buffer_io_buf s = Inr m" and "m \<noteq> 0"
    and "slice_slice buffer_io_buf s (Included n) Unbounded = Inr s'" and "0 < n"
  shows "min (s_end s') (buffer_bytes_init (s_buf s')) - s_begin s' < min (s_end s) (buffer_bytes_init (s_buf s)) - s_begin s"
    and "s_buf s' = s_buf s" and "s_end s' = s_end s" and "s_begin s' = s_begin s + n"
  using assms
  by (auto simp: slice_bytes_init_def slice_deref_def buf_deref_def Let_def slice_slice_def bind_exec_eq_Inr
      expect_in_range_Inr checked_add_Some split: if_splits)

text \<open>
  \<^verbatim>\<open>File::write_fixed_all_at_slice\<close>, the loop. The completion of a write hands back the slice
  that was submitted, so the remaining slice is cut from \<open>s\<close> itself.
\<close>

function write_all_at_loop ::
  "'s kernel \<Rightarrow> raw_fd \<Rightarrow> buffer slice \<Rightarrow> nat \<Rightarrow> 's \<Rightarrow> ((unit, buffer) buf_result \<times> 's) exec" where
  "write_all_at_loop perform fd s pos st =
     bind_exec (slice_bytes_init buffer_io_buf s) (\<lambda>m.
       if m = 0 then Inr (Ok ((), into_inner s), st)
       else bind_exec (write_fixed_await perform fd s pos st) (\<lambda>(r, st').
         case r of
           Err e \<Rightarrow> Inr (Err (error_map into_inner e), st')
         | Ok (n, sl) \<Rightarrow>
             if n = 0 then Inr (Err (write_zero, into_inner sl), st')
             else bind_exec (slice_slice buffer_io_buf s (Included n) Unbounded) (\<lambda>s'.
               write_all_at_loop perform fd s' (wrapping_add pos n) st')))"
  by pat_completeness auto
termination
  by (relation "measure (\<lambda>(perform, fd, s, pos, st).
        min (s_end s) (buffer_bytes_init (s_buf s)) - s_begin s)") (auto dest: slice_from_dec(1))

declare write_all_at_loop.simps [simp del]

definition write_all_at_slice ::
  "'s kernel \<Rightarrow> raw_fd \<Rightarrow> buffer slice \<Rightarrow> nat \<Rightarrow> 's \<Rightarrow> ((unit, buffer) buf_result \<times> 's) exec" where
  "write_all_at_slice perform fd s pos st =
     bind_exec (slice_bytes_init buffer_io_buf s) (\<lambda>m.
       if checked_add pos m = None then
         Inr (Err (KindError InvalidInput ''buffer too large for file'', into_inner s), st)
       else write_all_at_loop perform fd s pos st)"

definition lift_bounds ::
  "(nat \<times> nat) option \<Rightarrow> (unit, buffer) buf_result \<times> 's \<Rightarrow> ((unit, bounded) buf_result \<times> 's) exec" where
  "lift_bounds bs x =
     (case x of
        (Ok (r, b), st) \<Rightarrow> bind_exec (bb_from_buf_bounds b bs) (\<lambda>t. Inr (Ok (r, t), st))
      | (Err (e, b), st) \<Rightarrow> bind_exec (bb_from_buf_bounds b bs) (\<lambda>t. Inr (Err (e, t), st)))"

definition write_fixed_all_at ::
  "'s kernel \<Rightarrow> raw_fd \<Rightarrow> bounded \<Rightarrow> nat \<Rightarrow> 's \<Rightarrow> ((unit, bounded) buf_result \<times> 's) exec" where
  "write_fixed_all_at perform fd buf pos st =
     bind_exec (write_all_at_slice perform fd (bb_slice_full buf) pos st) (lift_bounds (bb_bounds buf))"

text \<open>\<^verbatim>\<open>Socket::write_fixed_all_slice\<close>: the same loop, always at offset 0.\<close>

function socket_write_all_loop ::
  "'s kernel \<Rightarrow> raw_fd \<Rightarrow> buffer slice \<Rightarrow> 's \<Rightarrow> ((unit, buffer) buf_result \<times> 's) exec" where
  "socket_write_all_loop perform fd s st =
     bind_exec (slice_bytes_init buffer_io_buf s) (\<lambda>m.
       if m = 0 then Inr (Ok ((), into_inner s), st)
       else bind_exec (write_fixed_await perform fd s 0 st) (\<lambda>(r, st').
         case r of
           Err e \<Rightarrow> Inr (Err (error_map into_inner e), st')
         | Ok (n, sl) \<Rightarrow>
             if n = 0 then Inr (Err (write_zero, into_inner sl), st')
             else bind_exec (slice_slice buffer_io_buf s (Included n) Unbounded) (\<lambda>s'.
               socket_write_all_loop perform fd s' st')))"
  by pat_completeness auto
termination
  by (relation "measure (\<lambda>(perform, fd, s, st).
        min (s_end s) (buffer_bytes_init (s_buf s)) - s_begin s)") (auto dest: slice_from_dec(1))

declare socket_write_all_loop.simps [simp del]

definition socket_write_fixed_all ::
  "'s kernel \<Rightarrow> raw_fd \<Rightarrow> bounded \<Rightarrow> 's \<Rightarrow> ((unit, bounded) buf_result \<times> 's) exec" where
  "socket_write_fixed_all perform fd buf st =
     bind_exec (socket_write_all_loop perform fd (bb_slice_full buf) st) (lift_bounds (bb_bounds buf))"

section \<open>What the loops write\<close>

text \<open>A kernel that keeps the list of the entries it performed with their results.\<close>

definition logged :: "'s kernel \<Rightarrow> ((opcode \<times> cqe_result) list \<times> 's) kernel" where
  "logged perform c st =
     (case perform c (snd st) of (cqe, s') \<Rightarrow> (cqe, fst st @ [(c, cqe)], s'))"

text \<open>
  The performed writes are consecutive pieces of the memory from \<open>a\<close> to \<open>b\<close>, and (with
  \<open>step\<close>) go to consecutive file positions from \<open>pos\<close>.
\<close>

fun pieces :: "bool \<Rightarrow> (opcode \<times> cqe_result) list \<Rightarrow> addr \<Rightarrow> nat \<Rightarrow> addr \<Rightarrow> bool" where
  "pieces step [] a pos b \<longleftrightarrow> a = b"
| "pieces step ((OpWriteFixed fd p len i off, c) # l) a pos b \<longleftrightarrow>
     p = a \<and> off = pos \<and> (\<exists>n. cr_result c = Ok n \<and> 0 < unat n
     \<and> pieces step l (a + unat n) (if step then pos + unat n else pos) b)"
| "pieces step (x # l) a pos b \<longleftrightarrow> False"

lemma slice_from:
  assumes "slice_slice buffer_io_buf s (Included n) Unbounded = Inr s'"
  shows "s' = slice_new (s_buf s) (s_begin s + n) (s_end s)" and "s_begin s + n \<le> s_end s"
    and "s_begin s + n \<le> buffer_bytes_init (s_buf s)"
  using assms
  by (auto simp: slice_slice_def bind_exec_eq_Inr expect_in_range_Inr checked_add_Some split: if_splits)

text \<open>One round of a loop: the write it performs and the slice that remains.\<close>

lemma write_round:
  assumes m: "slice_bytes_init buffer_io_buf s = Inr m" "m \<noteq> 0"
    and w: "write_fixed_await (logged perform) fd s pos (log, st) = Inr (Ok (n, sl), log', st')"
    and sl: "slice_slice buffer_io_buf s (Included n) Unbounded = Inr s'"
  obtains len i c where "log' = log @ [(OpWriteFixed fd (buffer_stable_ptr (s_buf s) + s_begin s) len i pos, c)]"
    and "cr_result c = Ok (of_nat n)" and "unat (of_nat n :: u32) = n"
    and "m = min (s_end s) (buffer_bytes_init (s_buf s)) - s_begin s" and "n \<le> m"
    and "slice_bytes_init buffer_io_buf s' = Inr (m - n)"
proof -
  have mm: "m = min (s_end s) (buffer_bytes_init (s_buf s)) - s_begin s"
    and le: "s_begin s \<le> min (s_end s) (buffer_bytes_init (s_buf s))"
    using m by (auto simp: slice_bytes_init_def slice_deref_def buf_deref_def Let_def split: if_splits)
  from w obtain e c where e: "write_fixed_sqe fd pos (Sliced s) = Inr e"
    and c: "write_fixed_complete s c = Ok (n, sl)" "log' = log @ [(sqe_op e, c)]"
    by (auto simp: write_fixed_await_def logged_def bind_exec_eq_Inr split: prod.splits)
  from e obtain i where i: "sqe_op e = OpWriteFixed fd (buffer_stable_ptr (s_buf s) + s_begin s) (of_nat m) i pos"
    using m(1) by (auto simp: write_fixed_sqe_def bind_exec_eq_Inr slice_stable_ptr_def buf_deref_def sqe_build_def
        split: option.splits if_splits)
  from c(1) obtain k where k: "cr_result c = Ok k" "unat k = n"
    by (cases "cr_result c") (auto simp: write_fixed_complete_def)
  then have "k = of_nat n" by auto
  moreover note slice_from [OF sl]
  ultimately show ?thesis using i c(2) k mm le
    by (intro that) (auto simp: slice_bytes_init_def slice_deref_def buf_deref_def Let_def)
qed

lemma write_all_at_pieces:
  assumes "write_all_at_loop (logged perform) fd s pos (log, st) = Inr (Ok ((), b), log', st')"
    and "slice_bytes_init buffer_io_buf s = Inr m" and "pos + m \<le> usize_MAX"
  shows "b = s_buf s \<and> (\<exists>l. log' = log @ l \<and> pieces True l (buffer_stable_ptr (s_buf s) + s_begin s) pos
      (buffer_stable_ptr (s_buf s) + s_begin s + m))"
  using assms
proof (induction "(logged perform)" fd s pos "(log, st)" arbitrary: log st m rule: write_all_at_loop.induct)
  case (1 fd s pos log st)
  show ?case
  proof (cases "m = 0")
    case True
    with "1.prems" show ?thesis by (subst (asm) write_all_at_loop.simps) (auto simp: into_inner_def)
  next
    case False
    from "1.prems"(1) obtain r log1 st1 where
      w: "write_fixed_await (logged perform) fd s pos (log, st) = Inr (r, log1, st1)"
      using "1.prems"(2) False by (subst (asm) write_all_at_loop.simps) (auto simp: bind_exec_eq_Inr)
    with "1.prems"(1,2) False obtain n sl s' where r: "r = Ok (n, sl)" "n \<noteq> 0"
      "slice_slice buffer_io_buf s (Included n) Unbounded = Inr s'"
      "write_all_at_loop (logged perform) fd s' (wrapping_add pos n) (log1, st1) = Inr (Ok ((), b), log', st')"
      by (subst (asm) write_all_at_loop.simps)
         (auto simp: bind_exec_eq_Inr error_map.simps split: result.splits if_splits prod.splits)
    from write_round [OF "1.prems"(2) False w [unfolded r(1)] r(3)] obtain len i c where
      round: "log1 = log @ [(OpWriteFixed fd (buffer_stable_ptr (s_buf s) + s_begin s) len i pos, c)]"
        "cr_result c = Ok (of_nat n)" "unat (of_nat n :: u32) = n" "n \<le> m"
        "slice_bytes_init buffer_io_buf s' = Inr (m - n)" by metis
    have pos: "wrapping_add pos n = pos + n" using "1.prems"(3) round(4) by (simp add: wrapping_add_def)
    from "1.hyps" [OF "1.prems"(2) False w refl r(1) refl r(2-4) round(5)] round(4) pos "1.prems"(3)
    obtain l where l: "b = s_buf s'" "log' = log1 @ l"
      "pieces True l (buffer_stable_ptr (s_buf s') + s_begin s') (pos + n) (buffer_stable_ptr (s_buf s') + s_begin s' + (m - n))"
      by auto
    note sf = slice_from [OF r(3)]
    show ?thesis
      using l round r(2) sf(1)
      by (auto intro!: exI [of _ "(OpWriteFixed fd (buffer_stable_ptr (s_buf s) + s_begin s) len i pos, c) # l"] simp: add.assoc)
  qed
qed

section \<open>Properties\<close>

definition demo_fixed :: buffer where
  "demo_fixed = \<lparr>bf_iovec = [mk_iovec 4096 5], bf_iovec_ptr = 64, bf_cap = [8],
     bf_user_data = PoolInfo 0 3, bf_ty = TyPoolBuf\<rparr>"

text \<open>A kernel that accepts at most three bytes per write.\<close>

definition demo_kernel :: "unit kernel" where
  "demo_kernel c st =
     (case c of
        OpWriteFixed fd p len i off \<Rightarrow> (\<lparr>cr_result = Ok (min len 3), cr_flags = 0\<rparr>, st)
      | _ \<Rightarrow> (\<lparr>cr_result = Err (OsError 22), cr_flags = 0\<rparr>, st))"

text \<open>
  C31. When \<^verbatim>\<open>write_fixed_all_at\<close> succeeds, every initialized byte of the slice has been written
  exactly once: the writes it performed are consecutive pieces of the memory of the slice, they go
  to consecutive positions of the file, and together they end where the slice's data ends. The
  buffer comes back as it was.
\<close>

theorem write_all_is_contiguous:
  assumes "write_all_at_slice (logged perform) fd s pos ([], st) = Inr (Ok ((), b), log, st')"
    and "slice_bytes_init buffer_io_buf s = Inr m"
  shows "b = s_buf s \<and> pieces True log (buffer_stable_ptr (s_buf s) + s_begin s) pos
      (buffer_stable_ptr (s_buf s) + s_begin s + m)"
proof -
  from assms have "pos + m \<le> usize_MAX"
    and "write_all_at_loop (logged perform) fd s pos ([], st) = Inr (Ok ((), b), log, st')"
    by (auto simp: write_all_at_slice_def checked_add_def split: if_splits)
  from write_all_at_pieces [OF this(2) assms(2) this(1)] show ?thesis by simp
qed

lemma demo_write_sqe:
  "write_fixed_sqe 7 pos (Sliced (slice_new demo_fixed x 8)) =
     (if x \<le> 5 then Inr (sqe_build (OpWriteFixed 7 (4096 + x) (of_nat (5 - x)) 3 pos)) else Inl IndexOutOfBounds)"
  by (simp add: write_fixed_sqe_def slice_stable_ptr_def slice_bytes_init_def slice_deref_def buf_deref_def Let_def
      demo_fixed_def buffer_stable_ptr_def buffer_bytes_init_def mk_iovec_def fixed_index_def)

lemma demo_write_init: "slice_bytes_init buffer_io_buf (slice_new demo_fixed x 8) = (if x \<le> 5 then Inr (5 - x) else Inl IndexOutOfBounds)"
  by (simp add: slice_bytes_init_def slice_deref_def buf_deref_def Let_def demo_fixed_def buffer_bytes_init_def mk_iovec_def)

lemma demo_write_all:
  "write_all_at_slice (logged demo_kernel) 7 (slice_new demo_fixed 0 8) 100 ([], ()) = Inr (Ok ((), demo_fixed),
     [(OpWriteFixed 7 4096 5 3 100, \<lparr>cr_result = Ok 3, cr_flags = 0\<rparr>),
      (OpWriteFixed 7 4099 2 3 103, \<lparr>cr_result = Ok 2, cr_flags = 0\<rparr>)], ())"
proof -
  have sl: "slice_slice buffer_io_buf (slice_new demo_fixed x 8) (Included n) Unbounded =
      (if x + n \<le> 5 then Inr (slice_new demo_fixed (x + n) 8) else Inl Assertion)" if "n \<le> 3" "x \<le> 5" for x n
    using that by (auto simp: slice_slice_def expect_in_range_def checked_add_def usize_MAX_def demo_fixed_def
        buffer_bytes_init_def mk_iovec_def)
  have aw: "write_fixed_await (logged demo_kernel) 7 (slice_new demo_fixed x 8) pos (log, ()) =
      Inr (Ok (unat (min (of_nat (5 - x)) 3 :: u32), slice_new demo_fixed x 8),
        log @ [(OpWriteFixed 7 (4096 + x) (of_nat (5 - x)) 3 pos, \<lparr>cr_result = Ok (min (of_nat (5 - x)) 3), cr_flags = 0\<rparr>)], ())"
    if "x \<le> 5" for x pos log
    using that by (simp add: write_fixed_await_def demo_write_sqe logged_def demo_kernel_def sqe_build_def write_fixed_complete_def)
  show ?thesis
    by (simp add: write_all_at_slice_def demo_write_init checked_add_def usize_MAX_def
        write_all_at_loop.simps [of _ 7 "slice_new demo_fixed 0 8"] write_all_at_loop.simps [of _ 7 "slice_new demo_fixed 3 8"]
        write_all_at_loop.simps [of _ 7 "slice_new demo_fixed 5 8"] aw sl wrapping_add_def into_inner_def)
qed

theorem write_all_is_contiguous_witness:
  "pieces True [(OpWriteFixed 7 4096 5 3 100, \<lparr>cr_result = Ok 3, cr_flags = 0\<rparr>),
      (OpWriteFixed 7 4099 2 3 103, \<lparr>cr_result = Ok 2, cr_flags = 0\<rparr>)] 4096 100 4101"
  using write_all_is_contiguous [OF demo_write_all, of 5]
  by (simp add: demo_write_init)

text \<open>
  A successful read gives the buffer back with exactly the bytes read counted as initialized,
  in the same memory.
\<close>

lemma read_marks_bytes_read:
  assumes "buffer_wf buf" and "0 <=s cq_result cqe" and "unat (cq_result cqe) \<le> buffer_bytes_total buf"
  shows "\<exists>b. rw_transform Read (us_stable_data (read_at fd buf offset)) cqe = Ok (unat (cq_result cqe), b)
    \<and> buffer_bytes_init b = unat (cq_result cqe) \<and> buffer_wf b
    \<and> map iov_base (bf_iovec b) = map iov_base (bf_iovec buf) \<and> bf_cap b = bf_cap buf"
proof -
  have fill: "buffer_fill buf = buffer_set_init (buffer_bytes_total buf) buf"
    using fill_iov_is_set_init [OF buffer_wf_length [OF assms(1)]]
    by (simp add: buffer_fill_def buffer_set_init_def buffer_bytes_total_def)
  have wf: "buffer_wf (buffer_fill buf)" unfolding fill by (rule buffer_set_init_wf [OF assms(1)])
  have tot: "buffer_bytes_total (buffer_fill buf) = buffer_bytes_total buf"
    by (simp add: buffer_fill_def buffer_bytes_total_def)
  have "\<not> cq_result cqe <s 0" using assms(2) by (simp add: word_sless_alt word_sle_eq)
  then show ?thesis
    using buffer_set_init_bytes [OF wf] buffer_set_init_wf [OF wf] assms(3) tot fill
    by (auto simp: rw_transform_def read_at_def unsubmitted_new_def Let_def buffer_set_init_def)
qed

text \<open>
  A failed read gives the buffer back with its whole capacity counted as initialized, although
  nothing was read: \<^verbatim>\<open>read_at\<close> fills the lengths before the operation and the error path does
  not restore them.
\<close>

lemma failed_read_exposes_capacity:
  assumes "buffer_wf buf" and "cq_result cqe <s 0"
  shows "\<exists>b. rw_transform Read (us_stable_data (read_at fd buf offset)) cqe = Err (OsError (- cq_result cqe), b)
    \<and> buffer_bytes_init b = buffer_bytes_total buf"
proof -
  have "buffer_fill buf = buffer_set_init (buffer_bytes_total buf) buf"
    using fill_iov_is_set_init [OF buffer_wf_length [OF assms(1)]]
    by (simp add: buffer_fill_def buffer_set_init_def buffer_bytes_total_def)
  then have "buffer_bytes_init (buffer_fill buf) = buffer_bytes_total buf"
    using buffer_set_init_bytes [OF assms(1)] by simp
  then show ?thesis using assms(2) by (simp add: rw_transform_def read_at_def unsubmitted_new_def Let_def)
qed

end
