(* ===== verification/Recv_Multishot.thy ===== *)
theory Recv_Multishot
  imports Driver_Properties "HOL-Library.Multiset"
begin

text \<open>
  \<^verbatim>\<open>src/src/io/recv_from_multishot.rs\<close> and \<^verbatim>\<open>src/src/io/provide_buffers.rs\<close>: the multishot
  receive, the one operation of the crate whose completions carry the \<^verbatim>\<open>more\<close> flag. Each
  completion hands over a buffer of a provided group; the operation parses the header the kernel
  wrote into it and collects the packets until they are yielded. The locale \<open>multishot_op\<close> is
  what the driver relies on of such data; it is interpreted on this operation.
\<close>

section \<open>Parsing the header\<close>

text \<open>\<^verbatim>\<open>u32::from_le_bytes\<close>, as a \<^verbatim>\<open>usize\<close>.\<close>

definition le_u32 :: "u8 list \<Rightarrow> nat \<Rightarrow> nat" where
  "le_u32 b i = unat (b ! i) + 256 * unat (b ! (i + 1)) + 65536 * unat (b ! (i + 2)) + 16777216 * unat (b ! (i + 3))"

definition invalid_data :: "string \<Rightarrow> io_error" where
  "invalid_data m = KindError InvalidData m"

definition sockaddr_in_size :: nat where "sockaddr_in_size = 16"

text \<open>
  \<open>as_socket\<close> stands for \<^verbatim>\<open>socket2\<close>: the socket address in the bytes of a \<^verbatim>\<open>sockaddr\<close>.
  Slicing the name panics when the announced length leaves the buffer. The messages of the errors
  stand for the formatted ones.
\<close>

definition parse_recvmsg_out ::
  "(u8 list \<Rightarrow> socket_addr option) \<Rightarrow> u8 list \<Rightarrow> nat \<Rightarrow> nat
   \<Rightarrow> (socket_addr \<times> nat \<times> nat, io_error) result exec" where
  "parse_recvmsg_out as_socket buffer namelen controllen =
     (if length buffer < 16 then Inr (Err (invalid_data ''Buffer too small for RecvMsgOut header''))
      else
        let actual_len = le_u32 buffer 0;
            payloadlen = le_u32 buffer 8;
            header_size = 16;
            payload_offset = header_size + namelen + controllen;
            total_size = payload_offset + payloadlen
        in if length buffer < total_size then Inr (Err (invalid_data ''Buffer too small''))
           else if length buffer < header_size + actual_len then Inl IndexOutOfBounds
           else
             let name_data = take actual_len (drop header_size buffer) in
             if actual_len \<ge> sockaddr_in_size then
               (case as_socket name_data of
                  Some source_addr \<Rightarrow> Inr (Ok (source_addr, payload_offset, payloadlen))
                | None \<Rightarrow> Inr (Err (invalid_data ''Invalid socket address'')))
             else Inr (Err (invalid_data ''Name length too small'')))"

section \<open>The operation\<close>

record packet =
  pk_bytes_received :: nat
  pk_source_addr :: socket_addr
  pk_buffer_id :: u16
  pk_payload_offset :: nat
  pk_more :: bool

record batch =
  bt_packets :: "packet list"
  bt_unparsed_buffers :: "u16 list"
  bt_end :: "(unit, io_error) result option"

text \<open>
  The data of the operation. The buffer provider, a trait object of the caller, is a parameter of
  the methods.
\<close>

record recv_multishot =
  rf_fd :: raw_fd
  rf_buf_group_id :: u16
  rf_socket_addr :: "sock_addr boxed"
  rf_msghdr :: "msghdr boxed"
  rf_io_slices :: "iovec list"
  rf_iov_target :: addr
  rf_batch :: "packet list"
  rf_unparsed_buffers :: "u16 list"
  rf_batch_size :: nat
  rf_msg_namelen :: nat
  rf_msg_controllen :: nat

type_synonym provider = "u16 \<Rightarrow> nat \<Rightarrow> u8 list"

definition MAX_PAYLOAD :: nat where "MAX_PAYLOAD = 1500"

text \<open>
  \<^verbatim>\<open>recv_from_multishot_with_batch_size\<close>: the data and the entry. \<open>name\<close> is the boxed empty address
  that \<^verbatim>\<open>socket2\<close> makes, \<open>target\<close> and \<open>at\<close> are the addresses of the other two boxes.
\<close>

definition recv_multishot_new ::
  "sock_addr boxed \<Rightarrow> addr \<Rightarrow> addr \<Rightarrow> raw_fd \<Rightarrow> u16 \<Rightarrow> nat \<Rightarrow> recv_multishot" where
  "recv_multishot_new name target at fd bgid n =
     (let io_slices = [\<lparr>iov_base = target, iov_len = MAX_PAYLOAD\<rparr>];
          namelen = sa_len (box_val name);
          controllen = 0
      in \<lparr>rf_fd = fd, rf_buf_group_id = bgid, rf_socket_addr = name,
          rf_msghdr = \<lparr>box_ptr = at, box_val = \<lparr>msg_iov = io_slices, msg_iovlen = 1,
            msg_name = box_ptr name, msg_namelen = namelen, msg_control = 0, msg_controllen = controllen\<rparr>\<rparr>,
          rf_io_slices = io_slices, rf_iov_target = target, rf_batch = [], rf_unparsed_buffers = [],
          rf_batch_size = n, rf_msg_namelen = namelen, rf_msg_controllen = controllen\<rparr>)"

definition recv_multishot_default ::
  "sock_addr boxed \<Rightarrow> addr \<Rightarrow> addr \<Rightarrow> raw_fd \<Rightarrow> u16 \<Rightarrow> recv_multishot" where
  "recv_multishot_default name target at fd bgid = recv_multishot_new name target at fd bgid 32"

definition recv_multishot_sqe :: "recv_multishot \<Rightarrow> (sqe \<times> recv_multishot) exec" where
  "recv_multishot_sqe d = Inr (sqe_build (OpRecvMsgMulti (rf_fd d) (box_val (rf_msghdr d)) (rf_buf_group_id d)), d)"

definition record_packet ::
  "'u uring_api \<Rightarrow> (u8 list \<Rightarrow> socket_addr option) \<Rightarrow> provider \<Rightarrow> nat \<Rightarrow> u32 \<Rightarrow> recv_multishot \<Rightarrow> recv_multishot exec" where
  "record_packet api as_socket prov n flags d =
     (case u_buffer_select api flags of
        None \<Rightarrow> Inr d
      | Some buffer_id \<Rightarrow>
          bind_exec (parse_recvmsg_out as_socket (prov buffer_id n) (rf_msg_namelen d) (rf_msg_controllen d)) (\<lambda>r.
            case r of
              Ok (source_addr, payload_offset, payloadlen) \<Rightarrow>
                Inr (d\<lparr>rf_batch := rf_batch d @ [\<lparr>pk_bytes_received = payloadlen, pk_source_addr = source_addr,
                  pk_buffer_id = buffer_id, pk_payload_offset = payload_offset, pk_more = u_more api flags\<rparr>]\<rparr>)
            | Err e \<Rightarrow> Inr (d\<lparr>rf_unparsed_buffers := rf_unparsed_buffers d @ [buffer_id]\<rparr>)))"

definition take_batch :: "(unit, io_error) result option \<Rightarrow> recv_multishot \<Rightarrow> batch \<times> recv_multishot" where
  "take_batch en d =
     (\<lparr>bt_packets = rf_batch d, bt_unparsed_buffers = rf_unparsed_buffers d, bt_end = en\<rparr>,
      d\<lparr>rf_batch := [], rf_unparsed_buffers := []\<rparr>)"

definition recv_complete ::
  "'u uring_api \<Rightarrow> (u8 list \<Rightarrow> socket_addr option) \<Rightarrow> provider \<Rightarrow> recv_multishot \<Rightarrow> cqe_result \<Rightarrow> batch exec" where
  "recv_complete api as_socket prov d cqe =
     (case cr_result cqe of
        Ok n \<Rightarrow> bind_exec (record_packet api as_socket prov (unat n) (cr_flags cqe) d) (\<lambda>d'.
          Inr (fst (take_batch (Some (Ok ())) d')))
      | Err e \<Rightarrow> Inr (fst (take_batch (Some (Err e)) d)))"

definition recv_update ::
  "'u uring_api \<Rightarrow> (u8 list \<Rightarrow> socket_addr option) \<Rightarrow> provider \<Rightarrow> recv_multishot \<Rightarrow> cqe_result \<Rightarrow> recv_multishot exec" where
  "recv_update api as_socket prov d cqe =
     (case cr_result cqe of
        Ok n \<Rightarrow> record_packet api as_socket prov (unat n) (cr_flags cqe) d
      | Err e \<Rightarrow> Inr d)"

definition recv_should_yield :: "recv_multishot \<Rightarrow> bool" where
  "recv_should_yield d \<longleftrightarrow> rf_batch d \<noteq> [] \<or> rf_unparsed_buffers d \<noteq> []"

definition recv_yield_result :: "recv_multishot \<Rightarrow> (batch \<times> recv_multishot) exec" where
  "recv_yield_result d = Inr (take_batch None d)"

definition recv_up ::
  "'u uring_api \<Rightarrow> (u8 list \<Rightarrow> socket_addr option) \<Rightarrow> provider \<Rightarrow> (recv_multishot, batch) updateable" where
  "recv_up api as_socket prov =
     \<lparr>co_complete = recv_complete api as_socket prov, up_update = recv_update api as_socket prov,
      up_should_yield = recv_should_yield, up_yield_result = recv_yield_result\<rparr>"

section \<open>Providing buffers\<close>

record provide_buffers =
  pb_addr :: addr
  pb_len :: i32
  pb_nbufs :: u16
  pb_bgid :: u16
  pb_bid :: u16

definition provide_buffers_new :: "addr \<Rightarrow> nat \<Rightarrow> nat \<Rightarrow> u16 \<Rightarrow> u16 \<Rightarrow> provide_buffers" where
  "provide_buffers_new addr len nbufs bgid bid =
     \<lparr>pb_addr = addr, pb_len = of_nat len, pb_nbufs = of_nat nbufs, pb_bgid = bgid, pb_bid = bid\<rparr>"

definition provide_buffers_sqe :: "provide_buffers \<Rightarrow> (sqe \<times> provide_buffers) exec" where
  "provide_buffers_sqe p =
     Inr (sqe_build (OpProvideBuffers (pb_addr p) (pb_len p) (pb_nbufs p) (pb_bgid p) (pb_bid p)), p)"

definition provide_buffers_complete :: "provide_buffers \<Rightarrow> cqe_result \<Rightarrow> (unit, io_error) result" where
  "provide_buffers_complete p cqe = (case cr_result cqe of Ok n \<Rightarrow> Ok () | Err e \<Rightarrow> Err e)"

section \<open>What the driver relies on\<close>

locale multishot_op =
  fixes up :: "('d, 'o) updateable"
    and mem :: "'d \<Rightarrow> 'm"
  assumes update_mem: "up_update up d c = Inr d' \<Longrightarrow> mem d' = mem d"
    and yield_mem: "up_yield_result up d = Inr (out, d') \<Longrightarrow> mem d' = mem d"
begin

lemma stable: "mem_stable up mem"
  using update_mem yield_mem by (auto simp: mem_stable_def)

lemma reach_inv:
  "sys_reach is_more la ca up mem s \<Longrightarrow> slab_alloc_ok la \<Longrightarrow> slab_alloc_ok ca \<Longrightarrow> sys_inv is_more mem s"
  by (rule sys_reach_inv [OF _ _ _ stable])

end

text \<open>The memory the kernel was given: the boxed message header and what it points to.\<close>

definition recv_mem :: "recv_multishot \<Rightarrow> msghdr boxed \<times> sock_addr boxed \<times> iovec list \<times> addr" where
  "recv_mem d = (rf_msghdr d, rf_socket_addr d, rf_io_slices d, rf_iov_target d)"

lemma record_packet_cases:
  assumes "record_packet api as_socket prov n flags d = Inr d'"
  shows "(u_buffer_select api flags = None \<and> d' = d)
    \<or> (\<exists>p. u_buffer_select api flags = Some (pk_buffer_id p) \<and> d' = d\<lparr>rf_batch := rf_batch d @ [p]\<rparr>)
    \<or> (\<exists>b. u_buffer_select api flags = Some b \<and> d' = d\<lparr>rf_unparsed_buffers := rf_unparsed_buffers d @ [b]\<rparr>)"
proof (cases "u_buffer_select api flags")
  case None
  with assms show ?thesis by (simp add: record_packet_def)
next
  case (Some b)
  with assms obtain r where r: "parse_recvmsg_out as_socket (prov b n) (rf_msg_namelen d) (rf_msg_controllen d) = Inr r"
    by (auto simp: record_packet_def bind_exec_eq_Inr)
  show ?thesis
  proof (cases r)
    case (Ok x)
    obtain sa off len where x: "x = (sa, off, len)" by (cases x) auto
    let ?p = "\<lparr>pk_bytes_received = len, pk_source_addr = sa, pk_buffer_id = b, pk_payload_offset = off,
      pk_more = u_more api flags\<rparr>"
    have "d' = d\<lparr>rf_batch := rf_batch d @ [?p]\<rparr>" using assms Some r Ok x by (simp add: record_packet_def)
    with Some show ?thesis by (intro disjI2 disjI1 exI [of _ ?p]) simp
  next
    case (Err e)
    then show ?thesis using assms Some r by (auto simp: record_packet_def)
  qed
qed

lemma record_packet_mem: "record_packet api as_socket prov n flags d = Inr d' \<Longrightarrow> recv_mem d' = recv_mem d"
  by (drule record_packet_cases) (auto simp: recv_mem_def)

interpretation recv_op: multishot_op "recv_up api as_socket prov" recv_mem for api as_socket prov
  by unfold_locales
     (auto simp: recv_up_def recv_update_def recv_yield_result_def take_batch_def recv_mem_def
       dest: record_packet_mem split: result.splits)

section \<open>Buffers are conserved\<close>

text \<open>The provided buffers a completion hands over, and those that data and batches hold.\<close>

fun cqe_buffers :: "'u uring_api \<Rightarrow> cqe_result \<Rightarrow> u16 multiset" where
  "cqe_buffers api c =
     (case cr_result c of
        Ok n \<Rightarrow> (case u_buffer_select api (cr_flags c) of None \<Rightarrow> {#} | Some b \<Rightarrow> {#b#})
      | Err e \<Rightarrow> {#})"

definition queue_buffers :: "'u uring_api \<Rightarrow> cqe_result list \<Rightarrow> u16 multiset" where
  "queue_buffers api q = sum_list (map (cqe_buffers api) q)"

definition data_buffers :: "recv_multishot \<Rightarrow> u16 multiset" where
  "data_buffers d = mset (map pk_buffer_id (rf_batch d)) + mset (rf_unparsed_buffers d)"

definition batch_buffers :: "batch \<Rightarrow> u16 multiset" where
  "batch_buffers b = mset (map pk_buffer_id (bt_packets b)) + mset (bt_unparsed_buffers b)"

lemma queue_buffers_simps [simp]:
  "queue_buffers api [] = {#}"
  "queue_buffers api (c # q) = cqe_buffers api c + queue_buffers api q"
  by (simp_all add: queue_buffers_def)

lemma record_packet_buffers:
  "record_packet api as_socket prov n flags d = Inr d' \<Longrightarrow>
   data_buffers d' = data_buffers d + (case u_buffer_select api flags of None \<Rightarrow> {#} | Some b \<Rightarrow> {#b#})"
  by (drule record_packet_cases) (auto simp: data_buffers_def)

lemma recv_update_buffers:
  "recv_update api as_socket prov d c = Inr d' \<Longrightarrow> data_buffers d' = data_buffers d + cqe_buffers api c"
  by (auto simp: recv_update_def dest: record_packet_buffers split: result.splits)

lemma recv_complete_buffers:
  "recv_complete api as_socket prov d c = Inr b \<Longrightarrow> batch_buffers b = data_buffers d + cqe_buffers api c"
  by (auto simp: recv_complete_def take_batch_def batch_buffers_def bind_exec_eq_Inr
      dest!: record_packet_buffers split: result.splits)
     (auto simp: data_buffers_def)

fun consumed_buffers :: "'u uring_api \<Rightarrow> recv_multishot consumed \<Rightarrow> u16 multiset" where
  "consumed_buffers api (CYield d rest) = data_buffers d + queue_buffers api rest"
| "consumed_buffers api (CFinal d c rest) = data_buffers d + cqe_buffers api c + queue_buffers api rest"
| "consumed_buffers api (CDrained d) = data_buffers d"

lemma consume_buffers:
  "consume (recv_up api as_socket prov) is_more d q = Inr x \<Longrightarrow>
   consumed_buffers api x = data_buffers d + queue_buffers api q"
proof (induction q arbitrary: d)
  case (Cons c q)
  show ?case
  proof (cases "is_more (cr_flags c)")
    case True
    with Cons.prems obtain d' where d': "recv_update api as_socket prov d c = Inr d'"
      by (auto simp: bind_exec_eq_Inr recv_up_def)
    note b = recv_update_buffers [OF d']
    show ?thesis using Cons.IH [of d'] Cons.prems True d' b
      by (auto simp: recv_up_def ac_simps split: if_splits)
  next
    case False
    with Cons.prems show ?thesis by (auto simp: ac_simps simp del: cqe_buffers.simps)
  qed
qed auto

lemma pending_AQueue: "abs_ops o1 k = Some (AQueue q) \<Longrightarrow> pending o1 k = q"
  by (auto simp: abs_ops_def elim: abs_lifecycle.elims)

lemma pending_other:
  assumes "\<And>q. abs_ops o1 k \<noteq> Some (AQueue q)"
  shows "pending o1 k = []"
proof -
  have "fmlookup (lifecycle o1) k \<noteq> Some (CompletionList ix)" for ix
    using assms [of "pending o1 k"] by (auto simp: abs_ops_def)
  then show ?thesis by (simp add: pending_def owns_other entries_at_def)
qed

lemma pending_buffers:
  "queue_buffers api (pending o1 k) = (case abs_ops o1 k of Some (AQueue q) \<Rightarrow> queue_buffers api q | _ \<Rightarrow> {#})"
proof (cases "\<exists>q. abs_ops o1 k = Some (AQueue q)")
  case True
  then show ?thesis using pending_AQueue [of o1 k] by auto
next
  case False
  then have "pending o1 k = []" by (intro pending_other) auto
  with False show ?thesis by (auto split: option.splits abs_op.splits)
qed

lemma consume_final_rest:
  "all_more is_more (butlast q) \<Longrightarrow> consume up is_more d q = Inr (CFinal d' c rest) \<Longrightarrow> rest = []"
proof (induction q arbitrary: d)
  case (Cons a q)
  then show ?case by (cases "q = []") (auto simp: bind_exec_eq_Inr split: if_splits)
qed simp

lemma recv_consumed_buffers:
  assumes "abs_consumed (recv_up api as_socket prov) w x = Inr (r, dt, a', ws)"
    and "\<And>d c rest. x = CFinal d c rest \<Longrightarrow> rest = []"
  shows "(case r of Ready b \<Rightarrow> batch_buffers b | Pending \<Rightarrow> {#})
      + (case dt of None \<Rightarrow> {#} | Some d' \<Rightarrow> data_buffers d')
      + (case a' of Some (AQueue q) \<Rightarrow> queue_buffers api q | _ \<Rightarrow> {#}) = consumed_buffers api x"
proof (cases x)
  case (CYield d rest)
  then show ?thesis using assms(1)
    by (auto simp: recv_up_def recv_yield_result_def take_batch_def batch_buffers_def data_buffers_def split: if_splits)
next
  case (CFinal d c rest)
  then show ?thesis using assms recv_complete_buffers [of api as_socket prov d c]
    by (auto simp: recv_up_def bind_exec_eq_Inr simp del: cqe_buffers.simps)
next
  case (CDrained d)
  then show ?thesis using assms(1) by auto
qed

lemma poll_multishot_outcome:
  assumes "ops_wf o1" and "abs_ops o1 (op_index op) = Some a" and "op_data op = Some d"
    and "poll_multishot_op up is_more w op o1 = Inr (r, op', o', ws)"
  obtains dt a' where "abs_poll_multishot up is_more w d a = Inr (r, dt, a', ws)"
    "op_data op' = dt" "abs_ops o' (op_index op) = a'"
proof (cases "abs_poll_multishot up is_more w d a")
  case (Inl e)
  with poll_multishot_refines [OF assms(1-3), of up is_more w] assms(4) show ?thesis by simp
next
  case (Inr y)
  then obtain r' dt a' ws' where y: "abs_poll_multishot up is_more w d a = Inr (r', dt, a', ws')"
    by (cases y) auto
  from poll_multishot_refines [OF assms(1-3), of up is_more w, unfolded assms(4) y]
  have "poll_multishot_rel op o1 (r, op', o', ws) (r', dt, a', ws')" by simp
  with y that show ?thesis by (auto simp: poll_multishot_rel_def)
qed

section \<open>Properties\<close>

text \<open>
  A poll of a multishot receive neither loses nor duplicates a provided buffer: the buffers in
  the batch it returns, those the operation still holds and those of the completions left in the
  queue are together exactly the ones the operation held and the queue contained before.
\<close>

lemma recv_poll_conserves_buffers:
  assumes "ops_wf o1" and "abs_ops o1 (op_index op) = Some (AQueue q)" and "op_data op = Some d"
    and "all_more is_more (butlast q)"
    and "poll_multishot_op (recv_up api as_socket prov) is_more w op o1 = Inr (r, op', o', ws)"
  shows "(case r of Ready b \<Rightarrow> batch_buffers b | Pending \<Rightarrow> {#})
      + (case op_data op' of None \<Rightarrow> {#} | Some d' \<Rightarrow> data_buffers d')
      + queue_buffers api (pending o' (op_index op)) = data_buffers d + queue_buffers api q"
proof -
  let ?up = "recv_up api as_socket prov" and ?k = "op_index op"
  obtain dt a' where a: "abs_poll_multishot ?up is_more w d (AQueue q) = Inr (r, dt, a', ws)"
      "op_data op' = dt" "abs_ops o' ?k = a'"
    by (rule poll_multishot_outcome [OF assms(1-3) assms(5)])
  from a(1) have "\<exists>x. consume ?up is_more d q = Inr x \<and> abs_consumed ?up w x = Inr (r, dt, a', ws)"
    by (simp only: abs_poll_multishot.simps bind_exec_eq_Inr)
  then obtain x where x: "consume ?up is_more d q = Inr x" "abs_consumed ?up w x = Inr (r, dt, a', ws)" by blast
  have rest: "rest = []" if "x = CFinal d' c rest" for d' c rest
    by (rule consume_final_rest [OF assms(4) x(1) [unfolded that]])
  show ?thesis
    unfolding pending_buffers a(2,3) consume_buffers [OF x(1), symmetric]
    by (rule recv_consumed_buffers [OF x(2)]) (erule rest)
qed

text \<open>A queue of two completions, with buffers 7 and 8 of which the first cannot be parsed.\<close>

definition demo_recv_api :: "unit uring_api" where
  "demo_recv_api = \<lparr>u_submit = (\<lambda>u. (Ok 0, u)), u_submit_and_wait = (\<lambda>n u. (Ok 0, u)), u_push = (\<lambda>s u. Some u),
     u_push_multiple = (\<lambda>ss u. Some u), u_sq_is_empty = (\<lambda>u. True), u_sq_sync = (\<lambda>u. u), u_completion = (\<lambda>u. ([], u)),
     u_register_buffers = (\<lambda>b u. (Ok (), u)), u_unregister_buffers = (\<lambda>u. (Ok (), u)),
     u_register_files = (\<lambda>f u. (Ok (), u)), u_unregister_files = (\<lambda>u. (Ok (), u)),
     u_more = demo_more, u_buffer_select = (\<lambda>f. if f = 6 then Some 7 else Some 8)\<rparr>"

definition demo_recv_queue :: "recv_multishot ops" where
  "demo_recv_queue = \<lparr>lifecycle = fmupd 0 (CompletionList \<lparr>il_start = 0, il_end = 1\<rparr>) fmempty,
     completions = completions demo_queue\<rparr>"

definition demo_recv :: recv_multishot where
  "demo_recv = recv_multishot_default \<lparr>box_ptr = 64, box_val = \<lparr>sa_storage = [], sa_len = 16\<rparr>\<rparr> 96 128 3 1"

lemma demo_res: "0 <=s (5 :: i32)"
  by (simp add: word_sle_eq)

lemma demo_recv_owns: "owns demo_recv_queue k = (if k = 0 then [0, 1] else [])"
  using demo_walk by (simp add: owns_def demo_recv_queue_def)

lemma demo_recv_wf: "ops_wf demo_recv_queue"
  unfolding ops_wf_def demo_recv_owns
  by (auto simp: demo_recv_queue_def demo_queue_def list_rep_def end_of_def usize_MAX_def split: if_splits)

lemma demo_recv_abs:
  "abs_ops demo_recv_queue 0 = Some (AQueue [cqe_result_from (demo_cqe 6), cqe_result_from (demo_cqe 0)])"
  by (simp add: abs_ops_def pending_def demo_recv_owns)
     (simp add: demo_recv_queue_def demo_queue_def entries_at_def)

text \<open>The bytes the kernel writes for a datagram: header, reserved name and control space, payload.\<close>

definition le_bytes :: "nat \<Rightarrow> u8 list" where
  "le_bytes n = [of_nat n, of_nat (n div 256), of_nat (n div 65536), of_nat (n div 16777216)]"

definition recvmsg_layout :: "u8 list \<Rightarrow> u8 list \<Rightarrow> nat \<Rightarrow> nat \<Rightarrow> u8 list" where
  "recvmsg_layout name payload namelen controllen =
     (le_bytes (length name) @ le_bytes 0 @ le_bytes (length payload) @ le_bytes 0)
     @ name @ replicate (namelen - length name) 0 @ replicate controllen 0 @ payload"

lemma le_u32_bytes:
  assumes "n < 4294967296" and "take 4 (drop i b) = le_bytes n"
  shows "le_u32 b i = n"
proof -
  have nth: "b ! (i + j) = le_bytes n ! j" if "j < 4" for j
  proof -
    have "length (take 4 (drop i b)) = 4" unfolding assms(2) by (simp add: le_bytes_def)
    then have "i + j < length b" using that by simp
    moreover have "take 4 (drop i b) ! j = le_bytes n ! j" using assms(2) by simp
    ultimately show ?thesis using that by simp
  qed
  define q1 q2 q3 where q: "q1 = n div 256" "q2 = q1 div 256" "q3 = q2 div 256"
  have d: "n div 65536 = q2" "n div 16777216 = q3"
    unfolding q by (simp_all add: div_mult2_eq [symmetric])
  have e: "n = 256 * q1 + n mod 256" "q1 = 256 * q2 + q1 mod 256" "q2 = 256 * q3 + q2 mod 256"
    unfolding q by simp_all
  have "q3 < 256" unfolding q using assms(1) by (simp add: div_mult2_eq [symmetric])
  then have q3: "q3 mod 256 = q3" by simp
  have "n = n mod 256 + 256 * (q1 mod 256) + 65536 * (q2 mod 256) + 16777216 * (q3 mod 256)"
    unfolding q3 using e by linarith
  moreover have "le_u32 b i = n mod 256 + 256 * (q1 mod 256) + 65536 * (q2 mod 256) + 16777216 * (q3 mod 256)"
    using nth [of 0] nth [of 1] nth [of 2] nth [of 3] d q(1)
    by (simp add: le_u32_def le_bytes_def unat_of_nat take_bit_eq_mod)
  ultimately show ?thesis by simp
qed

text \<open>
  C35. Parsing undoes the kernel's layout: for a name that fits the reserved space, the parser
  returns its address, the offset that skips the reserved name and control space, and the length
  of the payload, and the payload is what stands at that offset.
\<close>

theorem parse_recvmsg_roundtrip:
  assumes "sockaddr_in_size \<le> length name" and "length name \<le> namelen" and "length name < 4294967296"
    and "length payload < 4294967296" and "as_socket name = Some a"
  shows "parse_recvmsg_out as_socket (recvmsg_layout name payload namelen controllen) namelen controllen
      = Inr (Ok (a, 16 + namelen + controllen, length payload))
    \<and> drop (16 + namelen + controllen) (recvmsg_layout name payload namelen controllen) = payload"
proof -
  let ?b = "recvmsg_layout name payload namelen controllen"
  have len: "length (le_bytes n) = 4" for n by (simp add: le_bytes_def)
  have "take 4 (drop 0 ?b) = le_bytes (length name)" "take 4 (drop 8 ?b) = le_bytes (length payload)"
    by (simp_all add: recvmsg_layout_def len)
  then have n: "le_u32 ?b 0 = length name" and p: "le_u32 ?b 8 = length payload"
    using assms by (blast intro: le_u32_bytes)+
  have l: "length ?b = 16 + namelen + controllen + length payload"
    using assms(2) by (simp add: recvmsg_layout_def len)
  have "take (length name) (drop 16 ?b) = name" by (simp add: recvmsg_layout_def len)
  then have "parse_recvmsg_out as_socket ?b namelen controllen = Inr (Ok (a, 16 + namelen + controllen, length payload))"
    using assms by (simp add: parse_recvmsg_out_def Let_def n p l)
  moreover have "drop (16 + namelen + controllen) ?b = payload"
    using assms(2) by (simp add: recvmsg_layout_def len)
  ultimately show ?thesis by blast
qed

theorem parse_recvmsg_roundtrip_witness:
  "parse_recvmsg_out (\<lambda>n. Some (V4 2130706433 9)) (recvmsg_layout (replicate 16 1) [104, 105] 28 0) 28 0
      = Inr (Ok (V4 2130706433 9, 44, 2))
   \<and> drop 44 (recvmsg_layout (replicate 16 1) [104, 105] 28 0) = [104, 105]"
  using parse_recvmsg_roundtrip [of "replicate 16 1" 28 "[104, 105]" "\<lambda>n. Some (V4 2130706433 9)" _ 0]
  by (simp add: sockaddr_in_size_def)

end
