(* ===== verification/Recv_Stream.thy ===== *)
theory Recv_Stream
  imports Recv_Multishot
begin

text \<open>
  The packets of a multishot receive as a stream: polling the operation until it waits or is
  finished gives the packets of the queued completions, each exactly once and in the order the
  kernel posted them, whatever way they are cut into batches. The reference is \<open>decode_all\<close>, which
  decodes a list of completions.
\<close>

section \<open>The reference\<close>

datatype item = Packet packet | Unparsed u16

definition decode ::
  "'u uring_api \<Rightarrow> (u8 list \<Rightarrow> socket_addr option) \<Rightarrow> provider \<Rightarrow> nat \<Rightarrow> nat \<Rightarrow> cqe_result \<Rightarrow> item list exec" where
  "decode api as_socket prov namelen controllen c =
     (case cr_result c of
        Err e \<Rightarrow> Inr []
      | Ok n \<Rightarrow>
          (case u_buffer_select api (cr_flags c) of
             None \<Rightarrow> Inr []
           | Some b \<Rightarrow> bind_exec (parse_recvmsg_out as_socket (prov b (unat n)) namelen controllen) (\<lambda>r.
               Inr [case r of
                 Ok (source_addr, payload_offset, payloadlen) \<Rightarrow>
                   Packet \<lparr>pk_bytes_received = payloadlen, pk_source_addr = source_addr, pk_buffer_id = b,
                     pk_payload_offset = payload_offset, pk_more = u_more api (cr_flags c)\<rparr>
               | Err e \<Rightarrow> Unparsed b])))"

primrec decode_all ::
  "'u uring_api \<Rightarrow> (u8 list \<Rightarrow> socket_addr option) \<Rightarrow> provider \<Rightarrow> nat \<Rightarrow> nat \<Rightarrow> cqe_result list \<Rightarrow> item list exec" where
  "decode_all api as_socket prov namelen controllen [] = Inr []"
| "decode_all api as_socket prov namelen controllen (c # cs) =
     bind_exec (decode api as_socket prov namelen controllen c) (\<lambda>xs.
     bind_exec (decode_all api as_socket prov namelen controllen cs) (\<lambda>ys. Inr (xs @ ys)))"

definition batch_items :: "batch \<Rightarrow> item list" where
  "batch_items b = map Packet (bt_packets b) @ map Unparsed (bt_unparsed_buffers b)"

definition data_items :: "recv_multishot \<Rightarrow> item list" where
  "data_items d = map Packet (rf_batch d) @ map Unparsed (rf_unparsed_buffers d)"

text \<open>Recording a completion in data that holds nothing records what the reference decodes.\<close>

lemma record_decode:
  assumes "decode api as_socket prov (rf_msg_namelen d) (rf_msg_controllen d) c = Inr xs" and "cr_result c = Ok n" and "data_items d = []"
  shows "\<exists>d'. record_packet api as_socket prov (unat n) (cr_flags c) d = Inr d' \<and> data_items d' = xs
    \<and> rf_msg_namelen d' = rf_msg_namelen d \<and> rf_msg_controllen d' = rf_msg_controllen d"
proof (cases "u_buffer_select api (cr_flags c)")
  case None
  with assms show ?thesis by (simp add: decode_def record_packet_def)
next
  case (Some b)
  with assms(1,2) obtain r where r: "parse_recvmsg_out as_socket (prov b (unat n)) (rf_msg_namelen d) (rf_msg_controllen d) = Inr r"
    by (auto simp: decode_def bind_exec_eq_Inr)
  have "rf_batch d = []" "rf_unparsed_buffers d = []" using assms(3) by (simp_all add: data_items_def)
  with assms(1,2) Some r show ?thesis
    by (cases r) (auto simp: decode_def record_packet_def data_items_def split: prod.splits)
qed

lemma update_decode:
  assumes "decode api as_socket prov (rf_msg_namelen d) (rf_msg_controllen d) c = Inr xs" and "data_items d = []"
  shows "\<exists>d'. recv_update api as_socket prov d c = Inr d' \<and> data_items d' = xs
    \<and> rf_msg_namelen d' = rf_msg_namelen d \<and> rf_msg_controllen d' = rf_msg_controllen d"
proof (cases "cr_result c")
  case (Ok n)
  with record_decode [OF assms(1) Ok assms(2)] show ?thesis by (simp add: recv_update_def)
next
  case (Err e)
  with assms show ?thesis by (simp add: recv_update_def decode_def)
qed

lemma complete_decode:
  assumes "decode api as_socket prov (rf_msg_namelen d) (rf_msg_controllen d) c = Inr xs" and "data_items d = []"
  shows "\<exists>b. recv_complete api as_socket prov d c = Inr b \<and> batch_items b = xs
    \<and> bt_end b = Some (case cr_result c of Ok n \<Rightarrow> Ok () | Err e \<Rightarrow> Err e)"
proof (cases "cr_result c")
  case (Ok n)
  with record_decode [OF assms(1) Ok assms(2)] show ?thesis
    by (auto simp: recv_complete_def take_batch_def batch_items_def data_items_def)
next
  case (Err e)
  with assms show ?thesis by (simp add: recv_complete_def decode_def take_batch_def batch_items_def data_items_def)
qed

lemma should_yield_items: "recv_should_yield d \<longleftrightarrow> data_items d \<noteq> []"
  by (auto simp: recv_should_yield_def data_items_def)

text \<open>A completion holds at most one packet.\<close>

lemma decode_at_most_one:
  "decode api as_socket prov namelen controllen c = Inr xs \<Longrightarrow> length xs \<le> 1"
  by (cases "cr_result c"; cases "u_buffer_select api (cr_flags c)") (auto simp: decode_def bind_exec_eq_Inr)

section \<open>One poll\<close>

text \<open>What a poll takes off the queue, for data that holds nothing.\<close>

inductive takes ::
  "'u uring_api \<Rightarrow> (u8 list \<Rightarrow> socket_addr option) \<Rightarrow> provider \<Rightarrow> (u32 \<Rightarrow> bool) \<Rightarrow> recv_multishot \<Rightarrow> cqe_result list
   \<Rightarrow> item list \<Rightarrow> recv_multishot consumed \<Rightarrow> bool"
  for api as_socket prov is_more d q items where
  Take: "data_items d' \<noteq> [] \<Longrightarrow> items = data_items d' @ items' \<Longrightarrow>
     rf_msg_namelen d' = rf_msg_namelen d \<Longrightarrow> rf_msg_controllen d' = rf_msg_controllen d \<Longrightarrow>
     decode_all api as_socket prov (rf_msg_namelen d) (rf_msg_controllen d) rest = Inr items' \<Longrightarrow>
     length rest < length q \<Longrightarrow> rest = [] \<or> last rest = last q \<and> all_more is_more (butlast rest) \<Longrightarrow>
     (rest = [] \<Longrightarrow> is_more (cr_flags (last q))) \<Longrightarrow> length (data_items d') \<le> 1 \<Longrightarrow>
     takes api as_socket prov is_more d q items (CYield d' rest)"
| Final: "c = last q \<Longrightarrow> \<not> is_more (cr_flags c) \<Longrightarrow>
     decode api as_socket prov (rf_msg_namelen d) (rf_msg_controllen d) c = Inr items \<Longrightarrow>
     data_items d' = [] \<Longrightarrow> rf_msg_namelen d' = rf_msg_namelen d \<Longrightarrow> rf_msg_controllen d' = rf_msg_controllen d \<Longrightarrow>
     takes api as_socket prov is_more d q items (CFinal d' c [])"
| Drain: "is_more (cr_flags (last q)) \<Longrightarrow> items = [] \<Longrightarrow> data_items d' = [] \<Longrightarrow>
     rf_msg_namelen d' = rf_msg_namelen d \<Longrightarrow> rf_msg_controllen d' = rf_msg_controllen d \<Longrightarrow>
     takes api as_socket prov is_more d q items (CDrained d')"

inductive_cases takesE: "takes api as_socket prov is_more d q items x"

lemma consume_takes:
  assumes "q \<noteq> []" and "all_more is_more (butlast q)" and "data_items d = []"
    and "decode_all api as_socket prov (rf_msg_namelen d) (rf_msg_controllen d) q = Inr items"
  shows "\<exists>x. consume (recv_up api as_socket prov) is_more d q = Inr x \<and> takes api as_socket prov is_more d q items x"
  using assms
proof (induction q arbitrary: d items)
  case (Cons c cs)
  let ?up = "recv_up api as_socket prov"
  from Cons.prems(4) obtain xs ys where dec: "decode api as_socket prov (rf_msg_namelen d) (rf_msg_controllen d) c = Inr xs"
    "decode_all api as_socket prov (rf_msg_namelen d) (rf_msg_controllen d) cs = Inr ys" "items = xs @ ys"
    by (auto simp: bind_exec_eq_Inr)
  show ?case
  proof (cases "is_more (cr_flags c)")
    case False
    with Cons.prems(2) have "cs = []" by (cases cs) auto
    with False dec Cons.prems(3) show ?thesis by (auto intro!: takes.Final)
  next
    case True
    from update_decode [OF dec(1) Cons.prems(3)] obtain d' where d': "recv_update api as_socket prov d c = Inr d'" "data_items d' = xs"
      "rf_msg_namelen d' = rf_msg_namelen d" "rf_msg_controllen d' = rf_msg_controllen d" by blast
    have up: "up_update ?up d c = Inr d'" "up_should_yield ?up = recv_should_yield" using d'(1) by (simp_all add: recv_up_def)
    show ?thesis
    proof (cases "xs = []")
      case False
      then have "consume ?up is_more d (c # cs) = Inr (CYield d' cs)" using True up d'(2) by (simp add: should_yield_items)
      moreover have "cs = [] \<or> last cs = last (c # cs) \<and> all_more is_more (butlast cs)" using Cons.prems(2) by (cases cs) auto
      ultimately show ?thesis using False True d' dec decode_at_most_one [OF dec(1)] by (auto intro!: takes.Take)
    next
      case xs: True
      show ?thesis
      proof (cases "cs = []")
        case True
        with xs up d' dec \<open>is_more (cr_flags c)\<close> show ?thesis by (auto simp: should_yield_items intro!: takes.Drain)
      next
        case False
        then have am: "all_more is_more (butlast cs)" using Cons.prems(2) by simp
        from Cons.IH [OF False am, of d' ys] xs d' dec obtain x where x: "consume ?up is_more d' cs = Inr x"
          "takes api as_socket prov is_more d' cs ys x" by auto
        have "takes api as_socket prov is_more d (c # cs) items x"
          using x(2) False xs dec(3) d'(3,4) by cases (auto intro!: takes.intros)
        then show ?thesis using x(1) True up d'(2) xs by (simp add: should_yield_items)
      qed
    qed
  qed
qed simp

section \<open>Polling until it waits\<close>

primrec poll_n ::
  "('d, 'o) updateable \<Rightarrow> (u32 \<Rightarrow> bool) \<Rightarrow> waker \<Rightarrow> nat \<Rightarrow> 'd op \<Rightarrow> 'd ops \<Rightarrow> ('o list \<times> 'd op \<times> 'd ops) exec" where
  "poll_n up is_more w 0 op o1 = Inr ([], op, o1)"
| "poll_n up is_more w (Suc n) op o1 =
     bind_exec (poll_multishot_op up is_more w op o1) (\<lambda>(r, op', o', ws).
       case r of
         Pending \<Rightarrow> Inr ([], op', o')
       | Ready out \<Rightarrow>
           if is_finished op' then Inr ([out], op', o')
           else bind_exec (poll_n up is_more w n op' o') (\<lambda>(outs, op'', o''). Inr (out # outs, op'', o'')))"

lemma poll_refined:
  fixes up :: "('d, 'o) updateable"
  assumes "ops_wf o1" and "abs_ops o1 (op_index op) = Some a" and "op_data op = Some d"
    and "abs_poll_multishot up is_more w d a = Inr (r, dt, a', ws)"
  obtains o' where "poll_multishot_op up is_more w op o1 = Inr (r, op\<lparr>op_data := dt\<rparr>, o', ws)" "ops_wf o'"
    "abs_ops o' = (abs_ops o1)(op_index op := a')"
proof -
  from poll_multishot_refines [OF assms(1-3), of up is_more w, unfolded assms(4)] that show thesis
    by (auto simp: poll_multishot_rel_def elim!: rel_sum.cases)
qed

text \<open>
  How the stream ends: waiting for more when the last completion announces more, and finished with
  the result of the last completion otherwise.
\<close>

definition stream_end :: "(u32 \<Rightarrow> bool) \<Rightarrow> waker \<Rightarrow> cqe_result \<Rightarrow> batch list \<Rightarrow> recv_multishot op \<Rightarrow> recv_multishot abs_op option \<Rightarrow> bool" where
  "stream_end is_more w c bs op a \<longleftrightarrow>
     (if is_more (cr_flags c) then list_all (\<lambda>b. bt_end b = None) bs \<and> \<not> is_finished op \<and> a = Some (AInFlight (Some w))
      else bs \<noteq> [] \<and> list_all (\<lambda>b. bt_end b = None) (butlast bs)
        \<and> bt_end (last bs) = Some (case cr_result c of Ok n \<Rightarrow> Ok () | Err e \<Rightarrow> Err e) \<and> is_finished op \<and> a = None)"

text \<open>
  What polling leaves as it was: the well-formedness of the slabs, the other operations and the
  layout of the buffers; every packet has been handed out.
\<close>

definition stream_kept :: "recv_multishot op \<Rightarrow> recv_multishot ops \<Rightarrow> recv_multishot \<Rightarrow> recv_multishot op \<Rightarrow> recv_multishot ops \<Rightarrow> bool" where
  "stream_kept op o1 d op' o' \<longleftrightarrow>
     ops_wf o' \<and> op_index op' = op_index op \<and> (\<exists>a. abs_ops o' = (abs_ops o1)(op_index op := a))
     \<and> (\<forall>d'. op_data op' = Some d' \<longrightarrow> data_items d' = [] \<and> rf_msg_namelen d' = rf_msg_namelen d \<and> rf_msg_controllen d' = rf_msg_controllen d)"

definition single :: "batch \<Rightarrow> bool" where
  "single b \<longleftrightarrow> length (batch_items b) \<le> 1"

lemma take_batch_items:
  "batch_items (fst (take_batch en d)) = data_items d" "data_items (snd (take_batch en d)) = []"
  "rf_msg_namelen (snd (take_batch en d)) = rf_msg_namelen d" "rf_msg_controllen (snd (take_batch en d)) = rf_msg_controllen d"
  "bt_end (fst (take_batch en d)) = en"
  by (simp_all add: take_batch_def batch_items_def data_items_def)

lemma poll_n_waiting:
  fixes up :: "('d, 'o) updateable"
  assumes "ops_wf o1" and "abs_ops o1 (op_index op) = Some (AInFlight v)" and "op_data op = Some d"
  shows "\<exists>o'. poll_n up is_more w (Suc n) op o1 = Inr ([], op, o') \<and> ops_wf o'
    \<and> abs_ops o' = (abs_ops o1)(op_index op := Some (AInFlight (Some w)))"
proof -
  obtain o' where "poll_multishot_op up is_more w op o1 = Inr (Pending, op\<lparr>op_data := Some d\<rparr>, o', [])" "ops_wf o'"
    "abs_ops o' = (abs_ops o1)(op_index op := Some (AInFlight (Some w)))"
    by (rule poll_refined [OF assms, of up is_more w]) auto
  then show ?thesis using assms(3) by simp
qed

lemma recv_stream:
  assumes "ops_wf o1" and "abs_ops o1 (op_index op) = Some (AQueue q)" and "op_data op = Some d" and "data_items d = []"
    and "q \<noteq> []" and "all_more is_more (butlast q)" and "length q < n"
    and "decode_all api as_socket prov (rf_msg_namelen d) (rf_msg_controllen d) q = Inr items"
  shows "\<exists>bs op' o'. poll_n (recv_up api as_socket prov) is_more w n op o1 = Inr (bs, op', o')
    \<and> concat (map batch_items bs) = items \<and> list_all single bs \<and> length bs < n
    \<and> stream_end is_more w (last q) bs op' (abs_ops o' (op_index op)) \<and> stream_kept op o1 d op' o'"
  using assms
proof (induction n arbitrary: q op o1 d items)
  case (Suc n)
  let ?up = "recv_up api as_socket prov" and ?k = "op_index op"
  from consume_takes [OF Suc.prems(5,6,4,8)] obtain x where x: "consume ?up is_more d q = Inr x" "takes api as_socket prov is_more d q items x" by blast
  show ?case
    using x(2)
  proof cases
    case (Take d' items' rest)
    let ?b = "fst (take_batch None d')" and ?d = "snd (take_batch None d')" and ?a = "if rest = [] then AInFlight (Some w) else AQueue rest"
    have "abs_poll_multishot ?up is_more w d (AQueue q) = Inr (Ready ?b, Some ?d, Some ?a, if rest = [] then [] else [w])"
      using x(1) Take(1) by (simp add: recv_up_def recv_yield_result_def split: prod.splits)
    then obtain o2 where o2: "poll_multishot_op ?up is_more w op o1 = Inr (Ready ?b, op\<lparr>op_data := Some ?d\<rparr>, o2, if rest = [] then [] else [w])"
      "ops_wf o2" "abs_ops o2 = (abs_ops o1)(?k := Some ?a)" by (rule poll_refined [OF Suc.prems(1-3)])
    let ?op = "op\<lparr>op_data := Some ?d\<rparr>"
    have "\<exists>bs op' o'. poll_n ?up is_more w n ?op o2 = Inr (bs, op', o') \<and> concat (map batch_items bs) = items'
        \<and> list_all single bs \<and> length bs < n \<and> stream_end is_more w (last q) bs op' (abs_ops o' ?k) \<and> stream_kept op o1 d op' o'"
    proof (cases "rest = []")
      case True
      obtain m where n: "n = Suc m" using Suc.prems(5,7) by (cases n) auto
      from poll_n_waiting [of o2 ?op "Some w" ?d ?up is_more w m] o2(2,3) True obtain o' where
        "poll_n ?up is_more w n ?op o2 = Inr ([], ?op, o')" "ops_wf o'" "abs_ops o' = (abs_ops o2)(?k := Some (AInFlight (Some w)))" using n by auto
      then show ?thesis using True Take(4-6,9) o2(3) n by (auto simp: stream_end_def is_finished_def stream_kept_def take_batch_items)
    next
      case False
      from Suc.IH [of o2 ?op rest ?d items'] False o2(2,3) Take Suc.prems(7) show ?thesis
        by (auto simp: take_batch_items stream_kept_def)
    qed
    then obtain bs op' o' where b: "poll_n ?up is_more w n ?op o2 = Inr (bs, op', o')" "concat (map batch_items bs) = items'"
      "list_all single bs" "length bs < n" "stream_end is_more w (last q) bs op' (abs_ops o' ?k)" "stream_kept op o1 d op' o'" by blast
    have "poll_n ?up is_more w (Suc n) op o1 = Inr (?b # bs, op', o')" using o2(1) b(1) by (simp add: is_finished_def)
    moreover have "stream_end is_more w (last q) (?b # bs) op' (abs_ops o' ?k)"
      using b(5) by (auto simp: stream_end_def take_batch_items split: if_splits)
    moreover have "single ?b" using Take(10) by (simp add: single_def take_batch_items)
    ultimately show ?thesis using b(2-4,6) Take(3) by (auto simp: take_batch_items)
  next
    case (Final c d')
    from Final complete_decode [of api as_socket prov d' "last q" items] obtain b where
      b: "recv_complete api as_socket prov d' (last q) = Inr b" "batch_items b = items"
        "bt_end b = Some (case cr_result (last q) of Ok n \<Rightarrow> Ok () | Err e \<Rightarrow> Err e)" by auto
    have "abs_poll_multishot ?up is_more w d (AQueue q) = Inr (Ready b, None, None, [])"
      using x(1) Final(1,2) b(1) by (simp add: recv_up_def)
    then obtain o2 where "poll_multishot_op ?up is_more w op o1 = Inr (Ready b, op\<lparr>op_data := None\<rparr>, o2, [])" "ops_wf o2"
      "abs_ops o2 = (abs_ops o1)(?k := None)" by (rule poll_refined [OF Suc.prems(1-3)])
    moreover have "0 < n" using Suc.prems(5,7) by (cases q) auto
    ultimately show ?thesis using Final(2,3) b(2,3) decode_at_most_one [OF Final(4)]
      by (auto simp: is_finished_def stream_end_def stream_kept_def single_def)
  next
    case (Drain d')
    have "abs_poll_multishot ?up is_more w d (AQueue q) = Inr (Pending, Some d', Some (AInFlight (Some w)), [])"
      using x(1) Drain(1) by simp
    then obtain o2 where "poll_multishot_op ?up is_more w op o1 = Inr (Pending, op\<lparr>op_data := Some d'\<rparr>, o2, [])" "ops_wf o2"
      "abs_ops o2 = (abs_ops o1)(?k := Some (AInFlight (Some w)))" by (rule poll_refined [OF Suc.prems(1-3)])
    then show ?thesis using Drain by (auto simp: is_finished_def stream_end_def stream_kept_def)
  qed
qed simp

text \<open>
  Polling a multishot receive until it waits or is finished gives what decoding the queued
  completions gives: the batches, put together, hold the packets and the buffers that could not be
  parsed exactly once and in the order of the completions; when the last completion announces more,
  no batch is marked as the end and the operation waits with the task's waker, and otherwise exactly
  the last batch carries the result of the last completion, the operation is finished and its entry
  is freed. At most one poll more than there are completions is needed.
\<close>

theorem recv_stream_in_order:
  assumes "ops_wf o1" and "abs_ops o1 (op_index op) = Some (AQueue q)" and "op_data op = Some d"
    and "rf_batch d = []" and "rf_unparsed_buffers d = []" and "q \<noteq> []" and "all_more is_more (butlast q)"
    and "decode_all api as_socket prov (rf_msg_namelen d) (rf_msg_controllen d) q = Inr items"
  shows "\<exists>bs op' o'. poll_n (recv_up api as_socket prov) is_more w (length q + 1) op o1 = Inr (bs, op', o')
    \<and> concat (map batch_items bs) = items
    \<and> (if is_more (cr_flags (last q))
       then list_all (\<lambda>b. bt_end b = None) bs \<and> \<not> is_finished op' \<and> abs_ops o' (op_index op) = Some (AInFlight (Some w))
       else bs \<noteq> [] \<and> list_all (\<lambda>b. bt_end b = None) (butlast bs)
         \<and> bt_end (last bs) = Some (case cr_result (last q) of Ok n \<Rightarrow> Ok () | Err e \<Rightarrow> Err e)
         \<and> is_finished op' \<and> abs_ops o' (op_index op) = None)"
proof -
  have "data_items d = []" using assms(4,5) by (simp add: data_items_def)
  from recv_stream [OF assms(1-3) this assms(6,7) _ assms(8), of "length q + 1" w] show ?thesis
    unfolding stream_end_def by fastforce
qed

text \<open>Buffer 7 is too short for a header; buffer 8 holds one with an address and no payload.\<close>

definition demo_provider :: provider where
  "demo_provider b n = (if b = 7 then [] else 16 # replicate 31 0)"

theorem recv_stream_in_order_witness:
  "\<exists>bs op' o'. poll_n (recv_up demo_recv_api (\<lambda>s. Some (V4 1 2)) demo_provider) demo_more 9 3 (handle 0 (Some demo_recv)) demo_recv_queue
      = Inr (bs, op', o')
    \<and> concat (map batch_items bs) = [Unparsed 7, Packet \<lparr>pk_bytes_received = 0, pk_source_addr = V4 1 2, pk_buffer_id = 8,
        pk_payload_offset = 32, pk_more = False\<rparr>]"
proof -
  let ?q = "[cqe_result_from (demo_cqe 6), cqe_result_from (demo_cqe 0)]"
  have len: "rf_msg_namelen demo_recv = 16" "rf_msg_controllen demo_recv = 0" "rf_batch demo_recv = []" "rf_unparsed_buffers demo_recv = []"
    by (simp_all add: demo_recv_def recv_multishot_default_def recv_multishot_new_def Let_def)
  have "parse_recvmsg_out (\<lambda>s. Some (V4 1 2)) (16 # replicate 31 0) 16 0 = Inr (Ok (V4 1 2, 32, 0))"
    by (simp add: parse_recvmsg_out_def le_u32_def sockaddr_in_size_def Let_def)
  then have "decode_all demo_recv_api (\<lambda>s. Some (V4 1 2)) demo_provider 16 0 ?q = Inr [Unparsed 7, Packet \<lparr>pk_bytes_received = 0,
      pk_source_addr = V4 1 2, pk_buffer_id = 8, pk_payload_offset = 32, pk_more = False\<rparr>]"
    by (simp add: decode_def demo_recv_api_def demo_provider_def demo_cqe_def cqe_result_from_def demo_res demo_more_def)
       (simp add: parse_recvmsg_out_def)
  from recv_stream_in_order [where is_more = demo_more and op = "handle 0 (Some demo_recv)" and q = ?q and w = 9, OF demo_recv_wf _ _ _ _ _ _ this [folded len(1,2)]]
  show ?thesis using demo_recv_abs len by (auto simp: demo_cqe_def demo_more_def eval_nat_numeral)
qed

end
