(* ===== verification/Io_Write_All.thy ===== *)
theory Io_Write_All
  imports Io_Read_Write
begin

text \<open>
  The loops of \<^verbatim>\<open>File::write_fixed_all_at\<close> and \<^verbatim>\<open>Socket::write_fixed_all\<close> succeed: on a kernel that
  accepts at least one byte of every write, they write the whole buffer without an error and
  without a panic of the slices they cut.
\<close>

text \<open>A kernel that makes progress: a non-empty write reports between one byte and what was asked.\<close>

definition writes_some :: "'s kernel \<Rightarrow> bool" where
  "writes_some perform \<longleftrightarrow>
     (\<forall>fd p len i off st. len \<noteq> 0 \<longrightarrow>
        (\<exists>n. cr_result (fst (perform (OpWriteFixed fd p len i off) st)) = Ok n \<and> n \<noteq> 0 \<and> n \<le> len))"

text \<open>A slice the loops can be given: of a registered buffer, with \<open>m\<close> initialized bytes left.\<close>

definition writable :: "buffer slice \<Rightarrow> nat \<Rightarrow> bool" where
  "writable s m \<longleftrightarrow> fixed_index (s_buf s) \<noteq> None \<and> slice_bytes_init buffer_io_buf s = Inr m
     \<and> m < 2 ^ 32 \<and> s_end s \<le> usize_MAX"

lemma writableD:
  assumes "writable s m"
  shows "m = min (s_end s) (buffer_bytes_init (s_buf s)) - s_begin s"
    and "s_begin s \<le> s_end s" and "s_begin s \<le> buffer_bytes_init (s_buf s)"
  using assms by (auto simp: writable_def slice_bytes_init_def slice_deref_def buf_deref_def Let_def split: if_splits)

lemma write_step:
  assumes ws: "writes_some perform" and w: "writable s m" and m: "m \<noteq> 0"
  obtains n st' s' where "write_fixed_await perform fd s pos st = Inr (Ok (n, s), st')" "0 < n" "n \<le> m"
    "slice_slice buffer_io_buf s (Included n) Unbounded = Inr s'" "writable s' (m - n)" "s_buf s' = s_buf s"
proof -
  note d = writableD [OF w]
  from w obtain i where i: "fixed_index (s_buf s) = Some i" and init: "slice_bytes_init buffer_io_buf s = Inr m"
    and small: "m < 2 ^ 32" and ends: "s_end s \<le> usize_MAX"
    by (auto simp: writable_def)
  let ?p = "buffer_stable_ptr (s_buf s) + s_begin s"
  let ?e = "OpWriteFixed fd ?p (of_nat m) i pos"
  have sqe: "write_fixed_sqe fd pos (Sliced s) = Inr (sqe_build ?e)"
    using i init d by (simp add: write_fixed_sqe_def slice_stable_ptr_def buf_deref_def)
  have mu: "unat (of_nat m :: u32) = m" using small by (simp add: unat_of_nat take_bit_eq_mod)
  then have "(of_nat m :: u32) \<noteq> 0" using m by (metis unat_0)
  with ws obtain k where k: "cr_result (fst (perform ?e st)) = Ok k" "k \<noteq> 0" "k \<le> of_nat m"
    by (meson writes_some_def)
  have le: "unat k \<le> m" using k(3) mu by (simp add: word_le_nat_alt)
  obtain c st' where p: "perform ?e st = (c, st')" by (rule prod.exhaust)
  let ?s' = "slice_new (s_buf s) (s_begin s + unat k) (s_end s)"
  have aw: "write_fixed_await perform fd s pos st = Inr (Ok (unat k, s), st')"
    using sqe p k(1) by (simp add: write_fixed_await_def sqe_build_def write_fixed_complete_def)
  have "slice_slice buffer_io_buf s (Included (unat k)) Unbounded = Inr ?s'"
    using d le ends by (auto simp: slice_slice_def expect_in_range_def checked_add_def assert_that_def)
  moreover have "writable ?s' (m - unat k)"
    using d le ends i small by (auto simp: writable_def slice_bytes_init_def slice_deref_def buf_deref_def Let_def)
  moreover have "0 < unat k" using k(2) by (simp add: unat_gt_0)
  ultimately show thesis using aw le that by auto
qed

lemma write_all_at_ok:
  assumes "writes_some perform" and "writable s m"
  shows "\<exists>st'. write_all_at_loop perform fd s pos st = Inr (Ok ((), s_buf s), st')"
  using assms(2)
proof (induction m arbitrary: s pos st rule: less_induct)
  case (less m)
  have init: "slice_bytes_init buffer_io_buf s = Inr m" using less.prems by (simp add: writable_def)
  show ?case
  proof (cases "m = 0")
    case False
    from write_step [OF assms(1) less.prems False, of fd pos st] obtain n st' s' where
      st: "write_fixed_await perform fd s pos st = Inr (Ok (n, s), st')" "0 < n" "n \<le> m"
        "slice_slice buffer_io_buf s (Included n) Unbounded = Inr s'" "writable s' (m - n)" "s_buf s' = s_buf s" .
    with less.IH [of "m - n" s' "wrapping_add pos n" st'] init False show ?thesis
      by (subst write_all_at_loop.simps) simp
  qed (use init in \<open>subst write_all_at_loop.simps, simp add: into_inner_def\<close>)
qed

lemma socket_write_all_ok:
  assumes "writes_some perform" and "writable s m"
  shows "\<exists>st'. socket_write_all_loop perform fd s st = Inr (Ok ((), s_buf s), st')"
  using assms(2)
proof (induction m arbitrary: s st rule: less_induct)
  case (less m)
  have init: "slice_bytes_init buffer_io_buf s = Inr m" using less.prems by (simp add: writable_def)
  show ?case
  proof (cases "m = 0")
    case False
    from write_step [OF assms(1) less.prems False, of fd 0 st] obtain n st' s' where
      st: "write_fixed_await perform fd s 0 st = Inr (Ok (n, s), st')" "0 < n" "n \<le> m"
        "slice_slice buffer_io_buf s (Included n) Unbounded = Inr s'" "writable s' (m - n)" "s_buf s' = s_buf s" .
    with less.IH [of "m - n" s' st'] init False show ?thesis
      by (subst socket_write_all_loop.simps) simp
  qed (use init in \<open>subst socket_write_all_loop.simps, simp add: into_inner_def\<close>)
qed

text \<open>
  Writing a whole buffer succeeds: on a kernel that accepts at least one byte of every
  non-empty write, \<^verbatim>\<open>write_fixed_all_at\<close> and \<^verbatim>\<open>write_fixed_all\<close> of a slice of a registered
  buffer with fewer than 4 GiB left to write end without an error or a panic and give the buffer
  back, provided that the file positions do not overflow.
\<close>

theorem write_all_succeeds:
  assumes "writes_some perform" and "writable s m" and "pos + m \<le> usize_MAX"
  shows "(\<exists>st'. write_all_at_slice perform fd s pos st = Inr (Ok ((), s_buf s), st'))
    \<and> (\<exists>st'. socket_write_all_loop perform fd s st = Inr (Ok ((), s_buf s), st'))"
  using assms write_all_at_ok [OF assms(1,2), of fd pos st] socket_write_all_ok [OF assms(1,2), of fd st]
  by (auto simp: write_all_at_slice_def writable_def checked_add_def)

lemma demo_writes_some: "writes_some demo_kernel"
  by (auto simp: writes_some_def demo_kernel_def min_def word_le_nat_alt)

theorem write_all_succeeds_witness:
  "(\<exists>st'. write_all_at_slice demo_kernel 7 (slice_new demo_fixed 0 8) 100 () = Inr (Ok ((), demo_fixed), st'))
    \<and> (\<exists>st'. socket_write_all_loop demo_kernel 7 (slice_new demo_fixed 0 8) () = Inr (Ok ((), demo_fixed), st'))"
  using write_all_succeeds [OF demo_writes_some, of "slice_new demo_fixed 0 8" 5 100 7 "()"] demo_write_init [of 0]
  by (simp add: writable_def usize_MAX_def) (simp add: demo_fixed_def fixed_index_def)

end
