(* ===== verification/Io_Ops.thy ===== *)
theory Io_Ops
  imports Shared_Fd Io_Read_Write
begin

text \<open>
  The operations of \<^verbatim>\<open>src/src/io/\<close> that are submitted with \<^verbatim>\<open>Handle::submit_op\<close>: each is a
  request, that is its data, the closure that builds the submission entry from the data, and the
  \<^verbatim>\<open>Completable\<close> that makes the output of data and completion. What is read before the
  submission (a path, say) is part of making the request and may fail. The data at completion is
  the data of the request with what the kernel wrote into its boxes.
\<close>

section \<open>Requests\<close>

record ('d, 'o) request =
  rq_data :: 'd
  rq_sqe :: "'d \<Rightarrow> (sqe \<times> 'd) exec"
  rq_complete :: "'d \<Rightarrow> cqe_result \<Rightarrow> 'o exec"

definition bind_result :: "('a, 'e) result \<Rightarrow> ('a \<Rightarrow> ('b, 'e) result) \<Rightarrow> ('b, 'e) result" where
  "bind_result m f = (case m of Ok x \<Rightarrow> f x | Err e \<Rightarrow> Err e)"

text \<open>\<^verbatim>\<open>CONTEXT.with(|x| x.handle().expect(...).submit_op(data, f))\<close>.\<close>

definition submit_request ::
  "'u uring_api \<Rightarrow> slab_alloc \<Rightarrow> slab_alloc \<Rightarrow> ctx \<Rightarrow> ('d, 'o) request
   \<Rightarrow> ('u, 'd, ('d op, io_error) result) on_cell" where
  "submit_request api la ca cx rq c =
     (if cx then handle_submit_op api la ca (rq_data rq) (rq_sqe rq) c
      else Some (Inl (Expect ''Not in a runtime context'')))"

definition request_completable :: "('d, 'o) request \<Rightarrow> ('d, 'o) completable" where
  "request_completable rq = \<lparr>co_complete = rq_complete rq\<rparr>"

text \<open>
  Awaiting a request whose submission succeeds. \<open>perform\<close> stands for the kernel: the completion
  it posts for the entry, what it leaves in the memory of the data, and its next state.
\<close>

type_synonym ('d, 's) performer = "opcode \<Rightarrow> 'd \<Rightarrow> 's \<Rightarrow> cqe_result \<times> 'd \<times> 's"

definition await_request :: "('d, 's) performer \<Rightarrow> ('d, 'o) request \<Rightarrow> 's \<Rightarrow> ('o \<times> 's) exec" where
  "await_request perform rq st =
     bind_exec (rq_sqe rq (rq_data rq)) (\<lambda>(e, d).
       case perform (sqe_op e) d st of (cqe, d', st') \<Rightarrow>
         bind_exec (rq_complete rq d' cqe) (\<lambda>out. Inr (out, st')))"

text \<open>The entry of a request, for the closures that only read the data.\<close>

definition entry_of :: "('d \<Rightarrow> opcode) \<Rightarrow> 'd \<Rightarrow> (sqe \<times> 'd) exec" where
  "entry_of f d = Inr (sqe_build (f d), d)"

section \<open>Awaiting reads and writes\<close>

text \<open>
  Awaiting a oneshot operation: \<open>perform\<close> is the kernel, which posts a completion queue entry and
  may write into the memory of the data.
\<close>

type_synonym ('d, 's) raw_performer = "opcode \<Rightarrow> 'd \<Rightarrow> 's \<Rightarrow> cqe \<times> 'd \<times> 's"

definition await_oneshot ::
  "('d, 's) raw_performer \<Rightarrow> ('p \<Rightarrow> 'd \<Rightarrow> cqe \<Rightarrow> 'o) \<Rightarrow> ('d, 'p) unsubmitted \<Rightarrow> 's \<Rightarrow> 'o \<times> 's" where
  "await_oneshot perform transform u st =
     (case perform (sqe_op (us_sqe u)) (us_stable_data u) st of (cqe, d', st') \<Rightarrow>
        (transform (us_post_op u) d' cqe, st'))"

text \<open>\<^verbatim>\<open>ReadFixed\<close> and \<^verbatim>\<open>WriteFixed\<close>: the operations on a registered buffer as requests.\<close>

record fixed_data =
  fx_fd :: raw_fd
  fx_buf :: bounded

definition read_fixed_at :: "raw_fd \<Rightarrow> bounded \<Rightarrow> nat \<Rightarrow> (fixed_data, (nat, bounded) buf_result) request" where
  "read_fixed_at fd buf offset =
     \<lparr>rq_data = \<lparr>fx_fd = fd, fx_buf = buf\<rparr>,
      rq_sqe = (\<lambda>d. bind_exec (read_fixed_sqe fd offset (fx_buf d)) (\<lambda>e. Inr (e, d))),
      rq_complete = (\<lambda>d c. Inr (read_fixed_complete (fx_buf d) c))\<rparr>"

definition write_fixed_at :: "raw_fd \<Rightarrow> bounded \<Rightarrow> nat \<Rightarrow> (fixed_data, (nat, bounded) buf_result) request" where
  "write_fixed_at fd buf offset =
     \<lparr>rq_data = \<lparr>fx_fd = fd, fx_buf = buf\<rparr>,
      rq_sqe = (\<lambda>d. bind_exec (write_fixed_sqe fd offset (fx_buf d)) (\<lambda>e. Inr (e, d))),
      rq_complete = (\<lambda>d c. Inr (write_fixed_complete (fx_buf d) c))\<rparr>"

text \<open>The write of the loops that write a whole buffer is that request, awaited.\<close>

lemma write_fixed_await_request:
  "bind_exec (write_fixed_await perform fd s pos st) (\<lambda>(r, st'). Inr (map_buf Sliced r, st'))
   = await_request (\<lambda>c d st. case perform c st of (cqe, st') \<Rightarrow> (cqe, d, st')) (write_fixed_at fd (Sliced s) pos) st"
proof (cases "write_fixed_sqe fd pos (Sliced s)")
  case (Inr e)
  obtain cqe st' where "perform (sqe_op e) st = (cqe, st')" by (rule prod.exhaust)
  with Inr show ?thesis
    by (cases "cr_result cqe") (simp_all add: write_fixed_await_def await_request_def write_fixed_at_def write_fixed_complete_def)
qed (simp add: write_fixed_await_def await_request_def write_fixed_at_def)

section \<open>Constants\<close>

definition AT_FDCWD :: raw_fd where "AT_FDCWD = -100"
definition AT_REMOVEDIR :: i32 where "AT_REMOVEDIR = 0x200"
definition AT_EMPTY_PATH :: i32 where "AT_EMPTY_PATH = 0x1000"
definition O_CLOEXEC :: i32 where "O_CLOEXEC = 0x80000"
definition O_ACCMODE :: i32 where "O_ACCMODE = 3"

definition sockaddr_storage_size :: nat where "sockaddr_storage_size = 128"

section \<open>No operation\<close>

definition no_op_complete :: "unit \<Rightarrow> cqe_result \<Rightarrow> (unit, io_error) result" where
  "no_op_complete d cqe = result_map (\<lambda>v. ()) (cr_result cqe)"

definition no_op :: "(unit, (unit, io_error) result) request" where
  "no_op = \<lparr>rq_data = (), rq_sqe = entry_of (\<lambda>d. OpNop), rq_complete = (\<lambda>d c. Inr (no_op_complete d c))\<rparr>"

section \<open>Closing a descriptor\<close>

record close_data =
  cs_fd :: raw_fd

definition close_complete :: "close_data \<Rightarrow> cqe_result \<Rightarrow> (unit, io_error) result" where
  "close_complete d cqe = bind_result (cr_result cqe) (\<lambda>v. Ok ())"

definition close_op :: "raw_fd \<Rightarrow> (close_data, (unit, io_error) result) request" where
  "close_op fd = \<lparr>rq_data = \<lparr>cs_fd = fd\<rparr>, rq_sqe = entry_of (\<lambda>d. OpClose (cs_fd d)),
     rq_complete = (\<lambda>d c. Inr (close_complete d c))\<rparr>"

section \<open>Sockets\<close>

text \<open>\<open>at\<close> is the address of the box the operation allocates.\<close>

record connect_data =
  cn_fd :: raw_fd
  cn_socket_addr :: "sock_addr boxed"

definition connect_complete :: "connect_data \<Rightarrow> cqe_result \<Rightarrow> (unit, io_error) result" where
  "connect_complete d cqe = result_map (\<lambda>v. ()) (cr_result cqe)"

definition connect_op :: "addr \<Rightarrow> raw_fd \<Rightarrow> sock_addr \<Rightarrow> (connect_data, (unit, io_error) result) request" where
  "connect_op at fd sa =
     \<lparr>rq_data = \<lparr>cn_fd = fd, cn_socket_addr = \<lparr>box_ptr = at, box_val = sa\<rparr>\<rparr>,
      rq_sqe = entry_of (\<lambda>d. OpConnect (cn_fd d) (box_ptr (cn_socket_addr d)) (sa_len (box_val (cn_socket_addr d)))),
      rq_complete = (\<lambda>d c. Inr (connect_complete d c))\<rparr>"

record socket =
  so_fd :: shared_fd

text \<open>\<open>as_socket\<close> is \<^verbatim>\<open>socket2::SockAddr::as_socket\<close>; a result is cast from \<^verbatim>\<open>u32\<close> to \<^verbatim>\<open>i32\<close>.\<close>

record accept_data =
  ac_fd :: raw_fd
  ac_socketaddr :: "sock_addr boxed"

definition accept_complete ::
  "(sock_addr \<Rightarrow> socket_addr option) \<Rightarrow> accept_data \<Rightarrow> cqe_result \<Rightarrow> (socket \<times> socket_addr option, io_error) result" where
  "accept_complete as_socket d cqe =
     bind_result (cr_result cqe) (\<lambda>fd.
       let s = \<lparr>so_fd = shared_fd_new (sint fd)\<rparr>; a = box_val (ac_socketaddr d) in Ok (s, as_socket a))"

definition accept_op ::
  "(sock_addr \<Rightarrow> socket_addr option) \<Rightarrow> addr \<Rightarrow> raw_fd
   \<Rightarrow> (accept_data, (socket \<times> socket_addr option, io_error) result) request" where
  "accept_op as_socket at fd =
     \<lparr>rq_data = \<lparr>ac_fd = fd, ac_socketaddr = \<lparr>box_ptr = at, box_val =
        \<lparr>sa_storage = replicate sockaddr_storage_size 0, sa_len = sockaddr_storage_size\<rparr>\<rparr>\<rparr>,
      rq_sqe = entry_of (\<lambda>d. OpAccept (ac_fd d) (box_ptr (ac_socketaddr d)) O_CLOEXEC),
      rq_complete = (\<lambda>d c. Inr (accept_complete as_socket d c))\<rparr>"

section \<open>Paths\<close>

text \<open>\<^verbatim>\<open>util::cstr\<close>: \<^verbatim>\<open>CString::new\<close> refuses a path with a zero byte; \<^verbatim>\<open>?\<close> makes it an I/O error.\<close>

definition nul_char :: char where "nul_char = CHR 0x00"

definition cstr :: "path \<Rightarrow> (path, io_error) result" where
  "cstr p = (if nul_char \<in> set p then Err (KindError InvalidInput ''data provided contains a nul byte'')
             else Ok p)"

record unlink_data =
  un_path :: path

definition unlink_complete :: "unlink_data \<Rightarrow> cqe_result \<Rightarrow> (unit, io_error) result" where
  "unlink_complete d cqe = result_map (\<lambda>v. ()) (cr_result cqe)"

definition unlink :: "path \<Rightarrow> i32 \<Rightarrow> ((unlink_data, (unit, io_error) result) request, io_error) result" where
  "unlink p flags =
     bind_result (cstr p) (\<lambda>p.
       Ok \<lparr>rq_data = \<lparr>un_path = p\<rparr>, rq_sqe = entry_of (\<lambda>d. OpUnlinkAt AT_FDCWD (un_path d) flags),
           rq_complete = (\<lambda>d c. Inr (unlink_complete d c))\<rparr>)"

definition unlink_dir :: "path \<Rightarrow> ((unlink_data, (unit, io_error) result) request, io_error) result" where
  "unlink_dir p = unlink p AT_REMOVEDIR"

definition unlink_file :: "path \<Rightarrow> ((unlink_data, (unit, io_error) result) request, io_error) result" where
  "unlink_file p = unlink p 0"

record rename_data =
  rn_from :: path
  rn_to :: path

definition rename_complete :: "rename_data \<Rightarrow> cqe_result \<Rightarrow> (unit, io_error) result" where
  "rename_complete d cqe = result_map (\<lambda>v. ()) (cr_result cqe)"

definition rename_at :: "path \<Rightarrow> path \<Rightarrow> u32 \<Rightarrow> ((rename_data, (unit, io_error) result) request, io_error) result" where
  "rename_at src dst flags =
     bind_result (cstr src) (\<lambda>src. bind_result (cstr dst) (\<lambda>dst.
       Ok \<lparr>rq_data = \<lparr>rn_from = src, rn_to = dst\<rparr>,
           rq_sqe = entry_of (\<lambda>d. OpRenameAt AT_FDCWD (rn_from d) AT_FDCWD (rn_to d) flags),
           rq_complete = (\<lambda>d c. Inr (rename_complete d c))\<rparr>))"

record mkdir_data =
  mk_path :: path

definition mkdir_complete :: "mkdir_data \<Rightarrow> cqe_result \<Rightarrow> (unit, io_error) result" where
  "mkdir_complete d cqe = result_map (\<lambda>v. ()) (cr_result cqe)"

definition make_dir :: "path \<Rightarrow> u32 \<Rightarrow> ((mkdir_data, (unit, io_error) result) request, io_error) result" where
  "make_dir p mode =
     bind_result (cstr p) (\<lambda>p.
       Ok \<lparr>rq_data = \<lparr>mk_path = p\<rparr>, rq_sqe = entry_of (\<lambda>d. OpMkDirAt AT_FDCWD (mk_path d) mode),
           rq_complete = (\<lambda>d c. Inr (mkdir_complete d c))\<rparr>)"

record symlink_data =
  sy_from :: path
  sy_to :: path

definition symlink_complete :: "symlink_data \<Rightarrow> cqe_result \<Rightarrow> (unit, io_error) result" where
  "symlink_complete d cqe = result_map (\<lambda>v. ()) (cr_result cqe)"

definition symlink_op :: "path \<Rightarrow> path \<Rightarrow> ((symlink_data, (unit, io_error) result) request, io_error) result" where
  "symlink_op src dst =
     bind_result (cstr src) (\<lambda>src. bind_result (cstr dst) (\<lambda>dst.
       Ok \<lparr>rq_data = \<lparr>sy_from = src, sy_to = dst\<rparr>,
           rq_sqe = entry_of (\<lambda>d. OpSymlinkAt AT_FDCWD (sy_from d) (sy_to d)),
           rq_complete = (\<lambda>d c. Inr (symlink_complete d c))\<rparr>))"

section \<open>Files\<close>

record fsync_data =
  fs_fd :: raw_fd

definition fsync_complete :: "fsync_data \<Rightarrow> cqe_result \<Rightarrow> (unit, io_error) result" where
  "fsync_complete d cqe = result_map (\<lambda>v. ()) (cr_result cqe)"

text \<open>The flag of \<^verbatim>\<open>OpFsync\<close> is \<^verbatim>\<open>FsyncFlags::DATASYNC\<close>.\<close>

definition fsync :: "raw_fd \<Rightarrow> (fsync_data, (unit, io_error) result) request" where
  "fsync fd = \<lparr>rq_data = \<lparr>fs_fd = fd\<rparr>, rq_sqe = entry_of (\<lambda>d. OpFsync (fs_fd d) False),
     rq_complete = (\<lambda>d c. Inr (fsync_complete d c))\<rparr>"

definition datasync :: "raw_fd \<Rightarrow> (fsync_data, (unit, io_error) result) request" where
  "datasync fd = \<lparr>rq_data = \<lparr>fs_fd = fd\<rparr>, rq_sqe = entry_of (\<lambda>d. OpFsync (fs_fd d) True),
     rq_complete = (\<lambda>d c. Inr (fsync_complete d c))\<rparr>"

record fallocate_data =
  fa_fd :: raw_fd

definition fallocate_complete :: "fallocate_data \<Rightarrow> cqe_result \<Rightarrow> (unit, io_error) result" where
  "fallocate_complete d cqe = result_map (\<lambda>v. ()) (cr_result cqe)"

definition fallocate :: "raw_fd \<Rightarrow> nat \<Rightarrow> nat \<Rightarrow> i32 \<Rightarrow> (fallocate_data, (unit, io_error) result) request" where
  "fallocate fd offset len flags =
     \<lparr>rq_data = \<lparr>fa_fd = fd\<rparr>, rq_sqe = entry_of (\<lambda>d. OpFallocate (fa_fd d) len offset flags),
      rq_complete = (\<lambda>d c. Inr (fallocate_complete d c))\<rparr>"

text \<open>\<^verbatim>\<open>compat::statx\<close>, without the spare fields.\<close>

record statx_timestamp =
  tv_sec :: int
  tv_nsec :: u32

record statx =
  stx_mask :: u32
  stx_blksize :: u32
  stx_attributes :: nat
  stx_nlink :: u32
  stx_uid :: u32
  stx_gid :: u32
  stx_mode :: u16
  stx_ino :: nat
  stx_size :: nat
  stx_blocks :: nat
  stx_attributes_mask :: nat
  stx_atime :: statx_timestamp
  stx_btime :: statx_timestamp
  stx_ctime :: statx_timestamp
  stx_mtime :: statx_timestamp
  stx_rdev_major :: u32
  stx_rdev_minor :: u32
  stx_dev_major :: u32
  stx_dev_minor :: u32
  stx_mnt_id :: nat
  stx_dio_mem_align :: u32
  stx_dio_offset_align :: u32

definition zeroed_timestamp :: statx_timestamp where
  "zeroed_timestamp = \<lparr>tv_sec = 0, tv_nsec = 0\<rparr>"

definition zeroed_statx :: statx where
  "zeroed_statx = \<lparr>stx_mask = 0, stx_blksize = 0, stx_attributes = 0, stx_nlink = 0, stx_uid = 0, stx_gid = 0,
     stx_mode = 0, stx_ino = 0, stx_size = 0, stx_blocks = 0, stx_attributes_mask = 0,
     stx_atime = zeroed_timestamp, stx_btime = zeroed_timestamp, stx_ctime = zeroed_timestamp,
     stx_mtime = zeroed_timestamp, stx_rdev_major = 0, stx_rdev_minor = 0, stx_dev_major = 0, stx_dev_minor = 0,
     stx_mnt_id = 0, stx_dio_mem_align = 0, stx_dio_offset_align = 0\<rparr>"

record statx_data =
  st_fd :: "raw_fd option"
  st_path :: path
  st_statx :: "statx boxed"

definition statx_complete :: "statx_data \<Rightarrow> cqe_result \<Rightarrow> (statx, io_error) result" where
  "statx_complete d cqe = bind_result (cr_result cqe) (\<lambda>v. Ok (box_val (st_statx d)))"

definition statx_op ::
  "addr \<Rightarrow> raw_fd option \<Rightarrow> path option \<Rightarrow> i32 \<Rightarrow> u32 \<Rightarrow> (statx_data, (statx, io_error) result) request" where
  "statx_op at fd p flags msk =
     (let raw = (case fd of None \<Rightarrow> AT_FDCWD | Some fd \<Rightarrow> fd);
          flags' = (case p of Some q \<Rightarrow> flags | None \<Rightarrow> flags OR AT_EMPTY_PATH);
          p' = (case p of Some q \<Rightarrow> q | None \<Rightarrow> [])
      in \<lparr>rq_data = \<lparr>st_fd = fd, st_path = p',
            st_statx = \<lparr>box_ptr = at, box_val = zeroed_statx\<rparr>\<rparr>,
          rq_sqe = entry_of (\<lambda>d. OpStatx raw (st_path d) (box_ptr (st_statx d)) flags' msk),
          rq_complete = (\<lambda>d c. Inr (statx_complete d c))\<rparr>)"

end
