(* ===== verification/Io_Messages.thy ===== *)
theory Io_Messages
  imports Io_Ops Recv_Multishot
begin

text \<open>
  The datagram operations of \<^verbatim>\<open>src/src/io/\<close>: \<^verbatim>\<open>recv_from.rs\<close>, \<^verbatim>\<open>recvmsg.rs\<close>, \<^verbatim>\<open>send_to.rs\<close>,
  \<^verbatim>\<open>sendmsg.rs\<close> and the zero-copy \<^verbatim>\<open>send_zc.rs\<close> and \<^verbatim>\<open>sendmsg_zc.rs\<close>, which complete in two steps.
  They take any \<^verbatim>\<open>BoundedBuf\<close>, whose methods are a record here, and build a boxed message header
  that points to the buffers and to a boxed address.
\<close>

section \<open>Bounded buffers as dictionaries\<close>

record 't bounded_buf =
  bd_stable_ptr :: "'t \<Rightarrow> addr exec"
  bd_bytes_init :: "'t \<Rightarrow> nat exec"
  bd_bytes_total :: "'t \<Rightarrow> nat"

record 't bounded_buf_mut = "'t bounded_buf" +
  bd_stable_mut_ptr :: "'t \<Rightarrow> addr exec"
  bd_set_init :: "nat \<Rightarrow> 't \<Rightarrow> 't"

text \<open>\<^verbatim>\<open>impl BoundedBufMut for T: IoBufMut\<close> and \<^verbatim>\<open>impl BoundedBufMut for Slice<T>\<close>.\<close>

definition whole_bounded :: "'b io_buf_mut \<Rightarrow> 'b bounded_buf_mut" where
  "whole_bounded B = \<lparr>bd_stable_ptr = (\<lambda>b. Inr (ib_stable_ptr B b)), bd_bytes_init = (\<lambda>b. Inr (ib_bytes_init B b)),
     bd_bytes_total = ib_bytes_total B, bd_stable_mut_ptr = (\<lambda>b. Inr (ib_stable_mut_ptr B b)), bd_set_init = ib_set_init B\<rparr>"

definition slice_bounded :: "'b io_buf_mut \<Rightarrow> 'b slice bounded_buf_mut" where
  "slice_bounded B = \<lparr>bd_stable_ptr = slice_stable_ptr B, bd_bytes_init = slice_bytes_init B,
     bd_bytes_total = slice_bytes_total,
     bd_stable_mut_ptr = slice_stable_ptr (B\<lparr>ib_stable_ptr := ib_stable_mut_ptr B\<rparr>),
     bd_set_init = slice_set_init B\<rparr>"

text \<open>
  The \<^verbatim>\<open>IoSlice\<close> over the initialized bytes of a buffer, the \<^verbatim>\<open>IoSliceMut\<close> over all of it, and the
  loops that collect them.
\<close>

definition io_slice :: "('t, 'm) bounded_buf_scheme \<Rightarrow> 't \<Rightarrow> iovec exec" where
  "io_slice D b =
     bind_exec (bd_stable_ptr D b) (\<lambda>p. bind_exec (bd_bytes_init D b) (\<lambda>n. Inr \<lparr>iov_base = p, iov_len = n\<rparr>))"

definition io_slice_mut :: "('t, 'm) bounded_buf_mut_scheme \<Rightarrow> 't \<Rightarrow> iovec exec" where
  "io_slice_mut D b = bind_exec (bd_stable_mut_ptr D b) (\<lambda>p. Inr \<lparr>iov_base = p, iov_len = bd_bytes_total D b\<rparr>)"

fun collect_slices :: "('t \<Rightarrow> iovec exec) \<Rightarrow> 't list \<Rightarrow> iovec list exec" where
  "collect_slices f [] = Inr []"
| "collect_slices f (b # bs) = bind_exec (f b) (\<lambda>v. bind_exec (collect_slices f bs) (\<lambda>vs. Inr (v # vs)))"

definition zeroed_msghdr :: msghdr where
  "zeroed_msghdr = \<lparr>msg_iov = [], msg_iovlen = 0, msg_name = 0, msg_namelen = 0, msg_control = 0, msg_controllen = 0\<rparr>"

text \<open>\<^verbatim>\<open>unwrap\<close> of an \<^verbatim>\<open>Err\<close>.\<close>

definition unwrap_err :: panic where
  "unwrap_err = Explicit ''called Result::unwrap on an Err value''"

section \<open>Receiving\<close>

text \<open>
  The data of \<^verbatim>\<open>RecvFrom<T>\<close> and, with a vector of buffers, of \<^verbatim>\<open>RecvMsg<T>\<close>. \<open>name\<close> is the boxed
  empty address that \<^verbatim>\<open>socket2\<close> makes, \<open>at\<close> the address of the boxed header.
\<close>

record 't recv_data =
  rd_fd :: raw_fd
  rd_buf :: 't
  rd_io_slices :: "iovec list"
  rd_socket_addr :: "sock_addr boxed"
  rd_msghdr :: "msghdr boxed"

definition recv_data_new :: "sock_addr boxed \<Rightarrow> addr \<Rightarrow> raw_fd \<Rightarrow> 't \<Rightarrow> iovec list \<Rightarrow> 't recv_data" where
  "recv_data_new name at fd buf io_slices =
     \<lparr>rd_fd = fd, rd_buf = buf, rd_io_slices = io_slices, rd_socket_addr = name,
      rd_msghdr = \<lparr>box_ptr = at, box_val = zeroed_msghdr\<lparr>msg_iov := io_slices, msg_iovlen := length io_slices,
        msg_name := box_ptr name, msg_namelen := sa_len (box_val name)\<rparr>\<rparr>\<rparr>"

definition recv_from_complete ::
  "(sock_addr \<Rightarrow> socket_addr option) \<Rightarrow> ('t, 'm) bounded_buf_mut_scheme \<Rightarrow> 't recv_data \<Rightarrow> cqe_result
   \<Rightarrow> (nat \<times> socket_addr, 't) buf_result exec" where
  "recv_from_complete as_socket D d cqe =
     (case result_map unat (cr_result cqe) of
        Err e \<Rightarrow> Inr (with_buffer (Err e) (rd_buf d))
      | Ok n \<Rightarrow>
          (case as_socket (box_val (rd_socket_addr d)) of
             None \<Rightarrow> Inl UnwrapNone
           | Some a \<Rightarrow> Inr (with_buffer (Ok (n, a)) (bd_set_init D n (rd_buf d)))))"

definition recv_from ::
  "(sock_addr \<Rightarrow> socket_addr option) \<Rightarrow> ('t, 'm) bounded_buf_mut_scheme \<Rightarrow> sock_addr boxed \<Rightarrow> addr \<Rightarrow> raw_fd \<Rightarrow> 't
   \<Rightarrow> ('t recv_data, (nat \<times> socket_addr, 't) buf_result) request exec" where
  "recv_from as_socket D name at fd buf =
     bind_exec (io_slice_mut D buf) (\<lambda>v.
       Inr \<lparr>rq_data = recv_data_new name at fd buf [v],
            rq_sqe = entry_of (\<lambda>d. OpRecvMsg (rd_fd d) (box_val (rd_msghdr d))),
            rq_complete = recv_from_complete as_socket D\<rparr>)"

text \<open>The loop of \<^verbatim>\<open>RecvMsg::complete\<close>: \<open>bytes\<close> is what is left to account for.\<close>

fun mark_received :: "('t, 'm) bounded_buf_mut_scheme \<Rightarrow> nat \<Rightarrow> 't list \<Rightarrow> 't list" where
  "mark_received D bytes [] = []"
| "mark_received D bytes (b # bs) =
     (let b' = bd_set_init D bytes b; total = bd_bytes_total D b' in
      if bytes > total then b' # mark_received D (bytes - total) bs else b' # bs)"

definition recvmsg_complete ::
  "(sock_addr \<Rightarrow> socket_addr option) \<Rightarrow> ('t, 'm) bounded_buf_mut_scheme \<Rightarrow> 't list recv_data \<Rightarrow> cqe_result
   \<Rightarrow> (nat \<times> socket_addr, 't list) buf_result exec" where
  "recvmsg_complete as_socket D d cqe =
     (case result_map unat (cr_result cqe) of
        Err e \<Rightarrow> Inr (with_buffer (Err e) (rd_buf d))
      | Ok n \<Rightarrow>
          (case as_socket (box_val (rd_socket_addr d)) of
             None \<Rightarrow> Inl UnwrapNone
           | Some a \<Rightarrow> Inr (with_buffer (Ok (n, a)) (mark_received D n (rd_buf d)))))"

definition recvmsg ::
  "(sock_addr \<Rightarrow> socket_addr option) \<Rightarrow> ('t, 'm) bounded_buf_mut_scheme \<Rightarrow> sock_addr boxed \<Rightarrow> addr \<Rightarrow> raw_fd \<Rightarrow> 't list
   \<Rightarrow> ('t list recv_data, (nat \<times> socket_addr, 't list) buf_result) request exec" where
  "recvmsg as_socket D name at fd bufs =
     bind_exec (collect_slices (io_slice_mut D) bufs) (\<lambda>vs.
       Inr \<lparr>rq_data = recv_data_new name at fd bufs vs,
            rq_sqe = entry_of (\<lambda>d. OpRecvMsg (rd_fd d) (box_val (rd_msghdr d))),
            rq_complete = recvmsg_complete as_socket D\<rparr>)"

section \<open>Sending\<close>

text \<open>
  The optional destination: \<open>sock_of\<close> is \<^verbatim>\<open>SockAddr::from\<close>, boxed at address \<open>at\<close>; without one
  the header has a null name.
\<close>

definition box_name :: "(socket_addr \<Rightarrow> sock_addr) \<Rightarrow> addr \<Rightarrow> socket_addr option \<Rightarrow> sock_addr boxed option" where
  "box_name sock_of at a = map_option (\<lambda>x. \<lparr>box_ptr = at, box_val = sock_of x\<rparr>) a"

definition set_name :: "sock_addr boxed option \<Rightarrow> msghdr \<Rightarrow> msghdr" where
  "set_name a h =
     (case a of
        Some x \<Rightarrow> h\<lparr>msg_name := box_ptr x, msg_namelen := sa_len (box_val x)\<rparr>
      | None \<Rightarrow> h\<lparr>msg_name := 0, msg_namelen := 0\<rparr>)"

record 't send_to_data =
  sd_fd :: raw_fd
  sd_buf :: 't
  sd_io_slices :: "iovec list"
  sd_socket_addr :: "sock_addr boxed option"
  sd_msghdr :: "msghdr boxed"

definition send_to_complete :: "'t send_to_data \<Rightarrow> cqe_result \<Rightarrow> (nat, 't) buf_result" where
  "send_to_complete d cqe = with_buffer (result_map unat (cr_result cqe)) (sd_buf d)"

definition send_to ::
  "(socket_addr \<Rightarrow> sock_addr) \<Rightarrow> ('t, 'm) bounded_buf_scheme \<Rightarrow> addr \<Rightarrow> addr \<Rightarrow> raw_fd \<Rightarrow> 't \<Rightarrow> socket_addr option
   \<Rightarrow> ('t send_to_data, (nat, 't) buf_result) request exec" where
  "send_to sock_of D at_name at fd buf a =
     bind_exec (io_slice D buf) (\<lambda>v.
       let io_slices = [v]; name = box_name sock_of at_name a;
           h = set_name name (zeroed_msghdr\<lparr>msg_iov := io_slices, msg_iovlen := length io_slices\<rparr>)
       in Inr \<lparr>rq_data = \<lparr>sd_fd = fd, sd_buf = buf, sd_io_slices = io_slices, sd_socket_addr = name,
                 sd_msghdr = \<lparr>box_ptr = at, box_val = h\<rparr>\<rparr>,
               rq_sqe = entry_of (\<lambda>d. OpSendMsg (sd_fd d) (box_val (sd_msghdr d))),
               rq_complete = (\<lambda>d c. Inr (send_to_complete d c))\<rparr>)"

text \<open>\<^verbatim>\<open>SendMsg<T, U>\<close>; the control data is a buffer of its own.\<close>

record ('t, 'c) sendmsg_data =
  sm_fd :: raw_fd
  sm_io_bufs :: "'t list"
  sm_io_slices :: "iovec list"
  sm_socket_addr :: "sock_addr boxed option"
  sm_msg_control :: "'c option"
  sm_msghdr :: "msghdr boxed"

definition set_control :: "('c, 'm) bounded_buf_scheme \<Rightarrow> 'c option \<Rightarrow> msghdr \<Rightarrow> msghdr exec" where
  "set_control C mc h =
     (case mc of
        Some b \<Rightarrow> bind_exec (io_slice C b) (\<lambda>v. Inr (h\<lparr>msg_control := iov_base v, msg_controllen := iov_len v\<rparr>))
      | None \<Rightarrow> Inr (h\<lparr>msg_control := 0, msg_controllen := 0\<rparr>))"

definition sendmsg_data_new ::
  "(socket_addr \<Rightarrow> sock_addr) \<Rightarrow> ('t, 'm) bounded_buf_scheme \<Rightarrow> ('c, 'n) bounded_buf_scheme \<Rightarrow> addr \<Rightarrow> addr
   \<Rightarrow> raw_fd \<Rightarrow> 't list \<Rightarrow> socket_addr option \<Rightarrow> 'c option \<Rightarrow> ('t, 'c) sendmsg_data exec" where
  "sendmsg_data_new sock_of D C at_name at fd bufs a mc =
     bind_exec (collect_slices (io_slice D) bufs) (\<lambda>vs.
       let name = box_name sock_of at_name a in
       bind_exec (set_control C mc (set_name name (zeroed_msghdr\<lparr>msg_iov := vs, msg_iovlen := length vs\<rparr>))) (\<lambda>h.
         Inr \<lparr>sm_fd = fd, sm_io_bufs = bufs, sm_io_slices = vs, sm_socket_addr = name, sm_msg_control = mc,
              sm_msghdr = \<lparr>box_ptr = at, box_val = h\<rparr>\<rparr>))"

type_synonym ('t, 'c) sendmsg_out = "(nat, io_error) result \<times> 't list \<times> 'c option"

definition sendmsg_complete :: "('t, 'c) sendmsg_data \<Rightarrow> cqe_result \<Rightarrow> ('t, 'c) sendmsg_out" where
  "sendmsg_complete d cqe = (result_map unat (cr_result cqe), sm_io_bufs d, sm_msg_control d)"

definition sendmsg ::
  "(socket_addr \<Rightarrow> sock_addr) \<Rightarrow> ('t, 'm) bounded_buf_scheme \<Rightarrow> ('c, 'n) bounded_buf_scheme \<Rightarrow> addr \<Rightarrow> addr
   \<Rightarrow> raw_fd \<Rightarrow> 't list \<Rightarrow> socket_addr option \<Rightarrow> 'c option
   \<Rightarrow> (('t, 'c) sendmsg_data, ('t, 'c) sendmsg_out) request exec" where
  "sendmsg sock_of D C at_name at fd bufs a mc =
     bind_exec (sendmsg_data_new sock_of D C at_name at fd bufs a mc) (\<lambda>d.
       Inr \<lparr>rq_data = d, rq_sqe = entry_of (\<lambda>d. OpSendMsg (sm_fd d) (box_val (sm_msghdr d))),
            rq_complete = (\<lambda>d c. Inr (sendmsg_complete d c))\<rparr>)"

section \<open>Sending without a copy\<close>

text \<open>
  A zero-copy send posts the number of bytes with the \<^verbatim>\<open>more\<close> flag and later, when the buffer is no
  longer needed, a notification without it. \<open>bytes\<close> adds up what was reported so far.
\<close>

record 't send_zc_data =
  sz_fd :: raw_fd
  sz_buf :: 't
  sz_bytes :: nat

definition send_zc_new :: "raw_fd \<Rightarrow> 't \<Rightarrow> 't send_zc_data" where
  "send_zc_new fd buf = \<lparr>sz_fd = fd, sz_buf = buf, sz_bytes = 0\<rparr>"

definition send_zc_sqe :: "('t, 'm) bounded_buf_scheme \<Rightarrow> 't send_zc_data \<Rightarrow> (sqe \<times> 't send_zc_data) exec" where
  "send_zc_sqe D d =
     bind_exec (io_slice D (sz_buf d)) (\<lambda>v.
       Inr (sqe_build (OpSendZc (sz_fd d) (iov_base v) (of_nat (iov_len v))), d))"

definition send_zc_complete :: "'t send_zc_data \<Rightarrow> cqe_result \<Rightarrow> (nat, 't) buf_result exec" where
  "send_zc_complete d cqe = Inr (with_buffer (result_map (\<lambda>v. sz_bytes d + unat v) (cr_result cqe)) (sz_buf d))"

definition send_zc_update :: "'t send_zc_data \<Rightarrow> cqe_result \<Rightarrow> 't send_zc_data exec" where
  "send_zc_update d cqe =
     (case cr_result cqe of Ok v \<Rightarrow> Inr (d\<lparr>sz_bytes := sz_bytes d + unat v\<rparr>) | Err e \<Rightarrow> Inl unwrap_err)"

definition send_zc_up :: "('t send_zc_data, (nat, 't) buf_result) updateable" where
  "send_zc_up = \<lparr>co_complete = send_zc_complete, up_update = send_zc_update,
     up_should_yield = default_should_yield, up_yield_result = default_yield_result\<rparr>"

record ('t, 'c) sendmsg_zc_data = "('t, 'c) sendmsg_data" +
  sm_bytes :: nat

definition sendmsg_zc_new ::
  "(socket_addr \<Rightarrow> sock_addr) \<Rightarrow> ('t, 'm) bounded_buf_scheme \<Rightarrow> ('c, 'n) bounded_buf_scheme \<Rightarrow> addr \<Rightarrow> addr
   \<Rightarrow> raw_fd \<Rightarrow> 't list \<Rightarrow> socket_addr option \<Rightarrow> 'c option \<Rightarrow> ('t, 'c) sendmsg_zc_data exec" where
  "sendmsg_zc_new sock_of D C at_name at fd bufs a mc =
     bind_exec (sendmsg_data_new sock_of D C at_name at fd bufs a mc) (\<lambda>d.
       Inr (sendmsg_data.extend d \<lparr>sm_bytes = 0\<rparr>))"

definition sendmsg_zc_sqe :: "('t, 'c) sendmsg_zc_data \<Rightarrow> (sqe \<times> ('t, 'c) sendmsg_zc_data) exec" where
  "sendmsg_zc_sqe = entry_of (\<lambda>d. OpSendMsgZc (sm_fd d) (box_val (sm_msghdr d)))"

definition sendmsg_zc_complete :: "('t, 'c) sendmsg_zc_data \<Rightarrow> cqe_result \<Rightarrow> ('t, 'c) sendmsg_out exec" where
  "sendmsg_zc_complete d cqe =
     Inr (result_map (\<lambda>v. sm_bytes d + unat v) (cr_result cqe), sm_io_bufs d, sm_msg_control d)"

definition sendmsg_zc_update :: "('t, 'c) sendmsg_zc_data \<Rightarrow> cqe_result \<Rightarrow> ('t, 'c) sendmsg_zc_data exec" where
  "sendmsg_zc_update d cqe =
     (case cr_result cqe of Ok v \<Rightarrow> Inr (d\<lparr>sm_bytes := sm_bytes d + unat v\<rparr>) | Err e \<Rightarrow> Inl unwrap_err)"

definition sendmsg_zc_up :: "(('t, 'c) sendmsg_zc_data, ('t, 'c) sendmsg_out) updateable" where
  "sendmsg_zc_up = \<lparr>co_complete = sendmsg_zc_complete, up_update = sendmsg_zc_update,
     up_should_yield = default_should_yield, up_yield_result = default_yield_result\<rparr>"

end
