(* ===== verification/Io_Properties.thy ===== *)
theory Io_Properties
  imports Io_Messages Handle_Properties
begin

text \<open>
  What the requests of \<^verbatim>\<open>src/src/io/\<close> do when they run on the driver. The locale \<open>zc_counter\<close> is
  the contract of the zero-copy sends, whose data add up the bytes that the completions report;
  both sends interpret it, and the multishot contract of the driver.
\<close>

section \<open>Zero-copy sends\<close>

definition cqe_bytes :: "cqe_result \<Rightarrow> nat" where
  "cqe_bytes c = (case cr_result c of Ok v \<Rightarrow> unat v | Err e \<Rightarrow> 0)"

definition cqe_ok :: "cqe_result \<Rightarrow> bool" where
  "cqe_ok c \<longleftrightarrow> (\<exists>v. cr_result c = Ok v)"

locale zc_counter =
  fixes up :: "('d, 'o) updateable"
    and add :: "nat \<Rightarrow> 'd \<Rightarrow> 'd"
  assumes update_adds: "cr_result c = Ok v \<Longrightarrow> up_update up d c = Inr (add (unat v) d)"
    and never_yields: "\<not> up_should_yield up d"
    and add_zero: "add 0 d = d"
    and add_add: "add m (add n d) = add (n + m) d"
begin

lemma consume_adds:
  "all_more is_more q \<Longrightarrow> list_all cqe_ok q \<Longrightarrow> \<not> is_more (cr_flags c) \<Longrightarrow>
   consume up is_more d (q @ [c]) = Inr (CFinal (add (sum_list (map cqe_bytes q)) d) c [])"
proof (induction q arbitrary: d)
  case Nil
  then show ?case by (simp add: add_zero)
next
  case (Cons a q)
  then obtain v where "cr_result a = Ok v" by (auto simp: cqe_ok_def)
  with Cons show ?case by (simp add: update_adds never_yields add_add cqe_bytes_def)
qed

end

definition send_zc_add :: "nat \<Rightarrow> 't send_zc_data \<Rightarrow> 't send_zc_data" where
  "send_zc_add n d = d\<lparr>sz_bytes := sz_bytes d + n\<rparr>"

definition sendmsg_zc_add :: "nat \<Rightarrow> ('t, 'c) sendmsg_zc_data \<Rightarrow> ('t, 'c) sendmsg_zc_data" where
  "sendmsg_zc_add n d = d\<lparr>sm_bytes := sm_bytes d + n\<rparr>"

interpretation send_zc: zc_counter send_zc_up send_zc_add
  by unfold_locales
     (simp_all add: send_zc_up_def send_zc_update_def send_zc_add_def default_should_yield_def)

interpretation sendmsg_zc: zc_counter sendmsg_zc_up sendmsg_zc_add
  by unfold_locales
     (simp_all add: sendmsg_zc_up_def sendmsg_zc_update_def sendmsg_zc_add_def default_should_yield_def)

text \<open>The memory the kernel was given stays with the data while completions arrive.\<close>

interpretation send_zc_op: multishot_op send_zc_up "\<lambda>d. (sz_fd d, sz_buf d)"
  by unfold_locales
     (auto simp: send_zc_up_def send_zc_update_def default_yield_result_def split: result.splits)

interpretation sendmsg_zc_op: multishot_op sendmsg_zc_up sendmsg_data.truncate
  by unfold_locales
     (auto simp: sendmsg_zc_up_def sendmsg_zc_update_def default_yield_result_def sendmsg_data.truncate_def
       split: result.splits)

section \<open>Receiving into several buffers\<close>

text \<open>
  C37. \<^verbatim>\<open>recvmsg\<close> into several vectors breaks the first of them when the datagram is longer than it:
  the completion asks it to count all \<open>n\<close> received bytes as initialized, and a vector does so
  without regard to its capacity, so its length exceeds the capacity.
\<close>

theorem recvmsg_overruns_capacity:
  assumes "rd_buf d = v # vs" and "vec_wf v" and "cr_result cqe = Ok n" and "v_cap v < unat n"
    and "as_socket (box_val (rd_socket_addr d)) = Some a"
  shows "\<exists>v' vs'. recvmsg_complete as_socket (whole_bounded vec_io_buf) d cqe = Inr (Ok ((unat n, a), v' # vs'))
    \<and> v_len v' = unat n \<and> v_cap v' = v_cap v \<and> \<not> vec_wf v'"
  using assms
  by (auto simp: recvmsg_complete_def whole_bounded_def vec_io_buf_def vec_set_init_def vec_wf_def Let_def)

theorem recvmsg_overruns_capacity_witness:
  "\<exists>v' vs'. recvmsg_complete (\<lambda>s. Some (V4 1 2)) (whole_bounded vec_io_buf)
      (recv_data_new \<lparr>box_ptr = 8, box_val = \<lparr>sa_storage = [], sa_len = 128\<rparr>\<rparr> 16 3
        [\<lparr>v_ptr = 100, v_len = 0, v_cap = 4\<rparr>, \<lparr>v_ptr = 200, v_len = 0, v_cap = 4\<rparr>] [])
      \<lparr>cr_result = Ok 6, cr_flags = 0\<rparr> = Inr (Ok ((6, V4 1 2), v' # vs')) \<and> v_len v' = 6 \<and> v_cap v' = 4"
  using recvmsg_overruns_capacity [of "recv_data_new \<lparr>box_ptr = 8, box_val = \<lparr>sa_storage = [], sa_len = 128\<rparr>\<rparr> 16 3
        [\<lparr>v_ptr = 100, v_len = 0, v_cap = 4\<rparr>, \<lparr>v_ptr = 200, v_len = 0, v_cap = 4\<rparr>] []"
      "\<lparr>v_ptr = 100, v_len = 0, v_cap = 4\<rparr>" _ "\<lparr>cr_result = Ok 6, cr_flags = 0\<rparr>" 6 "\<lambda>s. Some (V4 1 2)" "V4 1 2"]
  by (auto simp: recv_data_new_def vec_wf_def usize_MAX_def)

end
