(* ===== verification/Fs_Core.thy ===== *)
theory Fs_Core
  imports Io_Ops
begin

text \<open>
  \<^verbatim>\<open>src/src/fs/\<close>: opening files with \<^verbatim>\<open>OpenOptions\<close>, the \<^verbatim>\<open>statx\<close> builder, the creation of directory
  trees in \<^verbatim>\<open>create_dir_all.rs\<close>, and the entry points of \<^verbatim>\<open>file.rs\<close>, \<^verbatim>\<open>directory.rs\<close> and
  \<^verbatim>\<open>symlink.rs\<close> that await a request. The kernel is a performer per kind of request.
\<close>

section \<open>Options for opening\<close>

definition O_RDONLY :: i32 where "O_RDONLY = 0"
definition O_WRONLY :: i32 where "O_WRONLY = 1"
definition O_RDWR :: i32 where "O_RDWR = 2"
definition O_CREAT :: i32 where "O_CREAT = 0x40"
definition O_EXCL :: i32 where "O_EXCL = 0x80"
definition O_TRUNC :: i32 where "O_TRUNC = 0x200"
definition O_APPEND :: i32 where "O_APPEND = 0x400"

record open_options =
  oo_read :: bool
  oo_write :: bool
  oo_append :: bool
  oo_truncate :: bool
  oo_create :: bool
  oo_create_new :: bool
  oo_mode :: u32
  oo_custom_flags :: i32

definition open_options_new :: open_options where
  "open_options_new = \<lparr>oo_read = False, oo_write = False, oo_append = False, oo_truncate = False, oo_create = False,
     oo_create_new = False, oo_mode = 438, oo_custom_flags = 0\<rparr>"

definition set_read :: "bool \<Rightarrow> open_options \<Rightarrow> open_options" where "set_read b p = p\<lparr>oo_read := b\<rparr>"
definition set_write :: "bool \<Rightarrow> open_options \<Rightarrow> open_options" where "set_write b p = p\<lparr>oo_write := b\<rparr>"
definition set_append :: "bool \<Rightarrow> open_options \<Rightarrow> open_options" where "set_append b p = p\<lparr>oo_append := b\<rparr>"
definition set_truncate :: "bool \<Rightarrow> open_options \<Rightarrow> open_options" where "set_truncate b p = p\<lparr>oo_truncate := b\<rparr>"
definition set_create :: "bool \<Rightarrow> open_options \<Rightarrow> open_options" where "set_create b p = p\<lparr>oo_create := b\<rparr>"
definition set_create_new :: "bool \<Rightarrow> open_options \<Rightarrow> open_options" where "set_create_new b p = p\<lparr>oo_create_new := b\<rparr>"
definition set_mode :: "u32 \<Rightarrow> open_options \<Rightarrow> open_options" where "set_mode m p = p\<lparr>oo_mode := m\<rparr>"
definition set_custom_flags :: "i32 \<Rightarrow> open_options \<Rightarrow> open_options" where
  "set_custom_flags f p = p\<lparr>oo_custom_flags := f\<rparr>"

definition access_mode :: "open_options \<Rightarrow> (i32, io_error) result" where
  "access_mode p =
     (case (oo_read p, oo_write p, oo_append p) of
        (True, False, False) \<Rightarrow> Ok O_RDONLY
      | (False, True, False) \<Rightarrow> Ok O_WRONLY
      | (True, True, False) \<Rightarrow> Ok O_RDWR
      | (False, _, True) \<Rightarrow> Ok (O_WRONLY OR O_APPEND)
      | (True, _, True) \<Rightarrow> Ok (O_RDWR OR O_APPEND)
      | (False, False, False) \<Rightarrow> Err (OsError EINVAL))"

definition creation_flags :: "open_options \<Rightarrow> i32" where
  "creation_flags p =
     (case (oo_create p, oo_truncate p, oo_create_new p) of
        (False, False, False) \<Rightarrow> 0
      | (True, False, False) \<Rightarrow> O_CREAT
      | (False, True, False) \<Rightarrow> O_TRUNC
      | (True, True, False) \<Rightarrow> O_CREAT OR O_TRUNC
      | (_, _, True) \<Rightarrow> O_CREAT OR O_EXCL)"

definition creation_mode :: "open_options \<Rightarrow> (i32, io_error) result" where
  "creation_mode p =
     (case (oo_write p, oo_append p) of
        (True, False) \<Rightarrow> Ok (creation_flags p)
      | (False, False) \<Rightarrow>
          if oo_truncate p \<or> oo_create p \<or> oo_create_new p then Err (OsError EINVAL) else Ok (creation_flags p)
      | (_, True) \<Rightarrow>
          if oo_truncate p \<and> \<not> oo_create_new p then Err (OsError EINVAL) else Ok (creation_flags p))"

text \<open>\<^verbatim>\<open>File\<close> and the operation \<^verbatim>\<open>Open\<close>.\<close>

record fs_file =
  fl_fd :: shared_fd

definition from_shared_fd :: "shared_fd \<Rightarrow> fs_file" where
  "from_shared_fd fd = \<lparr>fl_fd = fd\<rparr>"

record open_data =
  op_path :: path
  op_flags :: i32

definition open_complete :: "open_data \<Rightarrow> cqe_result \<Rightarrow> (fs_file, io_error) result" where
  "open_complete d cqe = bind_result (cr_result cqe) (\<lambda>fd. Ok (from_shared_fd (shared_fd_new (sint fd))))"

definition open_op :: "path \<Rightarrow> open_options \<Rightarrow> ((open_data, (fs_file, io_error) result) request, io_error) result" where
  "open_op p options =
     bind_result (cstr p) (\<lambda>p.
     bind_result (access_mode options) (\<lambda>am.
     bind_result (creation_mode options) (\<lambda>cm.
       let flags = O_CLOEXEC OR am OR cm OR (oo_custom_flags options AND NOT O_ACCMODE) in
       Ok \<lparr>rq_data = \<lparr>op_path = p, op_flags = flags\<rparr>,
           rq_sqe = entry_of (\<lambda>d. OpOpenAt AT_FDCWD (op_path d) flags (oo_mode options)),
           rq_complete = (\<lambda>d c. Inr (open_complete d c))\<rparr>)))"

text \<open>\<^verbatim>\<open>Op::f(...)?.await\<close>: an error before the submission is returned, otherwise the request is awaited.\<close>

definition try_await ::
  "('d, 's) performer \<Rightarrow> (('d, ('o, io_error) result) request, io_error) result \<Rightarrow> 's
   \<Rightarrow> (('o, io_error) result \<times> 's) exec" where
  "try_await perform r st = (case r of Err e \<Rightarrow> Inr (Err e, st) | Ok rq \<Rightarrow> await_request perform rq st)"

definition open_with :: "(open_data, 's) performer \<Rightarrow> open_options \<Rightarrow> path \<Rightarrow> 's \<Rightarrow> ((fs_file, io_error) result \<times> 's) exec" where
  "open_with perform options p = try_await perform (open_op p options)"

definition file_open :: "(open_data, 's) performer \<Rightarrow> path \<Rightarrow> 's \<Rightarrow> ((fs_file, io_error) result \<times> 's) exec" where
  "file_open perform = open_with perform (set_read True open_options_new)"

definition file_create :: "(open_data, 's) performer \<Rightarrow> path \<Rightarrow> 's \<Rightarrow> ((fs_file, io_error) result \<times> 's) exec" where
  "file_create perform = open_with perform (set_truncate True (set_create True (set_write True open_options_new)))"

definition file_from_std :: "raw_fd \<Rightarrow> fs_file" where
  "file_from_std fd = from_shared_fd (shared_fd_new fd)"

definition file_raw_fd :: "fs_file \<Rightarrow> raw_fd" where
  "file_raw_fd f = sf_fd (fl_fd f)"

definition file_read_at :: "fs_file \<Rightarrow> buffer \<Rightarrow> nat \<Rightarrow> (rw_data, rw_kind) unsubmitted" where
  "file_read_at f buf pos = read_at (file_raw_fd f) buf pos"

definition file_write_at :: "fs_file \<Rightarrow> buffer \<Rightarrow> nat \<Rightarrow> (rw_data, rw_kind) unsubmitted" where
  "file_write_at f buf pos = write_at (file_raw_fd f) buf pos"

text \<open>The operations on registered buffers, and closing: one poll of \<^verbatim>\<open>close\<close> on the descriptor.\<close>

definition file_read_fixed_at ::
  "(fixed_data, 's) performer \<Rightarrow> fs_file \<Rightarrow> bounded \<Rightarrow> nat \<Rightarrow> 's \<Rightarrow> ((nat, bounded) buf_result \<times> 's) exec" where
  "file_read_fixed_at perform f buf pos = await_request perform (read_fixed_at (file_raw_fd f) buf pos)"

definition file_write_fixed_at ::
  "(fixed_data, 's) performer \<Rightarrow> fs_file \<Rightarrow> bounded \<Rightarrow> nat \<Rightarrow> 's \<Rightarrow> ((nat, bounded) buf_result \<times> 's) exec" where
  "file_write_fixed_at perform f buf pos = await_request perform (write_fixed_at (file_raw_fd f) buf pos)"

definition file_from_raw_fd :: "raw_fd \<Rightarrow> fs_file" where
  "file_from_raw_fd fd = from_shared_fd (shared_fd_new fd)"

definition file_close :: "waker \<Rightarrow> (unit, io_error) result \<Rightarrow> fs_file \<Rightarrow> (close_progress \<times> fs_file) option" where
  "file_close w sub f =
     map_option (\<lambda>(r, fd). (r, from_shared_fd fd)) (shared_fd_close w sub (fl_fd f))"

definition sync_all :: "(fsync_data, 's) performer \<Rightarrow> fs_file \<Rightarrow> 's \<Rightarrow> ((unit, io_error) result \<times> 's) exec" where
  "sync_all perform f = await_request perform (fsync (file_raw_fd f))"

definition sync_data :: "(fsync_data, 's) performer \<Rightarrow> fs_file \<Rightarrow> 's \<Rightarrow> ((unit, io_error) result \<times> 's) exec" where
  "sync_data perform f = await_request perform (datasync (file_raw_fd f))"

definition file_fallocate ::
  "(fallocate_data, 's) performer \<Rightarrow> fs_file \<Rightarrow> nat \<Rightarrow> nat \<Rightarrow> i32 \<Rightarrow> 's \<Rightarrow> ((unit, io_error) result \<times> 's) exec" where
  "file_fallocate perform f offset len flags = await_request perform (fallocate (file_raw_fd f) offset len flags)"

definition remove_file :: "(unlink_data, 's) performer \<Rightarrow> path \<Rightarrow> 's \<Rightarrow> ((unit, io_error) result \<times> 's) exec" where
  "remove_file perform p = try_await perform (unlink_file p)"

definition rename :: "(rename_data, 's) performer \<Rightarrow> path \<Rightarrow> path \<Rightarrow> 's \<Rightarrow> ((unit, io_error) result \<times> 's) exec" where
  "rename perform src dst = try_await perform (rename_at src dst 0)"

definition fs_symlink :: "(symlink_data, 's) performer \<Rightarrow> path \<Rightarrow> path \<Rightarrow> 's \<Rightarrow> ((unit, io_error) result \<times> 's) exec" where
  "fs_symlink perform src dst = try_await perform (symlink_op src dst)"

definition create_dir :: "(mkdir_data, 's) performer \<Rightarrow> path \<Rightarrow> 's \<Rightarrow> ((unit, io_error) result \<times> 's) exec" where
  "create_dir perform p = try_await perform (make_dir p 511)"

definition remove_dir :: "(unlink_data, 's) performer \<Rightarrow> path \<Rightarrow> 's \<Rightarrow> ((unit, io_error) result \<times> 's) exec" where
  "remove_dir perform p = try_await perform (unlink_dir p)"

section \<open>The statx builder\<close>

definition STATX_TYPE :: u32 where "STATX_TYPE = 1"
definition STATX_ALL :: u32 where "STATX_ALL = 0xfff"
definition S_IFMT :: u32 where "S_IFMT = 0xf000"
definition S_IFDIR :: u32 where "S_IFDIR = 0x4000"
definition S_IFREG :: u32 where "S_IFREG = 0x8000"

record statx_builder =
  sb_file :: "raw_fd option"
  sb_path :: "path option"
  sb_flags :: i32
  sb_mask :: u32

definition statx_builder_new :: statx_builder where
  "statx_builder_new = \<lparr>sb_file = None, sb_path = None, sb_flags = AT_EMPTY_PATH, sb_mask = STATX_ALL\<rparr>"

definition file_statx_builder :: "fs_file \<Rightarrow> statx_builder" where
  "file_statx_builder f = \<lparr>sb_file = Some (file_raw_fd f), sb_path = None, sb_flags = AT_EMPTY_PATH, sb_mask = STATX_ALL\<rparr>"

definition sb_dirfd :: "fs_file \<Rightarrow> statx_builder \<Rightarrow> statx_builder" where
  "sb_dirfd f b = b\<lparr>sb_file := Some (file_raw_fd f)\<rparr>"

definition sb_pathname :: "path \<Rightarrow> statx_builder \<Rightarrow> (statx_builder, io_error) result" where
  "sb_pathname p b = bind_result (cstr p) (\<lambda>q. Ok (b\<lparr>sb_path := Some q\<rparr>))"

definition sb_set_flags :: "i32 \<Rightarrow> statx_builder \<Rightarrow> statx_builder" where
  "sb_set_flags f b = b\<lparr>sb_flags := f\<rparr>"

definition sb_set_mask :: "u32 \<Rightarrow> statx_builder \<Rightarrow> statx_builder" where
  "sb_set_mask m b = b\<lparr>sb_mask := m\<rparr>"

text \<open>\<^verbatim>\<open>StatxBuilder::statx\<close> takes the file and the path out of the builder.\<close>

definition sb_statx ::
  "(statx_data, 's) performer \<Rightarrow> addr \<Rightarrow> statx_builder \<Rightarrow> 's \<Rightarrow> (((statx, io_error) result \<times> 's) \<times> statx_builder) exec" where
  "sb_statx perform at b st =
     bind_exec (await_request perform (statx_op at (sb_file b) (sb_path b) (sb_flags b) (sb_mask b)) st) (\<lambda>r.
       Inr (r, b\<lparr>sb_file := None, sb_path := None\<rparr>))"

definition file_statx :: "(statx_data, 's) performer \<Rightarrow> addr \<Rightarrow> fs_file \<Rightarrow> 's \<Rightarrow> ((statx, io_error) result \<times> 's) exec" where
  "file_statx perform at f = await_request perform (statx_op at (Some (file_raw_fd f)) None AT_EMPTY_PATH STATX_ALL)"

definition fs_statx :: "(statx_data, 's) performer \<Rightarrow> addr \<Rightarrow> path \<Rightarrow> 's \<Rightarrow> ((statx, io_error) result \<times> 's) exec" where
  "fs_statx perform at p st =
     (case sb_pathname p statx_builder_new of
        Err e \<Rightarrow> Inl (Explicit ''called Result::unwrap on an Err value'')
      | Ok b \<Rightarrow> bind_exec (sb_statx perform at b st) (\<lambda>(r, b'). Inr r))"

definition is_kind :: "u32 \<Rightarrow> statx \<Rightarrow> bool" where
  "is_kind k s \<longleftrightarrow> ucast (stx_mode s) AND S_IFMT = k"

definition is_dir_regfile :: "(statx_data, 's) performer \<Rightarrow> addr \<Rightarrow> path \<Rightarrow> 's \<Rightarrow> ((bool \<times> bool) \<times> 's) exec" where
  "is_dir_regfile perform at p st =
     (case sb_pathname p (sb_set_mask STATX_TYPE statx_builder_new) of
        Err e \<Rightarrow> Inr ((False, False), st)
      | Ok b \<Rightarrow>
          bind_exec (sb_statx perform at b st) (\<lambda>((r, st'), b').
            case r of
              Ok s \<Rightarrow> Inr ((is_kind S_IFDIR s, is_kind S_IFREG s), st')
            | Err e \<Rightarrow> Inr ((False, False), st')))"

text \<open>\<^verbatim>\<open>is_dir\<close> of \<^verbatim>\<open>create_dir_all.rs\<close>.\<close>

definition is_dir :: "(statx_data, 's) performer \<Rightarrow> addr \<Rightarrow> path \<Rightarrow> 's \<Rightarrow> (bool \<times> 's) exec" where
  "is_dir perform at p st =
     (case sb_pathname p (sb_set_mask STATX_TYPE statx_builder_new) of
        Err e \<Rightarrow> Inr (False, st)
      | Ok b \<Rightarrow>
          bind_exec (sb_statx perform at b st) (\<lambda>((r, st'), b').
            case r of Ok s \<Rightarrow> Inr (is_kind S_IFDIR s, st') | Err e \<Rightarrow> Inr (False, st')))"

section \<open>Parents of paths\<close>

text \<open>
  \<^verbatim>\<open>std::path::Path::parent\<close> on the bytes of a path: trailing separators and \<^verbatim>\<open>/.\<close> are trimmed, the
  last component is cut off and the rest is trimmed again. A root or an empty path has no parent.
  The strings are reversed.
\<close>

definition slash :: char where "slash = CHR ''/''"
definition dot :: char where "dot = CHR ''.''"

fun trim_rev :: "string \<Rightarrow> string" where
  "trim_rev (c # d # cs) =
     (if c = slash \<or> (c = dot \<and> d = slash) then trim_rev (d # cs) else c # d # cs)"
| "trim_rev cs = cs"

definition parent :: "path \<Rightarrow> path option" where
  "parent p =
     (let q = trim_rev (rev p) in
      if q = [] \<or> q = [slash] then None else Some (rev (trim_rev (dropWhile (\<lambda>c. c \<noteq> slash) q))))"

lemma trim_rev_length: "length (trim_rev cs) \<le> length cs"
  by (induction cs rule: trim_rev.induct) auto

lemma trim_rev_set: "set (trim_rev cs) \<subseteq> set cs"
  by (induction cs rule: trim_rev.induct) auto

lemma trim_rev_slash: "trim_rev cs = slash # ds \<Longrightarrow> ds = []"
  by (induction cs rule: trim_rev.induct) (auto split: if_splits)

lemma parent_length:
  assumes "parent p = Some q"
  shows "length q < length p"
proof -
  let ?t = "trim_rev (rev p)"
  from assms have t: "?t \<noteq> []" "?t \<noteq> [slash]" and q: "q = rev (trim_rev (dropWhile (\<lambda>c. c \<noteq> slash) ?t))"
    by (auto simp: parent_def Let_def split: if_splits)
  then obtain c cs where c: "?t = c # cs" by (cases ?t) auto
  with trim_rev_slash t(2) have "c \<noteq> slash" by blast
  then have "length (dropWhile (\<lambda>c. c \<noteq> slash) ?t) < length ?t"
    using c length_dropWhile_le [of "\<lambda>c. c \<noteq> slash" cs] by (simp add: less_Suc_eq_le)
  moreover have "length ?t \<le> length p" using trim_rev_length [of "rev p"] by simp
  ultimately show ?thesis using trim_rev_length [of "dropWhile (\<lambda>c. c \<noteq> slash) ?t"] q by simp
qed

lemma parent_set: "parent p = Some q \<Longrightarrow> set q \<subseteq> set p"
proof -
  assume "parent p = Some q"
  then have "set q = set (trim_rev (dropWhile (\<lambda>c. c \<noteq> slash) (trim_rev (rev p))))"
    by (auto simp: parent_def Let_def split: if_splits)
  then show ?thesis
    using trim_rev_set [of "rev p"] trim_rev_set [of "dropWhile (\<lambda>c. c \<noteq> slash) (trim_rev (rev p))"]
    by (auto dest!: set_dropWhileD subsetD)
qed

section \<open>Directory trees\<close>

text \<open>The inner builder, of the module \<^verbatim>\<open>fs_imp\<close>.\<close>

record imp_dir_builder =
  imp_mode :: u32

definition imp_new :: imp_dir_builder where
  "imp_new = \<lparr>imp_mode = 511\<rparr>"

definition imp_set_mode :: "u32 \<Rightarrow> imp_dir_builder \<Rightarrow> imp_dir_builder" where
  "imp_set_mode m b = b\<lparr>imp_mode := m\<rparr>"

definition fs_mkdir :: "(mkdir_data, 's) performer \<Rightarrow> imp_dir_builder \<Rightarrow> path \<Rightarrow> 's \<Rightarrow> ((unit, io_error) result \<times> 's) exec" where
  "fs_mkdir perform b p = try_await perform (make_dir p (imp_mode b))"

record dir_builder =
  db_inner :: imp_dir_builder
  db_recursive :: bool

definition dir_builder_new :: dir_builder where
  "dir_builder_new = \<lparr>db_inner = imp_new, db_recursive = False\<rparr>"

definition db_set_recursive :: "bool \<Rightarrow> dir_builder \<Rightarrow> dir_builder" where
  "db_set_recursive r b = b\<lparr>db_recursive := r\<rparr>"

definition db_set_mode :: "u32 \<Rightarrow> dir_builder \<Rightarrow> dir_builder" where
  "db_set_mode m b = b\<lparr>db_inner := imp_set_mode m (db_inner b)\<rparr>"

definition whole_tree :: io_error where
  "whole_tree = KindError Other ''failed to create whole tree''"

fun is_not_found :: "('a, io_error) result \<Rightarrow> bool" where
  "is_not_found (Ok x) \<longleftrightarrow> False"
| "is_not_found (Err e) \<longleftrightarrow> error_kind_of e = NotFound"

text \<open>\<^verbatim>\<open>Ok(()) => Ok(()), Err(_) if is_dir(path) => Ok(()), Err(e) => Err(e)\<close>.\<close>

definition or_is_dir ::
  "(statx_data, 's) performer \<Rightarrow> addr \<Rightarrow> path \<Rightarrow> (unit, io_error) result \<times> 's \<Rightarrow> ((unit, io_error) result \<times> 's) exec" where
  "or_is_dir sx at p x =
     (case x of
        (Ok u, st) \<Rightarrow> Inr (Ok (), st)
      | (Err e, st) \<Rightarrow> bind_exec (is_dir sx at p st) (\<lambda>(b, st'). Inr (if b then Ok () else Err e, st')))"

function recurse_create_dir_all ::
  "(mkdir_data, 's) performer \<Rightarrow> (statx_data, 's) performer \<Rightarrow> addr \<Rightarrow> imp_dir_builder \<Rightarrow> path \<Rightarrow> 's
   \<Rightarrow> ((unit, io_error) result \<times> 's) exec" where
  "recurse_create_dir_all mk sx at inner p st =
     (if p = [] then Inr (Ok (), st)
      else bind_exec (fs_mkdir mk inner p st) (\<lambda>(r, st1).
        if is_not_found r then
          (case parent p of
             None \<Rightarrow> Inr (Err whole_tree, st1)
           | Some q \<Rightarrow>
               bind_exec (recurse_create_dir_all mk sx at inner q st1) (\<lambda>(r', st2).
                 case r' of
                   Err e \<Rightarrow> Inr (Err e, st2)
                 | Ok u \<Rightarrow> bind_exec (fs_mkdir mk inner p st2) (or_is_dir sx at p)))
        else or_is_dir sx at p (r, st1)))"
  by pat_completeness auto
termination
  by (relation "measure (\<lambda>(mk, sx, at, inner, p, st). length p)") (auto dest: parent_length)

declare recurse_create_dir_all.simps [simp del]

definition db_create ::
  "(mkdir_data, 's) performer \<Rightarrow> (statx_data, 's) performer \<Rightarrow> addr \<Rightarrow> dir_builder \<Rightarrow> path \<Rightarrow> 's
   \<Rightarrow> ((unit, io_error) result \<times> 's) exec" where
  "db_create mk sx at b p st =
     (if db_recursive b then recurse_create_dir_all mk sx at (db_inner b) p st else fs_mkdir mk (db_inner b) p st)"

definition create_dir_all ::
  "(mkdir_data, 's) performer \<Rightarrow> (statx_data, 's) performer \<Rightarrow> addr \<Rightarrow> path \<Rightarrow> 's
   \<Rightarrow> ((unit, io_error) result \<times> 's) exec" where
  "create_dir_all mk sx at = db_create mk sx at (db_set_recursive True dir_builder_new)"

end
