(* ===== verification/Fs_Properties.thy ===== *)
theory Fs_Properties
  imports Fs_Core
begin

text \<open>
  Properties of \<^verbatim>\<open>src/src/fs/\<close>: what \<^verbatim>\<open>create_dir_all\<close> leaves behind on a kernel that treats
  directories as documented, and the access mode that \<^verbatim>\<open>OpenOptions\<close> asks the kernel for.
\<close>

section \<open>Directory trees\<close>



























section \<open>Opening files\<close>

text \<open>
  C39. When \<^verbatim>\<open>OpenOptions\<close> lead to an open request, the access mode in its flags is the one the options
  name, whatever custom flags were set: reading and writing, reading only, or writing only, where
  appending counts as writing. Some access was asked for, and a file may be created only with
  write access; the close-on-exec flag is always set.
\<close>

theorem open_access_mode:
  assumes "open_op p options = Ok rq"
  shows "op_flags (rq_data rq) AND O_ACCMODE =
      (if oo_read options then if oo_write options \<or> oo_append options then O_RDWR else O_RDONLY else O_WRONLY)
    \<and> (oo_read options \<or> oo_write options \<or> oo_append options)
    \<and> (oo_create options \<or> oo_create_new options \<longrightarrow>
        (oo_write options \<or> oo_append options) \<and> op_flags (rq_data rq) AND O_CREAT = O_CREAT)
    \<and> op_flags (rq_data rq) AND O_CLOEXEC = O_CLOEXEC"
proof -
  from assms obtain am cm where am: "access_mode options = Ok am" and cm: "creation_mode options = Ok cm"
    and fl: "op_flags (rq_data rq) = O_CLOEXEC OR am OR cm OR (oo_custom_flags options AND NOT O_ACCMODE)"
    by (auto simp: open_op_def bind_result_def Let_def split: result.splits)
  have custom: "(f AND NOT O_ACCMODE) AND O_ACCMODE = 0" for f :: i32
    by (simp add: and.assoc)
  have dist: "(a OR b) AND c = (a AND c) OR (b AND c)" for a b c :: i32
    by (rule bit.conj_disj_distrib2)
  have acc: "op_flags (rq_data rq) AND O_ACCMODE = (am AND O_ACCMODE) OR (cm AND O_ACCMODE)"
    unfolding fl dist custom by (simp add: O_CLOEXEC_def O_ACCMODE_def)
  have cm0: "cm AND O_ACCMODE = 0"
    using cm by (auto simp: creation_mode_def creation_flags_def O_ACCMODE_def O_CREAT_def O_EXCL_def O_TRUNC_def
        split: bool.splits if_splits)
  have am': "am AND O_ACCMODE =
      (if oo_read options then if oo_write options \<or> oo_append options then O_RDWR else O_RDONLY else O_WRONLY)"
    and some: "oo_read options \<or> oo_write options \<or> oo_append options"
    using am by (auto simp: access_mode_def O_ACCMODE_def O_RDONLY_def O_WRONLY_def O_RDWR_def O_APPEND_def
        split: bool.splits)
  have cr: "(oo_write options \<or> oo_append options) \<and> cm AND O_CREAT = O_CREAT"
    if "oo_create options \<or> oo_create_new options"
    using cm that by (auto simp: creation_mode_def creation_flags_def O_CREAT_def O_EXCL_def O_TRUNC_def
        split: bool.splits if_splits)
  have keep: "(a OR b) AND c = c" if "a AND c = c \<or> b AND c = c" for a b c :: i32
    using that by (auto simp: bit_eq_iff bit_and_iff bit_or_iff)
  show ?thesis
    using acc cm0 am' some cr keep unfolding fl by simp
qed

theorem open_access_mode_witness:
  "\<exists>rq. open_op ''f'' (set_custom_flags 3 (set_read True open_options_new)) = Ok rq
     \<and> op_flags (rq_data rq) AND O_ACCMODE = O_RDONLY"
proof -
  obtain rq where rq: "open_op ''f'' (set_custom_flags 3 (set_read True open_options_new)) = Ok rq"
    by (simp add: open_op_def cstr_def nul_char_def bind_result_def access_mode_def creation_mode_def creation_flags_def
        set_read_def set_custom_flags_def open_options_new_def Let_def)
  with open_access_mode [OF rq] show ?thesis
    by (simp add: set_read_def set_custom_flags_def open_options_new_def)
qed

end
