(* ===== verification/Net_Sockets.thy ===== *)
theory Net_Sockets
  imports Io_Messages
begin

text \<open>
  \<^verbatim>\<open>src/src/io/socket.rs\<close> and \<^verbatim>\<open>src/src/net/\<close>: making, binding, connecting and accepting sockets, and
  the methods that await a request on their descriptor. System calls that do not go through the
  ring (those of \<^verbatim>\<open>socket2\<close> and \<^verbatim>\<open>libc\<close>) are data, performed by a parameter. The descriptor of a
  \<^verbatim>\<open>socket2::Socket\<close> or of the last \<^verbatim>\<open>SharedFd\<close> is closed when it goes out of scope, also on an
  early return.
\<close>

section \<open>System calls\<close>

datatype syscall =
    SysSocket i32 i32
  | SysReusePort raw_fd bool
  | SysReuseAddress raw_fd bool
  | SysBind raw_fd sock_addr
  | SysListen raw_fd i32
  | SysShutdown raw_fd nat
  | SysNodelay raw_fd bool
  | SysClose raw_fd

type_synonym 's sys = "syscall \<Rightarrow> 's \<Rightarrow> (raw_fd, io_error) result \<times> 's"

definition AF_UNIX :: i32 where "AF_UNIX = 1"
definition SOCK_STREAM :: i32 where "SOCK_STREAM = 1"
definition SOCK_CLOEXEC :: i32 where "SOCK_CLOEXEC = 0x80000"

text \<open>\<^verbatim>\<open>f()?\<close> in a function that must first run \<open>cleanup\<close> when it returns early.\<close>

definition try_sys ::
  "'s sys \<Rightarrow> syscall \<Rightarrow> ('s \<Rightarrow> 's) \<Rightarrow> (raw_fd \<Rightarrow> 's \<Rightarrow> ('a, io_error) result \<times> 's) \<Rightarrow> 's \<Rightarrow> ('a, io_error) result \<times> 's" where
  "try_sys sys c cleanup k st =
     (case sys c st of (Ok v, st') \<Rightarrow> k v st' | (Err e, st') \<Rightarrow> (Err e, cleanup st'))"

definition close_fd :: "'s sys \<Rightarrow> raw_fd \<Rightarrow> 's \<Rightarrow> 's" where
  "close_fd sys fd st = snd (sys (SysClose fd) st)"

text \<open>Dropping a socket runs the closes that dropping its \<^verbatim>\<open>SharedFd\<close> issues.\<close>

definition run_close :: "'s sys \<Rightarrow> close_event \<Rightarrow> 's \<Rightarrow> 's" where
  "run_close sys e st = (case e of SyncClose fd \<Rightarrow> close_fd sys fd st | RingClose fd \<Rightarrow> st)"

definition socket_drop :: "'s sys \<Rightarrow> socket \<Rightarrow> 's \<Rightarrow> 's" where
  "socket_drop sys s st =
     fold (run_close sys) (drop (length (sf_closes (so_fd s))) (sf_closes (shared_fd_drop (so_fd s)))) st"

section \<open>Sockets\<close>


definition socket_raw_fd :: "socket \<Rightarrow> raw_fd" where
  "socket_raw_fd s = sf_fd (so_fd s)"

definition socket_from_fd :: "raw_fd \<Rightarrow> socket" where
  "socket_from_fd fd = \<lparr>so_fd = shared_fd_new fd\<rparr>"


definition socket_new_unix :: "'s sys \<Rightarrow> i32 \<Rightarrow> 's \<Rightarrow> (socket, io_error) result \<times> 's" where
  "socket_new_unix sys ty = try_sys sys (SysSocket AF_UNIX (ty OR SOCK_CLOEXEC)) (\<lambda>st. st) (\<lambda>fd st. (Ok (socket_from_fd fd), st))"





definition socket_shutdown :: "'s sys \<Rightarrow> socket \<Rightarrow> nat \<Rightarrow> 's \<Rightarrow> (unit, io_error) result \<times> 's" where
  "socket_shutdown sys s how = try_sys sys (SysShutdown (socket_raw_fd s) how) (\<lambda>st. st) (\<lambda>_ st. (Ok (), st))"

definition socket_set_nodelay :: "'s sys \<Rightarrow> socket \<Rightarrow> bool \<Rightarrow> 's \<Rightarrow> (unit, io_error) result \<times> 's" where
  "socket_set_nodelay sys s b = try_sys sys (SysNodelay (socket_raw_fd s) b) (\<lambda>st. st) (\<lambda>_ st. (Ok (), st))"

text \<open>The methods that await one request.\<close>

definition await_exec :: "('d, 's) performer \<Rightarrow> ('d, 'o) request exec \<Rightarrow> 's \<Rightarrow> ('o \<times> 's) exec" where
  "await_exec perform r st = bind_exec r (\<lambda>rq. await_request perform rq st)"

definition socket_write :: "socket \<Rightarrow> buffer \<Rightarrow> (rw_data, rw_kind) unsubmitted" where
  "socket_write s buf = write_at (socket_raw_fd s) buf 0"

definition socket_read :: "socket \<Rightarrow> buffer \<Rightarrow> (rw_data, rw_kind) unsubmitted" where
  "socket_read s buf = read_at (socket_raw_fd s) buf 0"

definition socket_send_to ::
  "('t send_to_data, 's) performer \<Rightarrow> (socket_addr \<Rightarrow> sock_addr) \<Rightarrow> ('t, 'm) bounded_buf_scheme \<Rightarrow> addr \<Rightarrow> addr
   \<Rightarrow> socket \<Rightarrow> 't \<Rightarrow> socket_addr option \<Rightarrow> 's \<Rightarrow> ((nat, 't) buf_result \<times> 's) exec" where
  "socket_send_to perform sock_of D at_name at s buf a =
     await_exec perform (send_to sock_of D at_name at (socket_raw_fd s) buf a)"

definition socket_sendmsg ::
  "(('t, 'c) sendmsg_data, 's) performer \<Rightarrow> (socket_addr \<Rightarrow> sock_addr) \<Rightarrow> ('t, 'm) bounded_buf_scheme
   \<Rightarrow> ('c, 'n) bounded_buf_scheme \<Rightarrow> addr \<Rightarrow> addr \<Rightarrow> socket \<Rightarrow> 't list \<Rightarrow> socket_addr option \<Rightarrow> 'c option \<Rightarrow> 's
   \<Rightarrow> (('t, 'c) sendmsg_out \<times> 's) exec" where
  "socket_sendmsg perform sock_of D C at_name at s bufs a mc =
     await_exec perform (sendmsg sock_of D C at_name at (socket_raw_fd s) bufs a mc)"

definition socket_recv_from ::
  "('t recv_data, 's) performer \<Rightarrow> (sock_addr \<Rightarrow> socket_addr option) \<Rightarrow> ('t, 'm) bounded_buf_mut_scheme
   \<Rightarrow> sock_addr boxed \<Rightarrow> addr \<Rightarrow> socket \<Rightarrow> 't \<Rightarrow> 's \<Rightarrow> ((nat \<times> socket_addr, 't) buf_result \<times> 's) exec" where
  "socket_recv_from perform as_socket D name at s buf =
     await_exec perform (recv_from as_socket D name at (socket_raw_fd s) buf)"

definition socket_recvmsg ::
  "('t list recv_data, 's) performer \<Rightarrow> (sock_addr \<Rightarrow> socket_addr option) \<Rightarrow> ('t, 'm) bounded_buf_mut_scheme
   \<Rightarrow> sock_addr boxed \<Rightarrow> addr \<Rightarrow> socket \<Rightarrow> 't list \<Rightarrow> 's \<Rightarrow> ((nat \<times> socket_addr, 't list) buf_result \<times> 's) exec" where
  "socket_recvmsg perform as_socket D name at s bufs =
     await_exec perform (recvmsg as_socket D name at (socket_raw_fd s) bufs)"

definition socket_accept ::
  "(accept_data, 's) performer \<Rightarrow> (sock_addr \<Rightarrow> socket_addr option) \<Rightarrow> addr \<Rightarrow> socket \<Rightarrow> 's
   \<Rightarrow> ((socket \<times> socket_addr option, io_error) result \<times> 's) exec" where
  "socket_accept perform as_socket at s = await_request perform (accept_op as_socket at (socket_raw_fd s))"

definition socket_connect ::
  "(connect_data, 's) performer \<Rightarrow> addr \<Rightarrow> socket \<Rightarrow> sock_addr \<Rightarrow> 's \<Rightarrow> ((unit, io_error) result \<times> 's) exec" where
  "socket_connect perform at s sa = await_request perform (connect_op at (socket_raw_fd s) sa)"

section \<open>TCP, UDP and Unix sockets\<close>





definition tcp_accept ::
  "'s sys \<Rightarrow> (accept_data, 's) performer \<Rightarrow> (sock_addr \<Rightarrow> socket_addr option) \<Rightarrow> addr \<Rightarrow> socket \<Rightarrow> 's
   \<Rightarrow> ((socket \<times> socket_addr, io_error) result \<times> 's) exec" where
  "tcp_accept sys perform as_socket at l st =
     bind_exec (socket_accept perform as_socket at l st) (\<lambda>(r, st').
       case r of
         Err e \<Rightarrow> Inr (Err e, st')
       | Ok (s, Some a) \<Rightarrow> Inr (Ok (s, a), st')
       | Ok (s, None) \<Rightarrow> Inr (Err (KindError Other ''Could not get socket IP address''), socket_drop sys s st'))"

definition unix_accept ::
  "(accept_data, 's) performer \<Rightarrow> (sock_addr \<Rightarrow> socket_addr option) \<Rightarrow> addr \<Rightarrow> socket \<Rightarrow> 's
   \<Rightarrow> ((socket, io_error) result \<times> 's) exec" where
  "unix_accept perform as_socket at l st =
     bind_exec (socket_accept perform as_socket at l st) (\<lambda>(r, st').
       Inr (bind_result r (\<lambda>(s, a). Ok s), st'))"

definition connect_or_drop ::
  "'s sys \<Rightarrow> (connect_data, 's) performer \<Rightarrow> addr \<Rightarrow> sock_addr \<Rightarrow> socket \<Rightarrow> 's
   \<Rightarrow> ((socket, io_error) result \<times> 's) exec" where
  "connect_or_drop sys perform at sa s st =
     bind_exec (socket_connect perform at s sa st) (\<lambda>(r, st').
       case r of Ok u \<Rightarrow> Inr (Ok s, st') | Err e \<Rightarrow> Inr (Err e, socket_drop sys s st'))"


text \<open>\<^verbatim>\<open>SockAddr::unix(path)?\<close> is evaluated after the socket was made.\<close>

definition unix_connect ::
  "'s sys \<Rightarrow> (connect_data, 's) performer \<Rightarrow> (path \<Rightarrow> (sock_addr, io_error) result) \<Rightarrow> addr \<Rightarrow> path \<Rightarrow> 's
   \<Rightarrow> ((socket, io_error) result \<times> 's) exec" where
  "unix_connect sys perform unix_of at p st =
     (case socket_new_unix sys SOCK_STREAM st of
        (Err e, st') \<Rightarrow> Inr (Err e, st')
      | (Ok s, st') \<Rightarrow>
          (case unix_of p of
             Err e \<Rightarrow> Inr (Err e, socket_drop sys s st')
           | Ok sa \<Rightarrow> connect_or_drop sys perform at sa s st'))"

definition udp_connect ::
  "(connect_data, 's) performer \<Rightarrow> (socket_addr \<Rightarrow> sock_addr) \<Rightarrow> addr \<Rightarrow> socket \<Rightarrow> socket_addr \<Rightarrow> 's
   \<Rightarrow> ((unit, io_error) result \<times> 's) exec" where
  "udp_connect perform sock_of at s a = socket_connect perform at s (sock_of a)"

definition udp_send ::
  "('t send_to_data, 's) performer \<Rightarrow> (socket_addr \<Rightarrow> sock_addr) \<Rightarrow> ('t, 'm) bounded_buf_scheme \<Rightarrow> addr \<Rightarrow> addr
   \<Rightarrow> socket \<Rightarrow> 't \<Rightarrow> 's \<Rightarrow> ((nat, 't) buf_result \<times> 's) exec" where
  "udp_send perform sock_of D at_name at s buf = socket_send_to perform sock_of D at_name at s buf None"

definition udp_send_to ::
  "('t send_to_data, 's) performer \<Rightarrow> (socket_addr \<Rightarrow> sock_addr) \<Rightarrow> ('t, 'm) bounded_buf_scheme \<Rightarrow> addr \<Rightarrow> addr
   \<Rightarrow> socket \<Rightarrow> 't \<Rightarrow> socket_addr \<Rightarrow> 's \<Rightarrow> ((nat, 't) buf_result \<times> 's) exec" where
  "udp_send_to perform sock_of D at_name at s buf a = socket_send_to perform sock_of D at_name at s buf (Some a)"

definition udp_recv_multishot ::
  "sock_addr boxed \<Rightarrow> addr \<Rightarrow> addr \<Rightarrow> socket \<Rightarrow> u16 \<Rightarrow> recv_multishot" where
  "udp_recv_multishot name target at s bgid = recv_multishot_default name target at (socket_raw_fd s) bgid"

definition udp_recv_multishot_sized ::
  "sock_addr boxed \<Rightarrow> addr \<Rightarrow> addr \<Rightarrow> socket \<Rightarrow> u16 \<Rightarrow> nat \<Rightarrow> recv_multishot" where
  "udp_recv_multishot_sized name target at s bgid n = recv_multishot_new name target at (socket_raw_fd s) bgid n"

section \<open>Descriptors are not leaked\<close>


fun opened_by :: "syscall \<times> (raw_fd, io_error) result \<Rightarrow> raw_fd list" where
  "opened_by (SysSocket d t, Ok fd) = [fd]"
| "opened_by x = []"

fun closed_by :: "syscall \<times> (raw_fd, io_error) result \<Rightarrow> raw_fd list" where
  "closed_by (SysClose fd, r) = [fd]"
| "closed_by x = []"

definition opened :: "(syscall \<times> (raw_fd, io_error) result) list \<Rightarrow> raw_fd list" where
  "opened log = concat (map opened_by log)"

definition closed :: "(syscall \<times> (raw_fd, io_error) result) list \<Rightarrow> raw_fd list" where
  "closed log = concat (map closed_by log)"


lemma log_simps [simp]:
  "opened [] = []" "closed [] = []" "opened (log @ [x]) = opened log @ opened_by x"
  "closed (log @ [x]) = closed log @ closed_by x"
  by (simp_all add: opened_def closed_def)

lemma socket_from_fd_simps [simp]:
  "socket_raw_fd (socket_from_fd fd) = fd" "sf_strong (so_fd (socket_from_fd fd)) = 1"
  "sf_state (so_fd (socket_from_fd fd)) = Init"
  by (simp_all add: socket_from_fd_def socket_raw_fd_def shared_fd_new_def)




definition neutral :: "syscall \<Rightarrow> bool" where
  "neutral c \<longleftrightarrow> (\<forall>x. opened_by (c, x) = [] \<and> closed_by (c, x) = [])"

lemma neutral_calls [simp]:
  "neutral (SysReusePort fd b)" "neutral (SysReuseAddress fd b)" "neutral (SysBind fd sa)" "neutral (SysListen fd n)"
  by (simp_all add: neutral_def)












end
