(* ===== verification/Net_Types.thy ===== *)
theory Net_Types
  imports Net_Sockets
begin

text \<open>
  The methods of \<^verbatim>\<open>Socket\<close> (\<^verbatim>\<open>src/src/io/socket.rs\<close>) that await a read or a write, and the methods of
  \<^verbatim>\<open>TcpStream\<close>, \<^verbatim>\<open>TcpListener\<close>, \<^verbatim>\<open>UnixStream\<close>, \<^verbatim>\<open>UnixListener\<close> and \<^verbatim>\<open>UdpSocket\<close>
  (\<^verbatim>\<open>src/src/net/\<close>), which wrap a socket and forward to it. Each awaits one operation on the
  descriptor of the socket; the lemmas show what reaches the kernel and that a conversion from or
  to a raw descriptor keeps the descriptor and its ownership.
\<close>

section \<open>Socket\<close>

definition socket_read_await :: "(rw_data, 's) raw_performer \<Rightarrow> socket \<Rightarrow> buffer \<Rightarrow> 's \<Rightarrow> (nat, buffer) buf_result \<times> 's" where
  "socket_read_await perform s buf = await_oneshot perform rw_transform (socket_read s buf)"

definition socket_read_fixed ::
  "(fixed_data, 's) performer \<Rightarrow> socket \<Rightarrow> bounded \<Rightarrow> 's \<Rightarrow> ((nat, bounded) buf_result \<times> 's) exec" where
  "socket_read_fixed perform s buf = await_request perform (read_fixed_at (socket_raw_fd s) buf 0)"

definition socket_write_fixed ::
  "(fixed_data, 's) performer \<Rightarrow> socket \<Rightarrow> bounded \<Rightarrow> 's \<Rightarrow> ((nat, bounded) buf_result \<times> 's) exec" where
  "socket_write_fixed perform s buf = await_request perform (write_fixed_at (socket_raw_fd s) buf 0)"

text \<open>
  The zero-copy sends have several completions. The method submits the operation and awaits it as
  a multishot future: here, the data it starts with, its entry and its completion functions.
\<close>

definition socket_send_zc ::
  "('t, 'm) bounded_buf_scheme \<Rightarrow> socket \<Rightarrow> 't
   \<Rightarrow> 't send_zc_data \<times> ('t send_zc_data \<Rightarrow> (sqe \<times> 't send_zc_data) exec) \<times> ('t send_zc_data, (nat, 't) buf_result) updateable" where
  "socket_send_zc D s buf = (send_zc_new (socket_raw_fd s) buf, send_zc_sqe D, send_zc_up)"

definition socket_sendmsg_zc ::
  "(socket_addr \<Rightarrow> sock_addr) \<Rightarrow> ('t, 'm) bounded_buf_scheme \<Rightarrow> ('c, 'n) bounded_buf_scheme \<Rightarrow> addr \<Rightarrow> addr
   \<Rightarrow> socket \<Rightarrow> 't list \<Rightarrow> socket_addr option \<Rightarrow> 'c option
   \<Rightarrow> (('t, 'c) sendmsg_zc_data \<times> (('t, 'c) sendmsg_zc_data \<Rightarrow> (sqe \<times> ('t, 'c) sendmsg_zc_data) exec)
        \<times> (('t, 'c) sendmsg_zc_data, ('t, 'c) sendmsg_out) updateable) exec" where
  "socket_sendmsg_zc sock_of D C at_name at s bufs a mc =
     bind_exec (sendmsg_zc_new sock_of D C at_name at (socket_raw_fd s) bufs a mc) (\<lambda>d.
       Inr (d, sendmsg_zc_sqe, sendmsg_zc_up))"

definition socket_from_shared_fd :: "shared_fd \<Rightarrow> socket" where
  "socket_from_shared_fd fd = \<lparr>so_fd = fd\<rparr>"

text \<open>\<open>fd\<close> is what \<^verbatim>\<open>into_raw_fd\<close> of the standard library's socket returns.\<close>

definition socket_from_std :: "raw_fd \<Rightarrow> socket" where
  "socket_from_std fd = socket_from_shared_fd (shared_fd_new fd)"

definition socket_as_fd :: "socket \<Rightarrow> raw_fd" where
  "socket_as_fd s = sf_fd (so_fd s)"

section \<open>Local addresses\<close>

text \<open>
  \<^verbatim>\<open>local_addr\<close> makes a socket of the standard library from the raw descriptor, asks it and
  forgets it, so that its destructor does not close the descriptor. \<open>getsockname\<close> is what the
  standard library does.
\<close>

type_synonym ('a, 's) getsockname = "raw_fd \<Rightarrow> 's \<Rightarrow> ('a, io_error) result \<times> 's"

definition tcp_local_addr :: "(socket_addr, 's) getsockname \<Rightarrow> socket \<Rightarrow> 's \<Rightarrow> (socket_addr, io_error) result \<times> 's" where
  "tcp_local_addr getsockname l = getsockname (socket_raw_fd l)"

definition unix_local_addr :: "('a, 's) getsockname \<Rightarrow> socket \<Rightarrow> 's \<Rightarrow> ('a, io_error) result \<times> 's" where
  "unix_local_addr getsockname l = getsockname (socket_raw_fd l)"

definition udp_local_addr :: "(socket_addr, 's) getsockname \<Rightarrow> socket \<Rightarrow> 's \<Rightarrow> (socket_addr, io_error) result \<times> 's" where
  "udp_local_addr getsockname s = getsockname (socket_raw_fd s)"

section \<open>TcpStream and TcpListener\<close>

definition tcp_from_socket :: "socket \<Rightarrow> socket" where "tcp_from_socket inner = inner"
definition tcp_from_std :: "raw_fd \<Rightarrow> socket" where "tcp_from_std fd = socket_from_std fd"
definition tcp_from_raw_fd :: "raw_fd \<Rightarrow> socket" where
  "tcp_from_raw_fd fd = tcp_from_socket (socket_from_shared_fd (shared_fd_new fd))"
definition tcp_as_raw_fd :: "socket \<Rightarrow> raw_fd" where "tcp_as_raw_fd s = socket_raw_fd s"

definition tcp_read :: "(rw_data, 's) raw_performer \<Rightarrow> socket \<Rightarrow> buffer \<Rightarrow> 's \<Rightarrow> (nat, buffer) buf_result \<times> 's" where
  "tcp_read perform s buf = socket_read_await perform s buf"

definition tcp_read_fixed ::
  "(fixed_data, 's) performer \<Rightarrow> socket \<Rightarrow> buffer \<Rightarrow> 's \<Rightarrow> ((nat, bounded) buf_result \<times> 's) exec" where
  "tcp_read_fixed perform s buf = socket_read_fixed perform s (Whole buf)"

definition tcp_write :: "socket \<Rightarrow> buffer \<Rightarrow> (rw_data, rw_kind) unsubmitted" where
  "tcp_write s buf = socket_write s buf"

definition tcp_write_fixed ::
  "(fixed_data, 's) performer \<Rightarrow> socket \<Rightarrow> bounded \<Rightarrow> 's \<Rightarrow> ((nat, bounded) buf_result \<times> 's) exec" where
  "tcp_write_fixed perform s buf = socket_write_fixed perform s buf"

definition tcp_write_fixed_all :: "'s kernel \<Rightarrow> socket \<Rightarrow> bounded \<Rightarrow> 's \<Rightarrow> ((unit, bounded) buf_result \<times> 's) exec" where
  "tcp_write_fixed_all perform s buf = socket_write_fixed_all perform (socket_raw_fd s) buf"

definition tcp_writev :: "(rw_data, 's) raw_performer \<Rightarrow> socket \<Rightarrow> buffer \<Rightarrow> 's \<Rightarrow> (nat, buffer) buf_result \<times> 's" where
  "tcp_writev perform s buf = await_oneshot perform rw_transform (socket_write s buf)"

definition tcp_shutdown :: "'s sys \<Rightarrow> socket \<Rightarrow> nat \<Rightarrow> 's \<Rightarrow> (unit, io_error) result \<times> 's" where
  "tcp_shutdown sys s how = socket_shutdown sys s how"

definition tcp_set_nodelay :: "'s sys \<Rightarrow> socket \<Rightarrow> bool \<Rightarrow> 's \<Rightarrow> (unit, io_error) result \<times> 's" where
  "tcp_set_nodelay sys s nodelay = socket_set_nodelay sys s nodelay"

definition tcp_listener_from_socket :: "socket \<Rightarrow> socket" where "tcp_listener_from_socket inner = inner"
definition tcp_listener_from_std :: "raw_fd \<Rightarrow> socket" where "tcp_listener_from_std fd = socket_from_std fd"
definition tcp_listener_from_raw_fd :: "raw_fd \<Rightarrow> socket" where
  "tcp_listener_from_raw_fd fd = tcp_listener_from_socket (socket_from_shared_fd (shared_fd_new fd))"
definition tcp_listener_as_raw_fd :: "socket \<Rightarrow> raw_fd" where "tcp_listener_as_raw_fd l = socket_raw_fd l"

section \<open>UnixStream\<close>

definition unix_from_socket :: "socket \<Rightarrow> socket" where "unix_from_socket inner = inner"
definition unix_from_std :: "raw_fd \<Rightarrow> socket" where "unix_from_std fd = socket_from_std fd"
definition unix_from_raw_fd :: "raw_fd \<Rightarrow> socket" where
  "unix_from_raw_fd fd = unix_from_socket (socket_from_shared_fd (shared_fd_new fd))"
definition unix_as_raw_fd :: "socket \<Rightarrow> raw_fd" where "unix_as_raw_fd s = socket_raw_fd s"

definition unix_read :: "(rw_data, 's) raw_performer \<Rightarrow> socket \<Rightarrow> buffer \<Rightarrow> 's \<Rightarrow> (nat, buffer) buf_result \<times> 's" where
  "unix_read perform s buf = socket_read_await perform s buf"

definition unix_read_fixed ::
  "(fixed_data, 's) performer \<Rightarrow> socket \<Rightarrow> bounded \<Rightarrow> 's \<Rightarrow> ((nat, bounded) buf_result \<times> 's) exec" where
  "unix_read_fixed perform s buf = socket_read_fixed perform s buf"

definition unix_write :: "socket \<Rightarrow> buffer \<Rightarrow> (rw_data, rw_kind) unsubmitted" where
  "unix_write s buf = socket_write s buf"

definition unix_write_fixed ::
  "(fixed_data, 's) performer \<Rightarrow> socket \<Rightarrow> bounded \<Rightarrow> 's \<Rightarrow> ((nat, bounded) buf_result \<times> 's) exec" where
  "unix_write_fixed perform s buf = socket_write_fixed perform s buf"

definition unix_write_fixed_all :: "'s kernel \<Rightarrow> socket \<Rightarrow> bounded \<Rightarrow> 's \<Rightarrow> ((unit, bounded) buf_result \<times> 's) exec" where
  "unix_write_fixed_all perform s buf = socket_write_fixed_all perform (socket_raw_fd s) buf"

definition unix_writev :: "(rw_data, 's) raw_performer \<Rightarrow> socket \<Rightarrow> buffer \<Rightarrow> 's \<Rightarrow> (nat, buffer) buf_result \<times> 's" where
  "unix_writev perform s buf = await_oneshot perform rw_transform (socket_write s buf)"

definition unix_shutdown :: "'s sys \<Rightarrow> socket \<Rightarrow> nat \<Rightarrow> 's \<Rightarrow> (unit, io_error) result \<times> 's" where
  "unix_shutdown sys s how = socket_shutdown sys s how"

section \<open>UdpSocket\<close>

definition udp_from_socket :: "socket \<Rightarrow> socket" where "udp_from_socket inner = inner"
definition udp_from_std :: "raw_fd \<Rightarrow> socket" where "udp_from_std fd = socket_from_std fd"
definition udp_from_raw_fd :: "raw_fd \<Rightarrow> socket" where
  "udp_from_raw_fd fd = udp_from_socket (socket_from_shared_fd (shared_fd_new fd))"
definition udp_as_raw_fd :: "socket \<Rightarrow> raw_fd" where "udp_as_raw_fd s = socket_raw_fd s"

definition udp_send_zc ::
  "('t, 'm) bounded_buf_scheme \<Rightarrow> socket \<Rightarrow> 't
   \<Rightarrow> 't send_zc_data \<times> ('t send_zc_data \<Rightarrow> (sqe \<times> 't send_zc_data) exec) \<times> ('t send_zc_data, (nat, 't) buf_result) updateable" where
  "udp_send_zc D s buf = socket_send_zc D s buf"

definition udp_sendmsg ::
  "(('t, 'c) sendmsg_data, 's) performer \<Rightarrow> (socket_addr \<Rightarrow> sock_addr) \<Rightarrow> ('t, 'm) bounded_buf_scheme
   \<Rightarrow> ('c, 'n) bounded_buf_scheme \<Rightarrow> addr \<Rightarrow> addr \<Rightarrow> socket \<Rightarrow> 't list \<Rightarrow> socket_addr option \<Rightarrow> 'c option \<Rightarrow> 's
   \<Rightarrow> (('t, 'c) sendmsg_out \<times> 's) exec" where
  "udp_sendmsg perform sock_of D C at_name at s bufs a mc = socket_sendmsg perform sock_of D C at_name at s bufs a mc"

definition udp_sendmsg_zc ::
  "(socket_addr \<Rightarrow> sock_addr) \<Rightarrow> ('t, 'm) bounded_buf_scheme \<Rightarrow> ('c, 'n) bounded_buf_scheme \<Rightarrow> addr \<Rightarrow> addr
   \<Rightarrow> socket \<Rightarrow> 't list \<Rightarrow> socket_addr option \<Rightarrow> 'c option
   \<Rightarrow> (('t, 'c) sendmsg_zc_data \<times> (('t, 'c) sendmsg_zc_data \<Rightarrow> (sqe \<times> ('t, 'c) sendmsg_zc_data) exec)
        \<times> (('t, 'c) sendmsg_zc_data, ('t, 'c) sendmsg_out) updateable) exec" where
  "udp_sendmsg_zc sock_of D C at_name at s bufs a mc = socket_sendmsg_zc sock_of D C at_name at s bufs a mc"

definition udp_recv_from ::
  "('t recv_data, 's) performer \<Rightarrow> (sock_addr \<Rightarrow> socket_addr option) \<Rightarrow> ('t, 'm) bounded_buf_mut_scheme
   \<Rightarrow> sock_addr boxed \<Rightarrow> addr \<Rightarrow> socket \<Rightarrow> 't \<Rightarrow> 's \<Rightarrow> ((nat \<times> socket_addr, 't) buf_result \<times> 's) exec" where
  "udp_recv_from perform as_socket D name at s buf = socket_recv_from perform as_socket D name at s buf"

definition udp_recvmsg ::
  "('t list recv_data, 's) performer \<Rightarrow> (sock_addr \<Rightarrow> socket_addr option) \<Rightarrow> ('t, 'm) bounded_buf_mut_scheme
   \<Rightarrow> sock_addr boxed \<Rightarrow> addr \<Rightarrow> socket \<Rightarrow> 't list \<Rightarrow> 's \<Rightarrow> ((nat \<times> socket_addr, 't list) buf_result \<times> 's) exec" where
  "udp_recvmsg perform as_socket D name at s bufs = socket_recvmsg perform as_socket D name at s bufs"

definition udp_read :: "(rw_data, 's) raw_performer \<Rightarrow> socket \<Rightarrow> buffer \<Rightarrow> 's \<Rightarrow> (nat, buffer) buf_result \<times> 's" where
  "udp_read perform s buf = socket_read_await perform s buf"

definition udp_read_fixed ::
  "(fixed_data, 's) performer \<Rightarrow> socket \<Rightarrow> buffer \<Rightarrow> 's \<Rightarrow> ((nat, bounded) buf_result \<times> 's) exec" where
  "udp_read_fixed perform s buf = socket_read_fixed perform s (Whole buf)"

definition udp_write :: "socket \<Rightarrow> buffer \<Rightarrow> (rw_data, rw_kind) unsubmitted" where
  "udp_write s buf = socket_write s buf"

definition udp_write_fixed ::
  "(fixed_data, 's) performer \<Rightarrow> socket \<Rightarrow> buffer \<Rightarrow> 's \<Rightarrow> ((nat, bounded) buf_result \<times> 's) exec" where
  "udp_write_fixed perform s buf = socket_write_fixed perform s (Whole buf)"

definition udp_shutdown :: "'s sys \<Rightarrow> socket \<Rightarrow> nat \<Rightarrow> 's \<Rightarrow> (unit, io_error) result \<times> 's" where
  "udp_shutdown sys s how = socket_shutdown sys s how"

section \<open>What reaches the kernel\<close>

text \<open>The descriptor of an operation, for the operations a stream issues.\<close>

fun op_fd :: "opcode \<Rightarrow> raw_fd option" where
  "op_fd (OpRead fd p n o1) = Some fd"
| "op_fd (OpReadFixed fd p n i o1) = Some fd"
| "op_fd (OpReadv fd p n o1) = Some fd"
| "op_fd (OpWrite fd p n o1) = Some fd"
| "op_fd (OpWriteFixed fd p n i o1) = Some fd"
| "op_fd (OpWritev fd p n o1) = Some fd"
| "op_fd c = None"

fun op_offset :: "opcode \<Rightarrow> nat option" where
  "op_offset (OpRead fd p n o1) = Some o1"
| "op_offset (OpReadFixed fd p n i o1) = Some o1"
| "op_offset (OpReadv fd p n o1) = Some o1"
| "op_offset (OpWrite fd p n o1) = Some o1"
| "op_offset (OpWriteFixed fd p n i o1) = Some o1"
| "op_offset (OpWritev fd p n o1) = Some o1"
| "op_offset c = None"

lemmas raw_fd_conversions = tcp_from_raw_fd_def tcp_from_socket_def tcp_as_raw_fd_def unix_from_raw_fd_def
  unix_from_socket_def unix_as_raw_fd_def udp_from_raw_fd_def udp_from_socket_def udp_as_raw_fd_def
  tcp_listener_from_raw_fd_def tcp_listener_from_socket_def tcp_listener_as_raw_fd_def
  tcp_from_std_def unix_from_std_def udp_from_std_def tcp_listener_from_std_def
  socket_from_std_def socket_from_shared_fd_def socket_raw_fd_def shared_fd_new_def

text \<open>A socket made from a raw descriptor has that descriptor and is its only owner.\<close>

lemma raw_fd_roundtrip:
  "tcp_as_raw_fd (tcp_from_raw_fd fd) = fd" "unix_as_raw_fd (unix_from_raw_fd fd) = fd"
  "udp_as_raw_fd (udp_from_raw_fd fd) = fd" "tcp_listener_as_raw_fd (tcp_listener_from_raw_fd fd) = fd"
  "sf_strong (so_fd (tcp_from_raw_fd fd)) = 1" "sf_strong (so_fd (unix_from_raw_fd fd)) = 1"
  "sf_strong (so_fd (udp_from_raw_fd fd)) = 1" "sf_strong (so_fd (tcp_listener_from_raw_fd fd)) = 1"
  by (simp_all add: raw_fd_conversions)

text \<open>
  Reads and writes of a socket go to its descriptor at offset 0; a read uses all of the buffer, a
  write its initialized part, and the buffer comes back with the completion.
\<close>

lemma socket_write_entry:
  "op_fd (sqe_op (us_sqe (socket_write s buf))) = Some (socket_raw_fd s)
   \<and> op_offset (sqe_op (us_sqe (socket_write s buf))) = Some 0
   \<and> rw_buf (us_stable_data (socket_write s buf)) = buf"
  by (simp add: socket_write_def write_at_def Let_def unsubmitted_new_def sqe_build_def split: option.split)

lemma socket_read_entry:
  "op_fd (sqe_op (us_sqe (socket_read s buf))) = Some (socket_raw_fd s)
   \<and> op_offset (sqe_op (us_sqe (socket_read s buf))) = Some 0
   \<and> rw_buf (us_stable_data (socket_read s buf)) = buffer_fill buf"
  by (simp add: socket_read_def read_at_def Let_def unsubmitted_new_def sqe_build_def split: option.split)

end
