(* ===== verification/Buf_Typing.thy ===== *)
theory Buf_Typing
  imports Net_Types Buf_Properties
begin

text \<open>
  The type tag of a \<^verbatim>\<open>Buffer\<close> against the user data behind its erased pointer. \<^verbatim>\<open>read_at\<close>,
  \<^verbatim>\<open>write_at\<close>, \<^verbatim>\<open>read_fixed_at\<close> and \<^verbatim>\<open>write_fixed_at\<close> compare the tag and then cast the pointer;
  the destructor and \<^verbatim>\<open>try_into\<close> rebuild a value of the tagged type. \<open>buffer_made\<close> are the buffers
  that the public functions of the crate can produce.
\<close>

inductive buffer_made :: "buffer \<Rightarrow> bool" where
  of_vec: "buffer_new vec_impl at v = Inr b \<Longrightarrow> buffer_made b"
| of_vecs: "buffer_new vecvec_impl at vs = Inr b \<Longrightarrow> buffer_made b"
| of_pool: "fixed_pool_try_next me at cap (p :: notify_view pool) = Inr (Some b, p') \<Longrightarrow> buffer_made b"
| of_registry: "fixed_registry_check_out me at k r = Inr (Some b, r') \<Longrightarrow> buffer_made b"
| fill: "buffer_made b \<Longrightarrow> buffer_made (buffer_fill b)"
| set_init: "buffer_made b \<Longrightarrow> buffer_made (buffer_set_init n b)"

text \<open>The user data a tag promises, and one iovec with its capacity for all but lists of vectors.\<close>

fun data_of_type :: "buf_ty \<Rightarrow> user_data \<Rightarrow> bool" where
  "data_of_type TyVec ud \<longleftrightarrow> ud = NoData"
| "data_of_type TyVecVec ud \<longleftrightarrow> ud = NoData"
| "data_of_type TyPoolBuf (PoolInfo p i) \<longleftrightarrow> True"
| "data_of_type TyPoolBuf ud \<longleftrightarrow> False"
| "data_of_type TyRegistryBuf (RegistryInfo r i) \<longleftrightarrow> True"
| "data_of_type TyRegistryBuf ud \<longleftrightarrow> False"

definition buffer_typed :: "buffer \<Rightarrow> bool" where
  "buffer_typed b \<longleftrightarrow> data_of_type (bf_ty b) (bf_user_data b) \<and> length (bf_cap b) = length (bf_iovec b)
     \<and> (bf_ty b \<noteq> TyVecVec \<longrightarrow> length (bf_iovec b) = 1)"

text \<open>Whether the destructor of a tagged buffer finds the parts it indexes.\<close>

definition parts_ok :: "buffer \<Rightarrow> bool" where
  "parts_ok b \<longleftrightarrow>
     (case bf_ty b of
        TyVec \<Rightarrow> \<exists>v. bi_from_raw_parts vec_impl (raw_parts_of b) = Inr v
      | TyVecVec \<Rightarrow> \<exists>vs. bi_from_raw_parts vecvec_impl (raw_parts_of b) = Inr vs \<and> length vs = buffer_len b
      | ty \<Rightarrow> \<exists>f. bi_from_raw_parts (fixed_impl ty) (raw_parts_of b) = Inr f \<and> fb_info f = Some (bf_user_data b))"

lemma length_fill_iov [simp]: "length (fill_iov vs cs) = length vs"
  by (induction vs cs rule: fill_iov.induct) auto

lemma fixed_new_eq:
  "buffer_new (fixed_impl ty) at \<lparr>fb_iovec = v, fb_init_len = n, fb_info = Some u\<rparr>
   = Inr \<lparr>bf_iovec = [mk_iovec (iov_base v) n], bf_iovec_ptr = at, bf_cap = [iov_len v], bf_user_data = u, bf_ty = ty\<rparr>"
  by (simp add: buffer_new_def fixed_impl_def)

lemma made_typed: "buffer_made b \<Longrightarrow> buffer_typed b"
proof (induction rule: buffer_made.induct)
  case (of_pool me at cap p b p')
  then show ?case
    by (auto simp: fixed_pool_try_next_def bind_exec_eq_Inr fixed_new_eq buffer_typed_def split: option.splits)
next
  case (of_registry me at k r b r')
  then show ?case
    by (auto simp: fixed_registry_check_out_def bind_exec_eq_Inr fixed_new_eq buffer_typed_def split: option.splits)
qed (auto simp: buffer_typed_def buffer_new_def vec_impl_def vecvec_impl_def buffer_fill_def buffer_set_init_def)

lemma typed_parts: "buffer_typed b \<Longrightarrow> parts_ok b"
proof -
  assume t: "buffer_typed b"
  show ?thesis
  proof (cases "bf_ty b = TyVecVec")
    case True
    with t show ?thesis
      by (auto simp: parts_ok_def buffer_typed_def raw_parts_of_def vecvec_impl_def buffer_len_def)
  next
    case False
    with t obtain v c where "bf_iovec b = [v]" "bf_cap b = [c]"
      by (auto simp: buffer_typed_def length_Suc_conv)
    with False show ?thesis
      by (cases "bf_ty b") (auto simp: parts_ok_def raw_parts_of_def vec_impl_def fixed_impl_def)
  qed
qed

lemma typed_fixed_index:
  "buffer_typed b \<Longrightarrow> (fixed_index b \<noteq> None) = (bf_ty b = TyPoolBuf \<or> bf_ty b = TyRegistryBuf)"
  by (cases "bf_ty b"; cases "bf_user_data b") (auto simp: buffer_typed_def fixed_index_def)

text \<open>
  C22. Tags do not lie: every buffer the crate can make, also after \<^verbatim>\<open>fill\<close> and \<^verbatim>\<open>set_init\<close>, has
  behind its erased pointer the user data its type tag promises, so that the casts that read an
  index are valid and an index is found exactly for registered buffers; and it has the parts that
  the destructor and \<^verbatim>\<open>try_into\<close> of its type index, so that neither panics.
\<close>

theorem buffer_type_sound:
  assumes "buffer_made b"
  shows "data_of_type (bf_ty b) (bf_user_data b) \<and> parts_ok b
    \<and> (fixed_index b \<noteq> None) = (bf_ty b = TyPoolBuf \<or> bf_ty b = TyRegistryBuf)"
  using typed_parts [OF made_typed [OF assms]] typed_fixed_index [OF made_typed [OF assms]] made_typed [OF assms]
  by (simp add: buffer_typed_def)

theorem buffer_type_sound_witness:
  "\<exists>b. fixed_pool_try_next 0 64 10 (pool_new [demo_single]) = Inr (Some b, demo_taken)
    \<and> fixed_index (buffer_set_init 3 b) \<noteq> None \<and> parts_ok (buffer_set_init 3 b)"
proof -
  from demo_take obtain b where b: "fixed_pool_try_next 0 64 10 (pool_new [demo_single]) = Inr (Some b, demo_taken)" by blast
  then have ty: "bf_ty (buffer_set_init 3 b) = TyPoolBuf"
    by (auto simp: fixed_pool_try_next_def bind_exec_eq_Inr fixed_new_eq buffer_set_init_def split: option.splits)
  from buffer_type_sound [OF buffer_made.set_init [OF buffer_made.of_pool [OF b]], of 3] b ty show ?thesis by auto
qed

section \<open>Registered regions\<close>

text \<open>The bytes an operation on a registered buffer touches, and the index it names.\<close>

fun fixed_access :: "opcode \<Rightarrow> (addr \<times> nat \<times> nat) option" where
  "fixed_access (OpReadFixed fd p n i o1) = Some (p, unat n, unat i)"
| "fixed_access (OpWriteFixed fd p n i o1) = Some (p, unat n, unat i)"
| "fixed_access c = None"

definition in_region :: "iovec list \<Rightarrow> opcode \<Rightarrow> bool" where
  "in_region iovecs c \<longleftrightarrow>
     (case fixed_access c of
        None \<Rightarrow> False
      | Some (p, n, i) \<Rightarrow> i < length iovecs \<and> iov_base (iovecs ! i) \<le> p \<and> p + n \<le> iov_base (iovecs ! i) + iov_len (iovecs ! i))"

lemma pool_buffer_shape:
  assumes inv: "pool_inv p" and eq: "fixed_pool_try_next me at cap p = Inr (Some b, p')"
  obtains k n where "k < length (pl_iovecs p)" and "iov_len (pl_iovecs p ! k) = cap" and "k < max_bufs"
    and "b = \<lparr>bf_iovec = [mk_iovec (iov_base (pl_iovecs p ! k)) n], bf_iovec_ptr = at, bf_cap = [cap],
        bf_user_data = PoolInfo me (of_nat k), bf_ty = TyPoolBuf\<rparr>"
proof -
  from eq obtain v m k where t: "pool_try_next cap p = Inr (Some (v, m, k), p')"
    and b: "b = \<lparr>bf_iovec = [mk_iovec (iov_base v) m], bf_iovec_ptr = at, bf_cap = [iov_len v],
        bf_user_data = PoolInfo me (of_nat k), bf_ty = TyPoolBuf\<rparr>"
    by (auto simp: fixed_pool_try_next_def bind_exec_eq_Inr fixed_new_eq split: option.splits)
  from pool_try_next_ok [OF inv, of cap] t have "v = pl_iovecs p ! k" "k < length (pl_states p)" "iov_len v = cap" by auto
  moreover from inv have "length (pl_iovecs p) = length (pl_states p)" "length (pl_states p) \<le> max_bufs"
    by (auto simp: pool_inv_def)
  ultimately show thesis using b that [of k m] by auto
qed

lemma fill_single [simp]: "buffer_fill \<lparr>bf_iovec = [v], bf_iovec_ptr = a, bf_cap = [c], bf_user_data = u, bf_ty = t\<rparr>
    = \<lparr>bf_iovec = [v\<lparr>iov_len := c\<rparr>], bf_iovec_ptr = a, bf_cap = [c], bf_user_data = u, bf_ty = t\<rparr>"
  by (simp add: buffer_fill_def)

lemma set_init_single [simp]: "buffer_set_init n \<lparr>bf_iovec = [v], bf_iovec_ptr = a, bf_cap = [c], bf_user_data = u, bf_ty = t\<rparr>
    = \<lparr>bf_iovec = [v\<lparr>iov_len := min c n\<rparr>], bf_iovec_ptr = a, bf_cap = [c], bf_user_data = u, bf_ty = t\<rparr>"
  by (simp add: buffer_set_init_def)

lemma of_nat_u32: "n \<le> c \<Longrightarrow> c < 2 ^ 32 \<Longrightarrow> unat (of_nat n :: u32) = n"
  by (simp add: unat_of_nat take_bit_eq_mod)

text \<open>
  C28. A read or a write of a buffer from a pool, whatever initialized length was set on it, is an
  operation on a registered buffer that stays inside the region registered under the index it
  names, as long as the buffer is below 4 GiB (the length is cast to 32 bits).
\<close>

theorem fixed_access_in_region:
  assumes "pool_inv p" and "fixed_pool_try_next me at cap p = Inr (Some b, p')" and "cap < 2 ^ 32"
  shows "in_region (pl_iovecs p) (sqe_op (us_sqe (read_at fd (buffer_set_init n b) offset)))
    \<and> in_region (pl_iovecs p) (sqe_op (us_sqe (write_at fd (buffer_set_init n b) offset)))"
proof -
  from pool_buffer_shape [OF assms(1,2)] obtain k m where k: "k < length (pl_iovecs p)" "iov_len (pl_iovecs p ! k) = cap"
    "k < max_bufs" and b: "b = \<lparr>bf_iovec = [mk_iovec (iov_base (pl_iovecs p ! k)) m], bf_iovec_ptr = at, bf_cap = [cap],
        bf_user_data = PoolInfo me (of_nat k), bf_ty = TyPoolBuf\<rparr>" .
  have ku: "unat (of_nat k :: u16) = k" by (rule index_u16 [OF k(3)])
  have "unat (of_nat cap :: u32) = cap" "unat (of_nat (min cap n) :: u32) = min cap n"
    using assms(3) of_nat_u32 [of _ cap] by auto
  then show ?thesis using k ku
    by (simp add: b read_at_def write_at_def Let_def buffer_len_def fixed_index_def unsubmitted_new_def sqe_build_def
        in_region_def buffer_stable_ptr_def buffer_bytes_total_def buffer_bytes_init_def mk_iovec_def)
qed

theorem fixed_access_in_region_witness:
  "\<exists>b. fixed_pool_try_next 0 64 10 (pool_new [demo_single]) = Inr (Some b, demo_taken)
    \<and> in_region (pl_iovecs (pool_new [demo_single] :: notify_view pool)) (sqe_op (us_sqe (write_at 3 (buffer_set_init 4 b) 0)))"
proof -
  from demo_take obtain b where b: "fixed_pool_try_next 0 64 10 (pool_new [demo_single]) = Inr (Some b, demo_taken)" by blast
  from pool_new_inv [of "pool_new [demo_single] :: notify_view pool" "[demo_single]"]
  have "pool_inv (pool_new [demo_single] :: notify_view pool)" by simp
  from fixed_access_in_region [OF this b, of 3 4 0] b show ?thesis by auto
qed

end
