(* ===== verification/Uring_Runtime.thy ===== *)
theory Uring_Runtime
  imports Op_Handles Pool_Next Io_Messages
begin

text \<open>
  \<^verbatim>\<open>src/src/runtime/mod.rs\<close>, the entry points of \<^verbatim>\<open>src/src/lib.rs\<close> and the registration functions
  of \<^verbatim>\<open>src/src/buf/fixed\<close>: building a ring, making a runtime, running a future on it and dropping
  it. Tokio's executor and reactor are code of another crate. Their constructors are parameters
  that succeed or fail; a run of the executor is a sequence of turns, each of which parks the
  thread, finds the ring readable, or runs code of a task.
\<close>

section \<open>The builder\<close>

text \<open>\<^verbatim>\<open>io_uring::Builder\<close> is a parameter: its default, the option the crate sets, and \<^verbatim>\<open>build\<close>.\<close>

record ('b, 'u) ring_builder =
  rb_new :: 'b
  rb_setup_sqpoll :: "u32 \<Rightarrow> 'b \<Rightarrow> 'b"
  rb_build :: "u32 \<Rightarrow> 'b \<Rightarrow> ('u, io_error) result"

record 'b builder =
  bd_entries :: u32
  bd_urb :: 'b

definition uring_builder :: "('b, 'u) ring_builder \<Rightarrow> 'b" where
  "uring_builder rb = rb_new rb"

definition builder_default :: "('b, 'u) ring_builder \<Rightarrow> 'b builder" where
  "builder_default rb = \<lparr>bd_entries = 256, bd_urb = rb_new rb\<rparr>"

definition builder_entries :: "u32 \<Rightarrow> 'b builder \<Rightarrow> 'b builder" where
  "builder_entries sq_entries b = b\<lparr>bd_entries := sq_entries\<rparr>"

definition builder_setup_sqpoll :: "('b, 'u) ring_builder \<Rightarrow> u32 \<Rightarrow> 'b builder \<Rightarrow> 'b builder" where
  "builder_setup_sqpoll rb sq_thread_idle b = b\<lparr>bd_urb := rb_setup_sqpoll rb sq_thread_idle (bd_urb b)\<rparr>"

definition builder_uring_builder :: "'b \<Rightarrow> 'b builder \<Rightarrow> 'b builder" where
  "builder_uring_builder urb b = b\<lparr>bd_urb := urb\<rparr>"

definition driver_new :: "('b, 'u) ring_builder \<Rightarrow> 'b builder \<Rightarrow> (('u, 'd) driver, io_error) result" where
  "driver_new rb b =
     bind_result (rb_build rb (bd_entries b) (bd_urb b)) (\<lambda>uring.
       Ok \<lparr>drv_ops = ops_new, drv_uring = uring, drv_woken = []\<rparr>)"

definition handle_new :: "('b, 'u) ring_builder \<Rightarrow> 'b builder \<Rightarrow> (('u, 'd) cell, io_error) result" where
  "handle_new rb b = bind_result (driver_new rb b) (\<lambda>d. Ok (handle_from d))"

section \<open>Using the context\<close>

text \<open>
  \<^verbatim>\<open>CONTEXT.with(|x| x.handle().expect(msg).method(..))\<close>. The clone of the handle lives for the
  call only, and the context keeps another one.
\<close>

definition context_handle :: "ctx \<Rightarrow> ('u, 'd) cell \<Rightarrow> ('u, 'd) cell option" where
  "context_handle cx c = (if cx then Some c else None)"

definition with_context :: "string \<Rightarrow> ctx \<Rightarrow> ('u, 'd, 'a) on_cell \<Rightarrow> ('u, 'd, 'a) on_cell" where
  "with_context msg cx f c =
     (case context_handle cx c of None \<Rightarrow> Some (Inl (Expect msg)) | Some h \<Rightarrow> f h)"

section \<open>Registering buffers\<close>

text \<open>A collection that could not be registered is dropped, with the assertion of its destructor.\<close>

definition register_with ::
  "'u uring_api \<Rightarrow> ctx \<Rightarrow> ('s \<Rightarrow> iovec list) \<Rightarrow> ('s \<Rightarrow> unit exec) \<Rightarrow> 's
   \<Rightarrow> ('u, 'd, ('s, io_error) result) on_cell" where
  "register_with api cx iovecs_of drop_inner inner c =
     Option.bind (with_context ''Not in a runtime context'' cx (handle_register_buffers api (iovecs_of inner)) c) (\<lambda>r.
       Some (bind_exec r (\<lambda>(res, c').
         case res of
           Ok _ \<Rightarrow> Inr (Ok inner, c')
         | Err e \<Rightarrow> bind_exec (drop_inner inner) (\<lambda>_. Inr (Err e, c')))))"

definition pool_register ::
  "'u uring_api \<Rightarrow> ctx \<Rightarrow> buffer list \<Rightarrow> ('u, 'd, ('n pool, io_error) result) on_cell" where
  "pool_register api cx bufs = register_with api cx pl_iovecs pool_drop (pool_new bufs)"

definition pool_unregister :: "'u uring_api \<Rightarrow> ctx \<Rightarrow> ('u, 'd, (unit, io_error) result) on_cell" where
  "pool_unregister api cx = with_context ''Not in a runtime context'' cx (handle_unregister_buffers api)"

definition registry_register ::
  "'u uring_api \<Rightarrow> ctx \<Rightarrow> buffer list \<Rightarrow> ('u, 'd, (registry, io_error) result) on_cell" where
  "registry_register api cx bufs = register_with api cx rg_iovecs registry_drop (registry_new bufs)"

definition registry_unregister :: "'u uring_api \<Rightarrow> ctx \<Rightarrow> ('u, 'd, (unit, io_error) result) on_cell" where
  "registry_unregister api cx = with_context ''Not in a runtime context'' cx (handle_unregister_buffers api)"

section \<open>The runtime\<close>

text \<open>
  Whether tokio's constructors succeed: the current-thread runtime, and \<^verbatim>\<open>AsyncFd::new\<close> on the
  descriptor of the ring. \<open>live\<close> counts the tokio runtimes and local sets that exist; both sit
  in a \<^verbatim>\<open>ManuallyDrop\<close>, so only the destructor of \<^verbatim>\<open>Runtime\<close> drops them.
\<close>

record host =
  ho_tokio_build :: "(unit, io_error) result"
  ho_async_fd :: "(unit, io_error) result"

record live =
  lv_tokio :: nat
  lv_local :: nat

definition live_new :: "live \<Rightarrow> live" where
  "live_new w = w\<lparr>lv_tokio := lv_tokio w + 1, lv_local := lv_local w + 1\<rparr>"

definition live_drop :: "live \<Rightarrow> live" where
  "live_drop w = w\<lparr>lv_tokio := lv_tokio w - 1, lv_local := lv_local w - 1\<rparr>"

text \<open>\<^verbatim>\<open>start_uring_wakes_task\<close>: the clone of the handle goes into the \<^verbatim>\<open>AsyncFd\<close> of the task.\<close>

definition start_uring_wakes_task :: "host \<Rightarrow> ('u, 'd) cell \<Rightarrow> ('u, 'd) cell exec" where
  "start_uring_wakes_task ho c =
     (case ho_async_fd ho of
        Ok _ \<Rightarrow> Inr (c\<lparr>cl_strong := cl_strong c + 1\<rparr>)
      | Err e \<Rightarrow> Inl unwrap_err)"

definition runtime_new ::
  "host \<Rightarrow> ('b, 'u) ring_builder \<Rightarrow> 'b builder \<Rightarrow> live \<Rightarrow> (('u, 'd) cell, io_error) result exec \<times> live" where
  "runtime_new ho rb b w =
     (case ho_tokio_build ho of
        Err e \<Rightarrow> (Inr (Err e), w)
      | Ok _ \<Rightarrow>
          (case handle_new rb b of
             Err e \<Rightarrow> (Inr (Err e), live_new w)
           | Ok driver \<Rightarrow> (bind_exec (start_uring_wakes_task ho driver) (\<lambda>c. Inr (Ok c)), live_new w)))"

text \<open>The hook that runs when the thread parks: the result of the flush is ignored.\<close>

definition on_thread_park :: "'u uring_api \<Rightarrow> ctx \<Rightarrow> ('u, 'd, unit) on_cell" where
  "on_thread_park api cx c =
     Option.bind (with_context ''Internal error, driver context not present when invoking hooks'' cx (handle_flush api) c) (\<lambda>r.
       Some (bind_exec r (\<lambda>(res, c'). Inr ((), c'))))"

text \<open>One round of \<^verbatim>\<open>drive_uring_wakes\<close>, once the ring is readable.\<close>

definition drive_uring_wakes :: "'u uring_api \<Rightarrow> slab_alloc \<Rightarrow> ('u, 'd, unit) on_cell" where
  "drive_uring_wakes api ca = handle_dispatch_completions api ca"

datatype ('u, 'd) turn = Park | Readable | Run "('u, 'd, unit) on_cell"

primrec run_turns ::
  "'u uring_api \<Rightarrow> slab_alloc \<Rightarrow> ctx \<Rightarrow> ('u, 'd) turn list \<Rightarrow> ('u, 'd) cell \<Rightarrow> (unit \<times> ('u, 'd) cell) exec option" where
  "run_turns api ca cx [] c = Some (Inr ((), c))"
| "run_turns api ca cx (t # ts) c =
     Option.bind (case t of Park \<Rightarrow> on_thread_park api cx c | Readable \<Rightarrow> drive_uring_wakes api ca c | Run f \<Rightarrow> f c) (\<lambda>r.
       case r of Inl p \<Rightarrow> Some (Inl p) | Inr (_, c') \<Rightarrow> run_turns api ca cx ts c')"

text \<open>
  \<^verbatim>\<open>Drop for Runtime\<close> and the drop of its last field: the local set with its tasks (\<open>drop_tasks\<close>
  is what the destructors of the user's futures do, then the task of the \<^verbatim>\<open>AsyncFd\<close> drops its
  handle), the tokio runtime, the handle.
\<close>

definition runtime_drop ::
  "'u uring_api \<Rightarrow> slab_alloc \<Rightarrow> ('u, 'd, unit) on_cell \<Rightarrow> ('u, 'd) cell \<times> live
   \<Rightarrow> (('u, 'd) cell \<times> live) exec option" where
  "runtime_drop api ca drop_tasks s =
     (case s of (c, w) \<Rightarrow>
        Option.bind (drop_tasks c) (\<lambda>r1. case r1 of Inl p \<Rightarrow> Some (Inl p) | Inr (_, c1) \<Rightarrow>
        Option.bind (handle_drop api ca c1) (\<lambda>r2. case r2 of Inl p \<Rightarrow> Some (Inl p) | Inr (_, c2) \<Rightarrow>
        Option.bind (handle_drop api ca c2) (\<lambda>r3. case r3 of Inl p \<Rightarrow> Some (Inl p) | Inr (_, c3) \<Rightarrow>
          Some (Inr (c3, live_drop w))))))"

text \<open>
  \<^verbatim>\<open>Builder::start\<close> and \<^verbatim>\<open>start\<close>: make a runtime, run the future, drop the runtime, whether the
  future returned or panicked.
\<close>

definition builder_start ::
  "host \<Rightarrow> ('b, 'u) ring_builder \<Rightarrow> 'u uring_api \<Rightarrow> slab_alloc \<Rightarrow> ('u, 'd, unit) on_cell \<Rightarrow> 'b builder
   \<Rightarrow> (ctx \<times> ('u, 'd) cell \<Rightarrow> 'a exec \<times> ('u, 'd) cell) \<Rightarrow> ctx \<times> live
   \<Rightarrow> ('a exec \<times> ctx \<times> live \<times> ('u, 'd) cell option) option" where
  "builder_start ho rb api ca drop_tasks b fut s =
     (case s of (cx, w) \<Rightarrow>
        (case runtime_new ho rb b w of
           (Inl p, w1) \<Rightarrow> Some (Inl p, cx, w1, None)
         | (Inr (Err e), w1) \<Rightarrow> Some (Inl unwrap_err, cx, w1, None)
         | (Inr (Ok c), w1) \<Rightarrow>
             (case block_on fut (cx, c) of (res, cx', c') \<Rightarrow>
                Option.bind (runtime_drop api ca drop_tasks (c', w1)) (\<lambda>r.
                  Some (case r of
                    Inl p \<Rightarrow> (Inl p, cx', w1, None)
                  | Inr (c2, w2) \<Rightarrow> (res, cx', w2, Some c2))))))"

definition start ::
  "host \<Rightarrow> ('b, 'u) ring_builder \<Rightarrow> 'u uring_api \<Rightarrow> slab_alloc \<Rightarrow> ('u, 'd, unit) on_cell
   \<Rightarrow> (ctx \<times> ('u, 'd) cell \<Rightarrow> 'a exec \<times> ('u, 'd) cell) \<Rightarrow> ctx \<times> live
   \<Rightarrow> ('a exec \<times> ctx \<times> live \<times> ('u, 'd) cell option) option" where
  "start ho rb api ca drop_tasks fut = builder_start ho rb api ca drop_tasks (builder_default rb) fut"

text \<open>\<^verbatim>\<open>no_op\<close> of the crate: an error of the submission is unwrapped, the operation is awaited.\<close>

definition no_op_start ::
  "'u uring_api \<Rightarrow> slab_alloc \<Rightarrow> slab_alloc \<Rightarrow> ctx \<Rightarrow> ('u, unit, unit op) on_cell" where
  "no_op_start api la ca cx c =
     Option.bind (submit_request api la ca cx no_op c) (\<lambda>r.
       Some (bind_exec r (\<lambda>(res, c').
         case res of Ok op \<Rightarrow> Inr (op, c') | Err e \<Rightarrow> Inl unwrap_err)))"

definition no_op_poll :: "waker \<Rightarrow> unit op \<Rightarrow> ('u, unit, (unit, io_error) result poll \<times> unit op) on_cell" where
  "no_op_poll w op = op_poll (request_completable no_op) w op"

end
