(* ===== verification/Runtime_Properties.thy ===== *)
theory Runtime_Properties
  imports Uring_Runtime Handle_Properties Buf_Properties
begin

text \<open>Properties of the runtime: delivery of completions, shutdown, registration of buffers.\<close>

section \<open>Delivery\<close>

text \<open>The tasks that wait for the operations a batch of completions is for, in order.\<close>

definition wakers_of :: "(nat \<rightharpoonup> 'd abs_op) \<Rightarrow> cqe list \<Rightarrow> waker list" where
  "wakers_of A cqes =
     concat (map (\<lambda>c. case A (cq_user_data c) of Some (AInFlight (Some w)) \<Rightarrow> [w] | _ \<Rightarrow> []) cqes)"

definition final_batch :: "(u32 \<Rightarrow> bool) \<Rightarrow> (nat \<rightharpoonup> 'd abs_op) \<Rightarrow> cqe list \<Rightarrow> bool" where
  "final_batch is_more A cqes \<longleftrightarrow> distinct (map cq_user_data cqes)
     \<and> list_all (\<lambda>c. cq_user_data c \<noteq> usize_MAX \<and> \<not> is_more (cq_flags c)
          \<and> (\<exists>w. A (cq_user_data c) = Some (AInFlight w))) cqes"

lemma complete_final:
  assumes wf: "ops_wf o1" and ab: "abs_ops o1 k = Some (AInFlight w)" and fin: "\<not> is_more (cq_flags c)"
  obtains o2 where "ops_complete is_more al k c o1 = Inr (o2, case w of None \<Rightarrow> [] | Some v \<Rightarrow> [v])"
    and "ops_wf o2" and "abs_ops o2 = (abs_ops o1)(k \<mapsto> ACompleted c)"
proof -
  from ab obtain lc where lk: "fmlookup (lifecycle o1) k = Some lc"
    and a: "abs_lifecycle (pending o1 k) lc = AInFlight w" by (auto simp: abs_ops_def)
  have nl: "lc \<noteq> CompletionList ix" for ix using a by auto
  then have own: "owns o1 k = []" using lk by (intro owns_other) simp
  have "ops_complete is_more al k c o1 = Inr (put_lifecycle k (Completed c) (completions o1) o1, case w of None \<Rightarrow> [] | Some v \<Rightarrow> [v])"
    using lk a fin by (cases lc) (auto simp: ops_complete_eq)
  with that ops_complete_final [OF wf own, of "Completed c"] show thesis by auto
qed

lemma dispatch_final_batch:
  assumes "ops_wf (drv_ops d)" and "final_batch (u_more api) (abs_ops (drv_ops d)) cqes"
  shows "\<exists>d'. dispatch_cqes api al cqes d = Inr d' \<and> ops_wf (drv_ops d') \<and> drv_uring d' = drv_uring d
    \<and> drv_woken d' = drv_woken d @ wakers_of (abs_ops (drv_ops d)) cqes
    \<and> (\<forall>c \<in> set cqes. abs_ops (drv_ops d') (cq_user_data c) = Some (ACompleted c))
    \<and> (\<forall>k. k \<notin> cq_user_data ` set cqes \<longrightarrow> abs_ops (drv_ops d') k = abs_ops (drv_ops d) k)"
  using assms
proof (induction cqes arbitrary: d)
  case Nil
  then show ?case by (simp add: wakers_of_def)
next
  case (Cons c cs)
  let ?k = "cq_user_data c" and ?A = "abs_ops (drv_ops d)"
  from Cons.prems(2) obtain w where w: "?k \<noteq> usize_MAX" "\<not> u_more api (cq_flags c)" "?A ?k = Some (AInFlight w)"
    by (auto simp: final_batch_def)
  from complete_final [where is_more = "u_more api" and c = c, OF Cons.prems(1) w(3) w(2), of al] obtain o2 where
    o2: "ops_complete (u_more api) al ?k c (drv_ops d) = Inr (o2, case w of None \<Rightarrow> [] | Some v \<Rightarrow> [v])"
      "ops_wf o2" "abs_ops o2 = ?A(?k \<mapsto> ACompleted c)" .
  let ?d = "d\<lparr>drv_ops := o2, drv_woken := drv_woken d @ (case w of None \<Rightarrow> [] | Some v \<Rightarrow> [v])\<rparr>"
  have nin: "?k \<notin> cq_user_data ` set cs" using Cons.prems(2) by (auto simp: final_batch_def)
  then have other: "cq_user_data e \<noteq> ?k" if "e \<in> set cs" for e using that by (metis imageI)
  have fb: "final_batch (u_more api) (abs_ops (drv_ops ?d)) cs"
    using Cons.prems(2) other by (simp add: final_batch_def list_all_iff o2(3))
  have wk: "wakers_of (abs_ops o2) cs = wakers_of ?A cs"
    unfolding wakers_of_def by (rule arg_cong [where f = concat], rule map_cong [OF refl]) (simp add: o2(3) other)
  from Cons.IH [OF _ fb] o2(2) obtain d' where d': "dispatch_cqes api al cs ?d = Inr d'" "ops_wf (drv_ops d')"
    "drv_uring d' = drv_uring d" "drv_woken d' = drv_woken ?d @ wakers_of (abs_ops o2) cs"
    "\<forall>c \<in> set cs. abs_ops (drv_ops d') (cq_user_data c) = Some (ACompleted c)"
    "\<forall>k. k \<notin> cq_user_data ` set cs \<longrightarrow> abs_ops (drv_ops d') k = abs_ops o2 k"
    by auto
  have "dispatch_cqes api al (c # cs) d = Inr d'" using w(1) o2(1) d'(1) by simp
  moreover have "drv_woken d' = drv_woken d @ wakers_of ?A (c # cs)"
    using d'(4) wk w(3) by (simp add: wakers_of_def split: option.split)
  moreover have "abs_ops (drv_ops d') ?k = Some (ACompleted c)" using d'(6) nin o2(3) by simp
  moreover have "\<forall>k. k \<notin> cq_user_data ` set (c # cs) \<longrightarrow> abs_ops (drv_ops d') k = ?A k"
    using d'(6) o2(3) by simp
  ultimately show ?case using d'(2,3,5) by auto
qed

lemma park_flushes:
  assumes "\<not> cl_borrowed c" and "u_submit api (drv_uring (cl_driver c)) = (res, u)"
  shows "on_thread_park api True c = Some (Inr ((), c\<lparr>cl_driver := (cl_driver c)\<lparr>drv_uring := u\<rparr>\<rparr>))"
  using assms
  by (simp add: on_thread_park_def with_context_def context_handle_def handle_flush_def borrow_mut_def on_uring_def)

lemma readable_batch:
  assumes "\<not> cl_borrowed c" and "ops_wf (drv_ops (cl_driver c))"
    and "u_completion api (drv_uring (cl_driver c)) = (cqes, u)"
    and "final_batch (u_more api) (abs_ops (drv_ops (cl_driver c))) cqes"
  obtains d' where "drive_uring_wakes api ca c = Some (Inr ((), c\<lparr>cl_driver := d'\<rparr>))" "ops_wf (drv_ops d')"
    "drv_woken d' = drv_woken (cl_driver c) @ wakers_of (abs_ops (drv_ops (cl_driver c))) cqes"
    "\<And>e. e \<in> set cqes \<Longrightarrow> abs_ops (drv_ops d') (cq_user_data e) = Some (ACompleted e)"
    "\<And>k. k \<notin> cq_user_data ` set cqes \<Longrightarrow> abs_ops (drv_ops d') k = abs_ops (drv_ops (cl_driver c)) k"
proof -
  let ?d = "(cl_driver c)\<lparr>drv_uring := u\<rparr>"
  from dispatch_final_batch [of ?d api cqes ca] assms(2,4) obtain d' where
    d': "dispatch_cqes api ca cqes ?d = Inr d'" "ops_wf (drv_ops d')"
      "drv_woken d' = drv_woken (cl_driver c) @ wakers_of (abs_ops (drv_ops (cl_driver c))) cqes"
      "\<forall>c \<in> set cqes. abs_ops (drv_ops d') (cq_user_data c) = Some (ACompleted c)"
      "\<forall>k. k \<notin> cq_user_data ` set cqes \<longrightarrow> abs_ops (drv_ops d') k = abs_ops (drv_ops (cl_driver c)) k"
    by auto
  have "drive_uring_wakes api ca c = Some (Inr ((), c\<lparr>cl_driver := d'\<rparr>))"
    using assms(1,3) d'(1)
    by (simp add: drive_uring_wakes_def handle_dispatch_completions_def borrow_mut_def dispatch_completions_def)
  with that d'(2-5) show thesis by blast
qed

text \<open>A round of the runtime: the thread parks, then the ring is readable.\<close>

lemma round_batch:
  assumes "\<not> cl_borrowed c" and "ops_wf (drv_ops (cl_driver c))"
    and "fst (u_completion api (snd (u_submit api (drv_uring (cl_driver c))))) = cqes"
    and "final_batch (u_more api) (abs_ops (drv_ops (cl_driver c))) cqes"
  obtains d' where "run_turns api ca True [Park, Readable] c = Some (Inr ((), c\<lparr>cl_driver := d'\<rparr>))" "ops_wf (drv_ops d')"
    "drv_woken d' = drv_woken (cl_driver c) @ wakers_of (abs_ops (drv_ops (cl_driver c))) cqes"
    "\<And>e. e \<in> set cqes \<Longrightarrow> abs_ops (drv_ops d') (cq_user_data e) = Some (ACompleted e)"
    "\<And>k. k \<notin> cq_user_data ` set cqes \<Longrightarrow> abs_ops (drv_ops d') k = abs_ops (drv_ops (cl_driver c)) k"
proof -
  obtain res u where sub: "u_submit api (drv_uring (cl_driver c)) = (res, u)" by force
  obtain u' where comp: "u_completion api u = (cqes, u')" using assms(3) sub by (metis prod.collapse snd_conv)
  let ?c = "c\<lparr>cl_driver := (cl_driver c)\<lparr>drv_uring := u\<rparr>\<rparr>"
  obtain d' where "drive_uring_wakes api ca ?c = Some (Inr ((), ?c\<lparr>cl_driver := d'\<rparr>))" "ops_wf (drv_ops d')"
    "drv_woken d' = drv_woken (cl_driver c) @ wakers_of (abs_ops (drv_ops (cl_driver c))) cqes"
    "\<And>e. e \<in> set cqes \<Longrightarrow> abs_ops (drv_ops d') (cq_user_data e) = Some (ACompleted e)"
    "\<And>k. k \<notin> cq_user_data ` set cqes \<Longrightarrow> abs_ops (drv_ops d') k = abs_ops (drv_ops (cl_driver c)) k"
    using readable_batch [of ?c api cqes u' ca] assms(1,2,4) comp by auto
  with that [of d'] park_flushes [OF assms(1) sub] show thesis by simp
qed

lemma poll_completed_cell:
  assumes "\<not> cl_borrowed c" and "ops_wf (drv_ops (cl_driver c))" and "abs_ops (drv_ops (cl_driver c)) k = Some (ACompleted e)"
  obtains o2 where "handle_poll_op_2 w k c = Some (Inr (Ready e, c\<lparr>cl_driver := (cl_driver c)\<lparr>drv_ops := o2\<rparr>\<rparr>))"
    "ops_wf o2" "abs_ops o2 = (abs_ops (drv_ops (cl_driver c)))(k := None)"
proof -
  from poll_op_2_refines [OF assms(2,3), of w] obtain o2 where
    "poll_op_2 w k (drv_ops (cl_driver c)) = Inr (Ready e, o2)" "ops_wf o2" "abs_ops o2 = (abs_ops (drv_ops (cl_driver c)))(k := None)"
    by auto
  with that [of o2] assms(1) show thesis
    by (simp add: handle_poll_op_2_def borrow_mut_def on_ops_def)
qed

lemma poll_in_flight_cell:
  assumes "\<not> cl_borrowed c" and "ops_wf (drv_ops (cl_driver c))" and "abs_ops (drv_ops (cl_driver c)) k = Some (AInFlight v)"
  obtains o2 where "handle_poll_op_2 w k c = Some (Inr (Pending, c\<lparr>cl_driver := (cl_driver c)\<lparr>drv_ops := o2\<rparr>\<rparr>))"
    "ops_wf o2" "abs_ops o2 = (abs_ops (drv_ops (cl_driver c)))(k \<mapsto> AInFlight (Some w))"
proof -
  from poll_op_2_refines [OF assms(2,3), of w] obtain o2 where
    "poll_op_2 w k (drv_ops (cl_driver c)) = Inr (Pending, o2)" "ops_wf o2"
    "abs_ops o2 = (abs_ops (drv_ops (cl_driver c)))(k \<mapsto> AInFlight (Some w))"
    by auto
  with that [of o2] assms(1) show thesis
    by (simp add: handle_poll_op_2_def borrow_mut_def on_ops_def)
qed

text \<open>
  A round of \<^verbatim>\<open>drive_uring_wakes\<close> delivers: when the ring holds the last completions of
  different operations in flight, the round does not panic, wakes exactly the tasks that wait for
  these operations, in the order of the completions, makes the next poll of each of them return
  its own completion, and changes no other operation.
\<close>

lemma uring_wakes_deliver:
  assumes "\<not> cl_borrowed c" and "ops_wf (drv_ops (cl_driver c))"
    and "u_completion api (drv_uring (cl_driver c)) = (cqes, u)"
    and "final_batch (u_more api) (abs_ops (drv_ops (cl_driver c))) cqes"
  shows "\<exists>c'. drive_uring_wakes api ca c = Some (Inr ((), c'))
    \<and> drv_woken (cl_driver c') = drv_woken (cl_driver c) @ wakers_of (abs_ops (drv_ops (cl_driver c))) cqes
    \<and> (\<forall>cqe \<in> set cqes. \<exists>c2. handle_poll_op_2 w (cq_user_data cqe) c' = Some (Inr (Ready cqe, c2)))
    \<and> (\<forall>k. k \<notin> cq_user_data ` set cqes \<longrightarrow>
         abs_ops (drv_ops (cl_driver c')) k = abs_ops (drv_ops (cl_driver c)) k)"
proof -
  obtain d' where
    d': "drive_uring_wakes api ca c = Some (Inr ((), c\<lparr>cl_driver := d'\<rparr>))" "ops_wf (drv_ops d')"
      "drv_woken d' = drv_woken (cl_driver c) @ wakers_of (abs_ops (drv_ops (cl_driver c))) cqes"
      "\<And>e. e \<in> set cqes \<Longrightarrow> abs_ops (drv_ops d') (cq_user_data e) = Some (ACompleted e)"
      "\<And>k. k \<notin> cq_user_data ` set cqes \<Longrightarrow> abs_ops (drv_ops d') k = abs_ops (drv_ops (cl_driver c)) k"
    by (rule readable_batch [OF assms, of ca]) blast
  let ?c = "c\<lparr>cl_driver := d'\<rparr>"
  have "\<exists>c2. handle_poll_op_2 w (cq_user_data cqe) ?c = Some (Inr (Ready cqe, c2))" if "cqe \<in> set cqes" for cqe
    using poll_completed_cell [of ?c "cq_user_data cqe" cqe w] d'(2,4) that assms(1) by auto
  with d'(1,3,5) show ?thesis by (intro exI [of _ ?c]) simp
qed

section \<open>Shutdown\<close>

text \<open>
  \<^verbatim>\<open>start\<close> runs the future and drops the runtime: when the ring can be built, the future and its
  tasks give back the handles they took and the driver's destructor returns, \<^verbatim>\<open>start\<close> returns what
  the future returned (or its panic), the context is cleared and the tokio runtime is dropped.
\<close>

lemma start_runs_drop:
  fixes c1 c2 :: "('u, 'd) cell"
  assumes "ho_tokio_build ho = Ok ()" and "ho_async_fd ho = Ok ()" and "rb_build rb 256 (rb_new rb) = Ok u"
    and "fut (True, \<lparr>cl_driver = \<lparr>drv_ops = ops_new, drv_uring = u, drv_woken = []\<rparr>,
           cl_borrowed = False, cl_strong = 3\<rparr>) = (res, c1)"
    and "cl_strong c1 = 3" and "drop_tasks (c1\<lparr>cl_strong := 2\<rparr>) = Some (Inr ((), c2))" and "cl_strong c2 = 2"
    and "driver_drop api ca (cl_driver c2) = Some (Inr d')"
  shows "start ho rb api ca drop_tasks fut (False, w) = Some (res, False, w, Some (c2\<lparr>cl_driver := d', cl_strong := 0\<rparr>))"
proof -
  let ?c0 = "\<lparr>cl_driver = \<lparr>drv_ops = ops_new, drv_uring = u, drv_woken = []\<rparr>, cl_borrowed = False, cl_strong = 2\<rparr> :: ('u, 'd) cell"
  have new: "runtime_new ho rb (builder_default rb) w = (Inr (Ok ?c0), live_new w)"
    using assms(1-3) by (simp add: runtime_new_def start_uring_wakes_task_def handle_new_def driver_new_def
        builder_default_def bind_result_def handle_from_def)
  have run: "block_on fut (False, ?c0) = (res, False, c1\<lparr>cl_strong := 2\<rparr>)"
    using assms(4,5) by (simp add: block_on_def set_handle_def unset_driver_def)
  have "runtime_drop api ca drop_tasks (c1\<lparr>cl_strong := 2\<rparr>, live_new w)
      = Some (Inr (c2\<lparr>cl_driver := d', cl_strong := 0\<rparr>, w))"
    using assms(6-8) by (simp add: runtime_drop_def handle_drop_def live_drop_def live_new_def)
  with new run show ?thesis by (simp add: start_def builder_start_def)
qed

definition demo_host :: host where
  "demo_host = \<lparr>ho_tokio_build = Ok (), ho_async_fd = Ok ()\<rparr>"

definition demo_rb :: "(unit, bool) ring_builder" where
  "demo_rb = \<lparr>rb_new = (), rb_setup_sqpoll = (\<lambda>n b. b), rb_build = (\<lambda>n b. Ok True)\<rparr>"

text \<open>
  A failure to build the ring leaks: the tokio runtime and the local set made before are in a
  \<^verbatim>\<open>ManuallyDrop\<close> that nobody drops.
\<close>

lemma runtime_new_leaks:
  assumes "ho_tokio_build ho = Ok ()" and "rb_build rb (bd_entries b) (bd_urb b) = Err e"
  shows "runtime_new ho rb b w = (Inr (Err e), w\<lparr>lv_tokio := lv_tokio w + 1, lv_local := lv_local w + 1\<rparr>)"
  using assms by (simp add: runtime_new_def handle_new_def driver_new_def bind_result_def live_new_def)

section \<open>Registration\<close>

lemma pool_drop_new [simp]: "pool_drop (pool_new bufs :: 'n pool) = Inr ()"
proof -
  have "pool_lent (pool_new bufs :: 'n pool) = {}" using pool_new_inv [of "pool_new bufs :: 'n pool" bufs] by simp
  then have "s \<noteq> PCheckedOut" if "s \<in> set (pl_states (pool_new bufs :: 'n pool))" for s
    using that by (auto simp: pool_lent_def in_set_conv_nth)
  then show ?thesis by (auto simp: pool_drop_def assert_that_def list_all_iff split: pool_state.splits)
qed

text \<open>
  Outside a runtime registration panics; inside one it hands the kernel the buffers in the order
  they were given, at most \<^verbatim>\<open>UIO_MAXIOV\<close> of them, and an error of the kernel is returned without
  a panic from the pool that is dropped.
\<close>

lemma pool_register_cases:
  assumes "\<not> cl_borrowed c"
  shows "pool_register api False bufs c = Some (Inl (Expect ''Not in a runtime context''))"
    and "u_register_buffers api (pl_iovecs (pool_new bufs :: 'n pool)) (drv_uring (cl_driver c)) = (res, u) \<Longrightarrow>
      pool_register api True bufs c = Some (Inr (case res of Ok _ \<Rightarrow> Ok (pool_new bufs :: 'n pool) | Err e \<Rightarrow> Err e,
        c\<lparr>cl_driver := (cl_driver c)\<lparr>drv_uring := u\<rparr>\<rparr>))"
  using assms
  by (auto simp: pool_register_def register_with_def with_context_def context_handle_def handle_register_buffers_def
      borrow_mut_def on_uring_def split: result.splits)

end
