(* ===== verification/Runtime_Liveness.thy ===== *)
theory Runtime_Liveness
  imports Runtime_Properties
begin

text \<open>
  Progress of the runtime: round after round of parking the thread and dispatching what the ring
  has, every operation in flight is completed and every task that waits for one is woken.
  Multishot operations are included: completions that announce more are queued. The kernel owes
  a bounded number of completions and the completion slab has room for them.
\<close>

section \<open>Hypotheses\<close>

text \<open>The slab can be filled up to \<open>n\<close> entries.\<close>

definition room_for :: "slab_alloc \<Rightarrow> nat \<Rightarrow> bool" where
  "room_for al n \<longleftrightarrow> (\<forall>S. finite S \<longrightarrow> card S < n \<longrightarrow> al S \<noteq> None)"

text \<open>
  A ring that owes completions of the operations \<open>pend\<close>: entering the kernel changes nothing owed,
  reading the completion queue delivers what it returns, and a round brings the ring closer to
  owing nothing. \<open>owed\<close> bounds the completions still to come.
\<close>

definition round_contract :: "'u uring_api \<Rightarrow> ('u \<Rightarrow> nat set) \<Rightarrow> ('u \<Rightarrow> nat) \<Rightarrow> bool" where
  "round_contract api pend owed \<longleftrightarrow>
     (\<forall>u. pend (snd (u_submit api u)) = pend u)
   \<and> (\<forall>u. deliver (u_more api) (fst (u_completion api u)) (pend u) = Some (pend (snd (u_completion api u))))
   \<and> (\<forall>u. let v = snd (u_submit api u) in
        owed (snd (u_completion api v)) + length (fst (u_completion api v)) \<le> owed u
        \<and> (pend u \<noteq> {} \<longrightarrow> owed (snd (u_completion api v)) < owed u))"

text \<open>The operations in flight are the ones the kernel owes.\<close>

definition owes :: "(u32 \<Rightarrow> bool) \<Rightarrow> nat set \<Rightarrow> 'd ops \<Rightarrow> bool" where
  "owes is_more P o1 \<longleftrightarrow> (\<forall>k. k \<in> P \<longleftrightarrow> (\<exists>a. abs_ops o1 k = Some a \<and> in_flight is_more a))"

text \<open>The operation has an answer of its own for the next poll.\<close>

definition answered :: "'d ops \<Rightarrow> nat \<Rightarrow> bool" where
  "answered o1 k \<longleftrightarrow> (\<exists>e. abs_ops o1 k = Some (ACompleted e) \<and> cq_user_data e = k) \<or> (\<exists>q. abs_ops o1 k = Some (AQueue q))"

text \<open>
  Every task that waited in \<open>o1\<close> waits in \<open>o2\<close>, or was woken and finds an answer; answers stay.
\<close>

definition waits_kept :: "'d ops \<Rightarrow> 'd ops \<Rightarrow> waker list \<Rightarrow> bool" where
  "waits_kept o1 o2 ws \<longleftrightarrow> (\<forall>k w. abs_ops o1 k = Some (AInFlight (Some w)) \<longrightarrow>
     abs_ops o2 k = Some (AInFlight (Some w)) \<or> w \<in> set ws \<and> answered o2 k)
   \<and> (\<forall>k. answered o1 k \<longrightarrow> answered o2 k)"

lemma waits_kept_refl [simp]: "waits_kept o1 o1 ws"
  by (simp add: waits_kept_def)

lemma waits_kept_trans:
  "waits_kept o1 o2 ws \<Longrightarrow> waits_kept o2 o3 ws' \<Longrightarrow> set ws \<subseteq> set ws' \<Longrightarrow> waits_kept o1 o3 ws'"
  unfolding waits_kept_def by blast

section \<open>The completion slab grows by one entry per completion\<close>

lemma push_card:
  assumes "push al v l = Inr l'"
  shows "card (fmdom' (sl_slab l')) \<le> card (fmdom' (sl_slab l)) + 1"
proof -
  from assms obtain k slab where ins: "slab_insert al \<lparr>le_entry = v, le_next = usize_MAX\<rparr> (sl_slab l) = Inr (k, slab)"
    by (auto simp: push_def Let_def bind_exec_eq_Inr)
  then have "slab = fmupd k \<lparr>le_entry = v, le_next = usize_MAX\<rparr> (sl_slab l)" by (simp add: slab_insert_Inr)
  then have "fmdom' slab = insert k (fmdom' (sl_slab l))" by simp
  moreover have "fmdom' (sl_slab l') = fmdom' slab"
  proof (cases "il_end (sl_index l) = usize_MAX")
    case True
    with assms ins show ?thesis by (simp add: push_def) (auto)
  next
    case False
    with assms ins obtain e where e: "slab_index slab (il_end (sl_index l)) = Inr e"
      "sl_slab l' = fmupd (il_end (sl_index l)) (e\<lparr>le_next := k\<rparr>) slab"
      by (auto simp: push_def Let_def bind_exec_eq_Inr)
    then have "il_end (sl_index l) \<in> fmdom' slab"
      by (auto simp: slab_index_def split: option.splits intro: fmdom'I)
    then show ?thesis using e(2) by auto
  qed
  ultimately show ?thesis by (simp add: card_insert_if)
qed

lemma complete_card:
  assumes "ops_complete is_more al k cqe o1 = Inr (o2, ws)"
  shows "card (fmdom' (completions o2)) \<le> card (fmdom' (completions o1)) + 1"
proof -
  obtain lc where lk: "fmlookup (lifecycle o1) k = Some lc"
    using assms by (cases "fmlookup (lifecycle o1) k") (auto simp: ops_complete_def slab_index_def)
  have p: "card (fmdom' (sl_slab l)) \<le> card (fmdom' (completions o1)) + 1"
    if "push al v (into_list ix (completions o1)) = Inr l" for v ix l
    using push_card [OF that] by (simp add: into_list_def from_indices_def)
  show ?thesis
    using assms p by (cases lc) (auto simp: ops_complete_eq [OF lk] push_into_indices bind_exec_eq_Inr put_lifecycle_def
        split: if_splits)
qed

section \<open>A batch\<close>

lemma complete_owed:
  assumes wf: "ops_wf o1" and al: "slab_alloc_ok al" "al (fmdom' (completions o1)) \<noteq> None"
    and ow: "owes is_more P o1" and k: "cq_user_data c \<in> P"
  obtains o2 ws where "ops_complete is_more al (cq_user_data c) c o1 = Inr (o2, ws)" "ops_wf o2"
    "owes is_more (if is_more (cq_flags c) then P else P - {cq_user_data c}) o2" "waits_kept o1 o2 ws"
    "card (fmdom' (completions o2)) \<le> card (fmdom' (completions o1)) + 1"
proof -
  let ?k = "cq_user_data c"
  from ow k obtain a where a: "abs_ops o1 ?k = Some a" "in_flight is_more a" unfolding owes_def by blast
  then have nc: "a \<noteq> ACompleted e" for e by auto
  from ops_complete_progress [where al = al, OF wf al(2) a(1) nc, of is_more c] obtain o2 ws where
    eq: "ops_complete is_more al ?k c o1 = Inr (o2, ws)" by blast
  from ops_complete_refines_step [OF wf al(1) eq] a(1) obtain a' where st: "ops_wf o2"
    "abs_complete is_more c a = Inr (a', ws)" "abs_ops o2 = (abs_ops o1)(?k := a')" by auto
  have fl: "(\<exists>b. a' = Some b \<and> in_flight is_more b) = is_more (cq_flags c)"
    using st(2) nc by (cases a) (auto simp: cqe_result_from_def Let_def split: if_splits)
  have "owes is_more (if is_more (cq_flags c) then P else P - {?k}) o2"
    using ow k fl by (auto simp: owes_def st(3))
  moreover have "waits_kept o1 o2 ws"
    using st(2) a by (cases a) (auto simp: waits_kept_def answered_def st(3) split: if_splits)
  ultimately show thesis using that eq st(1) complete_card [OF eq] by blast
qed

lemma dispatch_owed:
  assumes "slab_alloc_ok ca" and "room_for ca N" and "ops_wf (drv_ops d)" and "owes (u_more api) P (drv_ops d)"
    and "deliver (u_more api) cqes P = Some P'" and "card (fmdom' (completions (drv_ops d))) + length cqes \<le> N"
  shows "\<exists>d'. dispatch_cqes api ca cqes d = Inr d' \<and> ops_wf (drv_ops d') \<and> drv_uring d' = drv_uring d
    \<and> owes (u_more api) P' (drv_ops d') \<and> waits_kept (drv_ops d) (drv_ops d') (drv_woken d')
    \<and> set (drv_woken d) \<subseteq> set (drv_woken d')
    \<and> card (fmdom' (completions (drv_ops d'))) \<le> card (fmdom' (completions (drv_ops d))) + length cqes"
  using assms(3-6)
proof (induction cqes arbitrary: d P)
  case Nil
  then show ?case by simp
next
  case (Cons c cs)
  show ?case
  proof (cases "cq_user_data c = usize_MAX")
    case True
    with Cons.IH [OF Cons.prems(1,2)] Cons.prems(3,4) show ?thesis by fastforce
  next
    case False
    let ?P = "if u_more api (cq_flags c) then P else P - {cq_user_data c}"
    from Cons.prems(3) False have k: "cq_user_data c \<in> P" and del: "deliver (u_more api) cs ?P = Some P'"
      by (auto split: if_splits)
    have "ca (fmdom' (completions (drv_ops d))) \<noteq> None" using assms(2) Cons.prems(4) by (simp add: room_for_def)
    from complete_owed [OF Cons.prems(1) assms(1) this Cons.prems(2) k] obtain o2 ws where
      o2: "ops_complete (u_more api) ca (cq_user_data c) c (drv_ops d) = Inr (o2, ws)" "ops_wf o2"
        "owes (u_more api) ?P o2" "waits_kept (drv_ops d) o2 ws"
        "card (fmdom' (completions o2)) \<le> card (fmdom' (completions (drv_ops d))) + 1" .
    let ?d = "d\<lparr>drv_ops := o2, drv_woken := drv_woken d @ ws\<rparr>"
    from Cons.IH [of ?d ?P] o2(2,3,5) del Cons.prems(4) obtain d' where
      d': "dispatch_cqes api ca cs ?d = Inr d'" "ops_wf (drv_ops d')" "drv_uring d' = drv_uring d"
        "owes (u_more api) P' (drv_ops d')" "waits_kept o2 (drv_ops d') (drv_woken d')"
        "set (drv_woken d) \<union> set ws \<subseteq> set (drv_woken d')"
        "card (fmdom' (completions (drv_ops d'))) \<le> card (fmdom' (completions o2)) + length cs"
      by auto
    have "dispatch_cqes api ca (c # cs) d = Inr d'" using False o2(1) d'(1) by simp
    moreover have "waits_kept (drv_ops d) (drv_ops d') (drv_woken d')"
      using waits_kept_trans [OF o2(4) d'(5)] d'(6) by simp
    ultimately show ?thesis using d'(2-4,6,7) o2(5) by (intro exI [of _ d']) auto
  qed
qed

section \<open>Rounds\<close>

definition rounds :: "nat \<Rightarrow> ('u, 'd) turn list" where
  "rounds n = concat (replicate n [Park, Readable])"

lemma rounds_simps [simp]: "rounds 0 = []" "rounds (Suc n) = Park # Readable # rounds n"
  by (simp_all add: rounds_def)

lemma round_ok:
  assumes rc: "round_contract api pend owed" and al: "slab_alloc_ok ca" "room_for ca N"
    and c: "\<not> cl_borrowed c" "ops_wf (drv_ops (cl_driver c))"
      "owes (u_more api) (pend (drv_uring (cl_driver c))) (drv_ops (cl_driver c))"
      "card (fmdom' (completions (drv_ops (cl_driver c)))) + owed (drv_uring (cl_driver c)) \<le> N"
  obtains d' where "\<And>ts. run_turns api ca True (Park # Readable # ts) c = run_turns api ca True ts (c\<lparr>cl_driver := d'\<rparr>)"
    "ops_wf (drv_ops d')" "owes (u_more api) (pend (drv_uring d')) (drv_ops d')"
    "card (fmdom' (completions (drv_ops d'))) + owed (drv_uring d') \<le> N"
    "pend (drv_uring (cl_driver c)) \<noteq> {} \<Longrightarrow> owed (drv_uring d') < owed (drv_uring (cl_driver c))"
    "waits_kept (drv_ops (cl_driver c)) (drv_ops d') (drv_woken d')" "set (drv_woken (cl_driver c)) \<subseteq> set (drv_woken d')"
proof -
  let ?d = "cl_driver c" and ?u = "drv_uring (cl_driver c)"
  obtain res v where sub: "u_submit api ?u = (res, v)" by force
  obtain cqes u2 where comp: "u_completion api v = (cqes, u2)" by force
  have pv: "pend v = pend ?u" using rc sub unfolding round_contract_def by (metis snd_conv)
  have del: "deliver (u_more api) cqes (pend ?u) = Some (pend u2)"
    using rc comp pv unfolding round_contract_def by (metis fst_conv snd_conv)
  have ow: "owed u2 + length cqes \<le> owed ?u" "pend ?u \<noteq> {} \<Longrightarrow> owed u2 < owed ?u"
    using rc sub comp unfolding round_contract_def Let_def by (metis fst_conv snd_conv)+
  have "card (fmdom' (completions (drv_ops ?d))) + length cqes \<le> N" using c(4) ow(1) by linarith
  with dispatch_owed [OF al, of "?d\<lparr>drv_uring := u2\<rparr>" api "pend ?u" cqes "pend u2"] c(2,3) del obtain d' where
    d': "dispatch_cqes api ca cqes (?d\<lparr>drv_uring := u2\<rparr>) = Inr d'" "ops_wf (drv_ops d')" "drv_uring d' = u2"
      "owes (u_more api) (pend u2) (drv_ops d')" "waits_kept (drv_ops ?d) (drv_ops d') (drv_woken d')"
      "set (drv_woken ?d) \<subseteq> set (drv_woken d')"
      "card (fmdom' (completions (drv_ops d'))) \<le> card (fmdom' (completions (drv_ops ?d))) + length cqes"
    by auto
  have "run_turns api ca True (Park # Readable # ts) c = run_turns api ca True ts (c\<lparr>cl_driver := d'\<rparr>)" for ts
    using c(1) comp d'(1) park_flushes [OF c(1) sub]
    by (simp add: borrow_mut_def drive_uring_wakes_def handle_dispatch_completions_def dispatch_completions_def)
  moreover have "card (fmdom' (completions (drv_ops d'))) + owed (drv_uring d') \<le> N" using d'(3,7) ow(1) c(4) by simp
  ultimately show thesis using that [of d'] d'(2-6) ow(2) by simp
qed

lemma rounds_settle:
  assumes rc: "round_contract api pend owed" and al: "slab_alloc_ok ca" "room_for ca N"
    and "\<not> cl_borrowed c" "ops_wf (drv_ops (cl_driver c))"
      "owes (u_more api) (pend (drv_uring (cl_driver c))) (drv_ops (cl_driver c))"
      "card (fmdom' (completions (drv_ops (cl_driver c)))) + owed (drv_uring (cl_driver c)) \<le> N"
  shows "\<exists>n c'. n \<le> owed (drv_uring (cl_driver c)) \<and> run_turns api ca True (rounds n) c = Some (Inr ((), c'))
    \<and> owes (u_more api) {} (drv_ops (cl_driver c'))
    \<and> waits_kept (drv_ops (cl_driver c)) (drv_ops (cl_driver c')) (drv_woken (cl_driver c'))
    \<and> set (drv_woken (cl_driver c)) \<subseteq> set (drv_woken (cl_driver c'))
    \<and> \<not> cl_borrowed c' \<and> ops_wf (drv_ops (cl_driver c'))"
  using assms(4-)
proof (induction "owed (drv_uring (cl_driver c))" arbitrary: c rule: less_induct)
  case less
  show ?case
  proof (cases "pend (drv_uring (cl_driver c)) = {}")
    case True
    with less.prems(1-3) show ?thesis by (intro exI [of _ 0] exI [of _ c]) simp
  next
    case False
    obtain d' where d': "\<And>ts. run_turns api ca True (Park # Readable # ts) c = run_turns api ca True ts (c\<lparr>cl_driver := d'\<rparr>)"
      "ops_wf (drv_ops d')" "owes (u_more api) (pend (drv_uring d')) (drv_ops d')"
      "card (fmdom' (completions (drv_ops d'))) + owed (drv_uring d') \<le> N"
      "pend (drv_uring (cl_driver c)) \<noteq> {} \<Longrightarrow> owed (drv_uring d') < owed (drv_uring (cl_driver c))"
      "waits_kept (drv_ops (cl_driver c)) (drv_ops d') (drv_woken d')" "set (drv_woken (cl_driver c)) \<subseteq> set (drv_woken d')"
      by (rule round_ok [OF rc al less.prems]) blast
    from less.hyps [of "c\<lparr>cl_driver := d'\<rparr>"] d'(2-5) False less.prems(1) obtain n c' where
      n: "n \<le> owed (drv_uring d')" "run_turns api ca True (rounds n) (c\<lparr>cl_driver := d'\<rparr>) = Some (Inr ((), c'))"
        "owes (u_more api) {} (drv_ops (cl_driver c'))" "waits_kept (drv_ops d') (drv_ops (cl_driver c')) (drv_woken (cl_driver c'))"
        "set (drv_woken d') \<subseteq> set (drv_woken (cl_driver c'))" "\<not> cl_borrowed c'" "ops_wf (drv_ops (cl_driver c'))"
      by auto
    have "run_turns api ca True (rounds (Suc n)) c = Some (Inr ((), c'))" using d'(1) n(2) by simp
    moreover have "Suc n \<le> owed (drv_uring (cl_driver c))" using n(1) d'(5) False by simp
    moreover note waits_kept_trans [OF d'(6) n(4,5)] order_trans [OF d'(7) n(5)]
    ultimately show ?thesis using n(3,6,7) by blast
  qed
qed

text \<open>
  The runtime makes progress: when the kernel owes the operations in flight a bounded number
  of completions and every round of the thread brings it closer to owing none, then after at most
  that many rounds of parking and dispatching no operation is in flight, nothing panicked, and
  every task that waited for an operation has been woken and finds an answer.
\<close>

lemma runtime_settles:
  assumes "round_contract api pend owed" and "slab_alloc_ok ca" and "room_for ca N"
    and "\<not> cl_borrowed c" and "ops_wf (drv_ops (cl_driver c))"
    and "owes (u_more api) (pend (drv_uring (cl_driver c))) (drv_ops (cl_driver c))"
    and "card (fmdom' (completions (drv_ops (cl_driver c)))) + owed (drv_uring (cl_driver c)) \<le> N"
  shows "\<exists>n c'. n \<le> owed (drv_uring (cl_driver c)) \<and> run_turns api ca True (rounds n) c = Some (Inr ((), c'))
    \<and> (\<forall>k a. abs_ops (drv_ops (cl_driver c')) k = Some a \<longrightarrow> \<not> in_flight (u_more api) a)
    \<and> (\<forall>k w. abs_ops (drv_ops (cl_driver c)) k = Some (AInFlight (Some w)) \<longrightarrow>
         w \<in> set (drv_woken (cl_driver c')) \<and> answered (drv_ops (cl_driver c')) k)
    \<and> \<not> cl_borrowed c' \<and> ops_wf (drv_ops (cl_driver c'))"
proof -
  from rounds_settle [OF assms] obtain n c' where n: "n \<le> owed (drv_uring (cl_driver c))"
      "run_turns api ca True (rounds n) c = Some (Inr ((), c'))" "owes (u_more api) {} (drv_ops (cl_driver c'))"
      "waits_kept (drv_ops (cl_driver c)) (drv_ops (cl_driver c')) (drv_woken (cl_driver c'))"
      "\<not> cl_borrowed c'" "ops_wf (drv_ops (cl_driver c'))" by blast
  have idle: "\<not> in_flight (u_more api) a" if "abs_ops (drv_ops (cl_driver c')) k = Some a" for k a
    using n(3) that by (auto simp: owes_def)
  then have "abs_ops (drv_ops (cl_driver c')) k \<noteq> Some (AInFlight v)" for k v by force
  then have "w \<in> set (drv_woken (cl_driver c')) \<and> answered (drv_ops (cl_driver c')) k" if "abs_ops (drv_ops (cl_driver c)) k = Some (AInFlight (Some w))" for k w
    using n(4) that unfolding waits_kept_def by blast
  with n(1,2,5,6) idle show ?thesis by blast
qed

end
