(* ===== verification/Runtime_System.thy ===== *)
theory Runtime_System
  imports Runtime_Liveness
begin

text \<open>
  The runtime among its tasks and the kernel, as a state machine on the shared cell of the driver.
  A step is one call through a handle: submitting (one operation, several at once, with a closure),
  cancelling, polling, dropping, registering, a clone or a drop of a handle that is not the last,
  parking the thread, dispatching completions. Submissions may find the queue full and enter the
  kernel, which may be busy and make the driver dispatch in the middle of a submission. In every
  reachable state the operations in flight are exactly the ones the kernel owes; progress and
  shutdown of the runtime follow from it.
\<close>

section \<open>The ring as tasks see it\<close>

text \<open>
  What the driver relies on while it runs, for a view \<open>pend\<close> of the operations the ring owes:
  pushing an entry makes the ring owe its operation (a cancellation has no operation of its own),
  entering the kernel or registering changes nothing owed, reading completions delivers them.
\<close>

definition ring_contract :: "'u uring_api \<Rightarrow> ('u \<Rightarrow> nat set) \<Rightarrow> bool" where
  "ring_contract api pend \<longleftrightarrow>
     (\<forall>u. pend (snd (u_submit api u)) = pend u) \<and> (\<forall>u. pend (u_sq_sync api u) = pend u)
   \<and> (\<forall>s u u'. u_push api s u = Some u' \<longrightarrow> pend u' = ({sqe_user_data s} - {usize_MAX}) \<union> pend u)
   \<and> (\<forall>ss u u'. u_push_multiple api ss u = Some u' \<longrightarrow> pend u' = (sqe_user_data ` set ss - {usize_MAX}) \<union> pend u)
   \<and> (\<forall>u. deliver (u_more api) (fst (u_completion api u)) (pend u) = Some (pend (snd (u_completion api u))))
   \<and> (\<forall>b u. pend (snd (u_register_buffers api b u)) = pend u) \<and> (\<forall>u. pend (snd (u_unregister_buffers api u)) = pend u)
   \<and> (\<forall>f u. pend (snd (u_register_files api f u)) = pend u) \<and> (\<forall>u. pend (snd (u_unregister_files api u)) = pend u)"

lemma ring_contractD:
  assumes "ring_contract api pend"
  shows "u_submit api u = (r, v) \<Longrightarrow> pend v = pend u" and "pend (u_sq_sync api u) = pend u"
    and "u_push api s u = Some v \<Longrightarrow> pend v = ({sqe_user_data s} - {usize_MAX}) \<union> pend u"
    and "u_push_multiple api ss u = Some v \<Longrightarrow> pend v = (sqe_user_data ` set ss - {usize_MAX}) \<union> pend u"
    and "u_completion api u = (cqes, v) \<Longrightarrow> deliver (u_more api) cqes (pend u) = Some (pend v)"
    and "pend (snd (u_register_buffers api b u)) = pend u" and "pend (snd (u_unregister_buffers api u)) = pend u"
    and "pend (snd (u_register_files api fds u)) = pend u" and "pend (snd (u_unregister_files api u)) = pend u"
  using assms unfolding ring_contract_def by (metis fst_conv snd_conv)+

section \<open>The invariant of the slabs\<close>

text \<open>A queue of completions has its final one, if any, at the end.\<close>

fun queue_ok :: "(u32 \<Rightarrow> bool) \<Rightarrow> 'd abs_op \<Rightarrow> bool" where
  "queue_ok is_more (AQueue q) \<longleftrightarrow> q \<noteq> [] \<and> all_more is_more (butlast q)"
| "queue_ok is_more a \<longleftrightarrow> True"

definition rt_ok :: "(u32 \<Rightarrow> bool) \<Rightarrow> nat set \<Rightarrow> 'd ops \<Rightarrow> bool" where
  "rt_ok is_more P o1 \<longleftrightarrow> ops_wf o1 \<and> owes is_more P o1
     \<and> (\<forall>k a. abs_ops o1 k = Some a \<longrightarrow> queue_ok is_more a)"

definition opt_flying :: "(u32 \<Rightarrow> bool) \<Rightarrow> 'd abs_op option \<Rightarrow> bool" where
  "opt_flying is_more a \<longleftrightarrow> (\<exists>b. a = Some b \<and> in_flight is_more b)"

lemma opt_flying_simps [simp]: "\<not> opt_flying is_more None" "opt_flying is_more (Some a) = in_flight is_more a"
  by (simp_all add: opt_flying_def)

lemma owes_iff: "owes is_more P o1 \<longleftrightarrow> (\<forall>k. k \<in> P \<longleftrightarrow> opt_flying is_more (abs_ops o1 k))"
  by (simp add: owes_def opt_flying_def)

lemma rt_okD:
  assumes "rt_ok is_more P o1"
  shows "ops_wf o1" and "owes is_more P o1" and "abs_ops o1 k = Some a \<Longrightarrow> queue_ok is_more a"
    and "abs_ops o1 k = b \<Longrightarrow> (k \<in> P) = opt_flying is_more b"
  using assms by (auto simp: rt_ok_def owes_iff)

lemma rt_ok_upd:
  assumes "rt_ok is_more P o1" and "ops_wf o2" and "abs_ops o2 = (abs_ops o1)(k := a)"
    and "\<And>b. a = Some b \<Longrightarrow> queue_ok is_more b" and "(k \<in> P') = opt_flying is_more a"
    and "\<And>j. j \<noteq> k \<Longrightarrow> (j \<in> P') = (j \<in> P)"
  shows "rt_ok is_more P' o2"
  using assms by (auto simp: rt_ok_def owes_iff)

text \<open>A change of one operation that keeps whether it is in flight.\<close>

lemma rt_ok_same:
  assumes "rt_ok is_more P o1" and "ops_wf o2" and "abs_ops o2 = (abs_ops o1)(k := a)"
    and "\<And>b. a = Some b \<Longrightarrow> queue_ok is_more b" and "opt_flying is_more (abs_ops o1 k) = opt_flying is_more a"
  shows "rt_ok is_more P o2"
  using rt_ok_upd [OF assms(1-4), of P] assms(5) rt_okD(4) [OF assms(1) refl] by simp

lemma rt_ok_new: "rt_ok is_more {} ops_new"
  using ops_wf_new by (simp add: rt_ok_def owes_def abs_ops_def ops_new_def)

section \<open>Polling and dropping\<close>

lemma poll_op_2_rt_ok:
  assumes "rt_ok is_more P o1" and "poll_op_2 w k o1 = Inr (r, o2)"
  shows "rt_ok is_more P o2"
proof -
  obtain a where a: "abs_ops o1 k = Some a"
    using assms(2) by (cases "fmlookup (lifecycle o1) k") (auto simp: poll_op_2_def abs_ops_def)
  from poll_op_2_refines [OF rt_okD(1) [OF assms(1)] a, of w] assms(2) obtain a' where
    "ops_wf o2" "abs_ops o2 = (abs_ops o1)(k := a')" "abs_poll w a = Inr (r, a')"
    by (auto split: sum.splits prod.splits)
  then show ?thesis using a by (cases a) (auto intro: rt_ok_same [OF assms(1)])
qed

lemma poll_op_rt_ok:
  assumes "rt_ok is_more P o1" and "poll_op co w op o1 = Inr (r, op', o2)"
  shows "rt_ok is_more P o2"
proof -
  have "\<exists>r. poll_op_2 w (op_index op) o1 = Inr (r, o2)"
    using assms(2) by (cases "take_data op")
      (auto simp: poll_op_def poll_op_2_def bind_exec_eq_Inr split: option.splits lifecycle.splits)
  with poll_op_2_rt_ok [OF assms(1)] show ?thesis by blast
qed

lemma remove_lc_rt_ok:
  assumes "rt_ok is_more P o1" and "remove_lc is_more k data o1 = Inr (kept, o2)"
  shows "rt_ok is_more P o2"
proof (cases "abs_ops o1 k")
  case None
  with assms show ?thesis by (auto simp: remove_lc_def abs_ops_def split: option.splits)
next
  case (Some a)
  from remove_lc_refines [OF rt_okD(1) [OF assms(1)] Some, of is_more data] assms(2) obtain a' where
    "ops_wf o2" "abs_ops o2 = (abs_ops o1)(k := a')" "abs_remove is_more data a = Inr (kept, a')"
    by (auto split: sum.splits prod.splits)
  then show ?thesis using Some by (cases a) (auto intro!: rt_ok_same [OF assms(1)] split: if_splits)
qed

lemma remove_op_rt_ok:
  "rt_ok is_more P o1 \<Longrightarrow> remove_op is_more op o1 = Inr (op', o2) \<Longrightarrow> rt_ok is_more P o2"
  "rt_ok is_more P o1 \<Longrightarrow> remove_op_2 is_more k data o1 = Inr o2 \<Longrightarrow> rt_ok is_more P o2"
  by (auto simp: remove_op_def remove_op_2_def bind_exec_eq_Inr dest: remove_lc_rt_ok split: if_splits)

lemma mem_stable_unit: "mem_stable up (\<lambda>d. ())"
  by (simp add: mem_stable_def)

lemma all_more_butlast: "all_more is_more q \<Longrightarrow> all_more is_more (butlast q)"
  by (auto simp: all_more_def intro: in_set_butlastD)

lemma all_more_last: "all_more is_more q \<Longrightarrow> q \<noteq> [] \<Longrightarrow> is_more (cr_flags (last q))"
  by (simp add: all_more_def)

text \<open>A poll of a multishot operation never loses that the kernel still owes completions.\<close>

lemma abs_poll_multishot_keeps:
  fixes up :: "('d, 'o) updateable"
  assumes "queue_ok is_more a" and "abs_poll_multishot up is_more w data a = Inr (r, dt, a', ws)"
  shows "opt_flying is_more a' = in_flight is_more a \<and> (\<forall>b. a' = Some b \<longrightarrow> queue_ok is_more b)"
proof (cases a)
  case (AQueue q)
  from assms(2) AQueue obtain x where x: "consume up is_more data q = Inr x" "abs_consumed up w x = Inr (r, dt, a', ws)"
    by (auto simp: bind_exec_eq_Inr)
  obtain q' c where q: "q = q' @ [c]" "all_more is_more q'" using assms(1) AQueue by (cases q rule: rev_cases) auto
  show ?thesis
  proof (cases "is_more (cr_flags c)")
    case True
    with q have "all_more is_more q" by simp
    from consume_all_more [OF mem_stable_unit this x(1)] x(2) True AQueue q(1) show ?thesis
      by (auto simp: bind_exec_eq_Inr all_more_butlast all_more_last split: if_splits)
  next
    case False
    with consume_final [OF mem_stable_unit q(2) False x(1) [unfolded q(1)]] x(2) AQueue q(1) show ?thesis
      by (auto simp: bind_exec_eq_Inr)
  qed
qed (use assms in \<open>auto simp: bind_exec_eq_Inr\<close>)

lemma poll_multishot_rt_ok:
  fixes up :: "('d, 'o) updateable"
  assumes "rt_ok is_more P o1" and "poll_multishot_op up is_more w op o1 = Inr (r, op', o2, ws)"
  shows "rt_ok is_more P o2"
proof (cases "abs_ops o1 (op_index op)")
  case None
  with assms show ?thesis
    by (auto simp: poll_multishot_op_def abs_ops_def bind_exec_eq_Inr split: if_splits option.splits prod.splits)
next
  case (Some a)
  obtain data where dt: "op_data op = Some data"
    using assms(2) by (auto simp: poll_multishot_op_def is_finished_def split: if_splits)
  from poll_multishot_refines [OF rt_okD(1) [OF assms(1)] Some dt, of up is_more w] assms(2) obtain dt' a' where
    st: "ops_wf o2" "abs_ops o2 = (abs_ops o1)(op_index op := a')"
      "abs_poll_multishot up is_more w data a = Inr (r, dt', a', ws)"
    by (auto simp: poll_multishot_rel_def elim!: rel_sum.cases)
  from abs_poll_multishot_keeps [OF rt_okD(3) [OF assms(1) Some] st(3)] Some show ?thesis
    by (intro rt_ok_same [OF assms(1) st(1,2)]) auto
qed

section \<open>Dispatching\<close>

lemma complete_rt_ok:
  assumes "rt_ok is_more P o1" and "slab_alloc_ok al" and "ops_complete is_more al (cq_user_data c) c o1 = Inr (o2, ws)"
    and "cq_user_data c \<in> P"
  shows "rt_ok is_more (if is_more (cq_flags c) then P else P - {cq_user_data c}) o2"
proof -
  from ops_complete_refines_step [OF rt_okD(1) [OF assms(1)] assms(2,3)] obtain a a' where
    st: "ops_wf o2" "abs_ops o1 (cq_user_data c) = Some a" "abs_complete is_more c a = Inr (a', ws)"
      "abs_ops o2 = (abs_ops o1)(cq_user_data c := a')" by auto
  have fl: "in_flight is_more a" using rt_okD(4) [OF assms(1) st(2)] assms(4) by simp
  have ok: "all_more is_more q" if "a = AQueue q" for q
    using rt_okD(3) [OF assms(1) st(2)] that fl by (cases q rule: rev_cases) auto
  show ?thesis
    by (rule rt_ok_upd [OF assms(1) st(1,4)])
       (use st(3) fl ok assms(4) in \<open>cases a; auto split: if_splits\<close>)+
qed

lemma dispatch_rt_ok:
  assumes "slab_alloc_ok al" and "rt_ok (u_more api) P (drv_ops d)" and "deliver (u_more api) cqes P = Some P'"
    and "dispatch_cqes api al cqes d = Inr d'"
  shows "rt_ok (u_more api) P' (drv_ops d') \<and> drv_uring d' = drv_uring d"
  using assms(2-)
proof (induction cqes arbitrary: d P)
  case (Cons c cs)
  show ?case
  proof (cases "cq_user_data c = usize_MAX")
    case False
    with Cons.prems obtain o2 ws where st: "ops_complete (u_more api) al (cq_user_data c) c (drv_ops d) = Inr (o2, ws)"
      and rest: "dispatch_cqes api al cs (d\<lparr>drv_ops := o2, drv_woken := drv_woken d @ ws\<rparr>) = Inr d'"
      and k: "cq_user_data c \<in> P"
      and del: "deliver (u_more api) cs (if u_more api (cq_flags c) then P else P - {cq_user_data c}) = Some P'"
      by (auto simp: bind_exec_eq_Inr split: if_splits)
    from Cons.IH [OF _ del rest] complete_rt_ok [OF Cons.prems(1) assms(1) st k] show ?thesis by simp
  qed (use Cons in simp)
qed simp

text \<open>
  Operations the ring has not seen yet: \<open>E\<close> is in the slab and not in the ring, so no batch of
  completions touches it.
\<close>

lemma deliver_frame:
  "deliver is_more cqes P = Some P' \<Longrightarrow> E \<inter> P = {} \<Longrightarrow> deliver is_more cqes (E \<union> P) = Some (E \<union> P') \<and> P' \<subseteq> P"
proof (induction cqes arbitrary: P)
  case (Cons c cs)
  have "E \<union> P - {cq_user_data c} = E \<union> (P - {cq_user_data c})" if "cq_user_data c \<in> P" using that Cons.prems(2) by blast
  with Cons show ?case by (fastforce split: if_splits)
qed simp

definition frame_ok :: "'u uring_api \<Rightarrow> ('u \<Rightarrow> nat set) \<Rightarrow> nat set \<Rightarrow> ('u, 'd) driver \<Rightarrow> bool" where
  "frame_ok api pend E d \<longleftrightarrow> E \<inter> pend (drv_uring d) = {} \<and> rt_ok (u_more api) (E \<union> pend (drv_uring d)) (drv_ops d)"

lemma frame_ok_ring [simp]: "pend v = pend (drv_uring d) \<Longrightarrow> frame_ok api pend E (d\<lparr>drv_uring := v\<rparr>) = frame_ok api pend E d"
  by (simp add: frame_ok_def)

lemma dispatch_completions_frame:
  assumes "ring_contract api pend" and "slab_alloc_ok al" and "frame_ok api pend E d" and "dispatch_completions api al d = Inr d'"
  shows "frame_ok api pend E d'"
proof -
  obtain cqes u where c: "u_completion api (drv_uring d) = (cqes, u)" by force
  note del = ring_contractD(5) [OF assms(1) c]
  from assms(3) have E: "E \<inter> pend (drv_uring d) = {}" "rt_ok (u_more api) (E \<union> pend (drv_uring d)) (drv_ops d)"
    by (auto simp: frame_ok_def)
  note fr = deliver_frame [OF del E(1)]
  from dispatch_rt_ok [OF assms(2), of api "E \<union> pend (drv_uring d)" "d\<lparr>drv_uring := u\<rparr>" cqes "E \<union> pend u" d']
  show ?thesis using assms(4) c E fr by (auto simp: dispatch_completions_def frame_ok_def)
qed

section \<open>Submitting\<close>

definition keeps_frame ::
  "'u uring_api \<Rightarrow> ('u \<Rightarrow> nat set) \<Rightarrow> nat set \<Rightarrow> slab_alloc \<Rightarrow> ('u, 'd) driver \<Rightarrow> ('u, 'd) submitted exec \<Rightarrow> bool" where
  "keeps_frame api pend E al d y \<longleftrightarrow> (\<forall>r d'. y = Inr (r, d') \<longrightarrow> ring_contract api pend \<longrightarrow> slab_alloc_ok al
     \<longrightarrow> frame_ok api pend E d \<longrightarrow> frame_ok api pend E d')"

lemma driver_submit_frame:
  assumes "driver_submit api al d = Some y"
  shows "keeps_frame api pend E al d y"
proof (rule driver_submit.raw_induct [where P = "\<lambda>api al d y. keeps_frame api pend E al d y", OF _ assms])
  fix f :: "'a uring_api \<Rightarrow> slab_alloc \<Rightarrow> ('a, 'b) driver \<Rightarrow> ('a, 'b) submitted exec option"
    and api al d y
  assume IH: "\<And>api al d y. f api al d = Some y \<Longrightarrow> keeps_frame api pend E al d y"
    and eq: "(case u_submit api (drv_uring d) of (r, u) \<Rightarrow>
       (case r of
          Ok n \<Rightarrow> Some (Inr (Ok (), d\<lparr>drv_uring := u_sq_sync api u\<rparr>))
        | Err e \<Rightarrow>
            if raw_os_error e = Some EBUSY then
              (case dispatch_completions api al (d\<lparr>drv_uring := u\<rparr>) of
                 Inl p \<Rightarrow> Some (Inl p)
               | Inr d' \<Rightarrow> f api al d')
            else if raw_os_error e \<noteq> Some EINTR then Some (Inr (Err e, d\<lparr>drv_uring := u\<rparr>))
            else f api al (d\<lparr>drv_uring := u\<rparr>))) = Some y"
  show "keeps_frame api pend E al d y"
    unfolding keeps_frame_def
  proof (intro allI impI)
    fix r d' assume y: "y = Inr (r, d')" and rc: "ring_contract api pend" and al: "slab_alloc_ok al"
      and fr: "frame_ok api pend E d"
    obtain res u where u: "u_submit api (drv_uring d) = (res, u)" by force
    note p = ring_contractD(1) [OF rc u]
    have ih: "frame_ok api pend E d'" if "f api al e = Some (Inr (r, d'))" "frame_ok api pend E e" for e
      using IH [OF that(1)] that(2) rc al by (simp add: keeps_frame_def)
    show "frame_ok api pend E d'"
      using eq y u p fr ih dispatch_completions_frame [OF rc al, of E "d\<lparr>drv_uring := u\<rparr>"]
      by (auto simp: ring_contractD(2) [OF rc] split: result.splits if_splits sum.splits)
  qed
qed

text \<open>Retrying a push that gives the ring the operations \<open>E\<close>.\<close>

definition pushes :: "('u \<Rightarrow> nat set) \<Rightarrow> nat set \<Rightarrow> ('u \<Rightarrow> 'u option) \<Rightarrow> bool" where
  "pushes pend E tp \<longleftrightarrow> (\<forall>u v. tp u = Some v \<longrightarrow> pend v = E \<union> pend u)"

definition push_keeps ::
  "'u uring_api \<Rightarrow> ('u \<Rightarrow> nat set) \<Rightarrow> nat set \<Rightarrow> slab_alloc \<Rightarrow> ('u \<Rightarrow> 'u option) \<Rightarrow> ('u, 'd) driver
   \<Rightarrow> ('u, 'd) submitted exec \<Rightarrow> bool" where
  "push_keeps api pend E al tp d y \<longleftrightarrow> (\<forall>r d'. y = Inr (r, d') \<longrightarrow> ring_contract api pend \<longrightarrow> slab_alloc_ok al
     \<longrightarrow> pushes pend E tp \<longrightarrow> frame_ok api pend E d \<longrightarrow> frame_ok api pend (case r of Ok _ \<Rightarrow> {} | Err _ \<Rightarrow> E) d')"

lemma push_until_frame:
  assumes "push_until api al tp d = Some y"
  shows "push_keeps api pend E al tp d y"
proof (rule push_until.raw_induct [where P = "\<lambda>api al tp d y. push_keeps api pend E al tp d y", OF _ assms])
  fix f :: "'a uring_api \<Rightarrow> slab_alloc \<Rightarrow> ('a \<Rightarrow> 'a option) \<Rightarrow> ('a, 'b) driver
      \<Rightarrow> ('a, 'b) submitted exec option"
    and api al tp d y
  assume IH: "\<And>api al tp d y. f api al tp d = Some y \<Longrightarrow> push_keeps api pend E al tp d y"
    and eq: "(case tp (drv_uring d) of
        Some u \<Rightarrow> Some (Inr (Ok (), d\<lparr>drv_uring := u\<rparr>))
      | None \<Rightarrow>
          Option.bind (driver_submit api al d) (\<lambda>r.
            case r of
              Inl p \<Rightarrow> Some (Inl p)
            | Inr (Err e, d') \<Rightarrow> Some (Inr (Err e, d'))
            | Inr (Ok _, d') \<Rightarrow> f api al tp d')) = Some y"
  show "push_keeps api pend E al tp d y"
  proof (cases "tp (drv_uring d)")
    case None
    with eq obtain r where r: "driver_submit api al d = Some r" by (auto simp: bind_eq_Some_conv)
    from driver_submit_frame [OF r, of pend E] eq r None IH show ?thesis
      by (fastforce simp: push_keeps_def keeps_frame_def split: sum.splits prod.splits result.splits)
  qed (use eq in \<open>auto simp: push_keeps_def pushes_def frame_ok_def\<close>)
qed

lemma push_until_rt:
  assumes "push_until api al tp d = Some (Inr (r, d'))" and "ring_contract api pend" and "slab_alloc_ok al"
    and "pushes pend E tp" and "frame_ok api pend E d"
  shows "frame_ok api pend (case r of Ok _ \<Rightarrow> {} | Err _ \<Rightarrow> E) d'"
  using push_until_frame [OF assms(1), of pend E] assms(2-) unfolding push_keeps_def by blast

text \<open>A slab entry taken for an operation that is not in the ring yet.\<close>

lemma insert_frame:
  assumes "slab_alloc_ok la" and "frame_ok api pend {} d" and "ops_insert la (drv_ops d) = Inr (k, o')"
  shows "frame_ok api pend {k} (d\<lparr>drv_ops := o'\<rparr>)" and "k < usize_MAX"
proof -
  have rt: "rt_ok (u_more api) (pend (drv_uring d)) (drv_ops d)" using assms(2) by (simp add: frame_ok_def)
  note ins = ops_insert_ok [OF rt_okD(1) [OF rt] assms(1,3)]
  have "k \<notin> pend (drv_uring d)" using rt_okD(4) [OF rt ins(2)] by simp
  moreover have "rt_ok (u_more api) (insert k (pend (drv_uring d))) o'"
    by (rule rt_ok_upd [OF rt ins(1,3)]) auto
  ultimately show "frame_ok api pend {k} (d\<lparr>drv_ops := o'\<rparr>)" by (simp add: frame_ok_def)
qed (rule ops_insert_ok(4) [OF rt_okD(1) assms(1,3)], use assms(2) in \<open>simp add: frame_ok_def\<close>)

lemma insert_all_frame:
  assumes "slab_alloc_ok la" and "frame_ok api pend {} d" and "insert_all la ss (drv_ops d) = Inr (ks, es, o')"
  shows "frame_ok api pend (set ks) (d\<lparr>drv_ops := o'\<rparr>)" and "sqe_user_data ` set es - {usize_MAX} = set ks"
proof -
  have rt: "rt_ok (u_more api) (pend (drv_uring d)) (drv_ops d)" using assms(2) by (simp add: frame_ok_def)
  note ins = insert_all_ok [OF assms(1) rt_okD(1) [OF rt] assms(3)]
  have "set ks \<inter> pend (drv_uring d) = {}" using ins rt_okD(4) [OF rt refl] by fastforce
  moreover have "rt_ok (u_more api) (set ks \<union> pend (drv_uring d)) o'"
    using ins rt_okD [OF rt] by (auto simp: rt_ok_def owes_iff)
  ultimately show "frame_ok api pend (set ks) (d\<lparr>drv_ops := o'\<rparr>)" by (simp add: frame_ok_def)
  have "map sqe_user_data es = ks" using ins by (simp add: map2_map_map [symmetric] comp_def case_prod_beta map_snd_zip)
  then have "sqe_user_data ` set es = set ks" by (metis set_map)
  moreover have "usize_MAX \<notin> set ks" using ins by auto
  ultimately show "sqe_user_data ` set es - {usize_MAX} = set ks" by simp
qed

lemma pushes_one: "ring_contract api pend \<Longrightarrow> pushes pend ({sqe_user_data s} - {usize_MAX}) (u_push api s)"
  unfolding pushes_def by (auto dest: ring_contractD(3))

lemma pushes_many: "ring_contract api pend \<Longrightarrow> pushes pend (sqe_user_data ` set ss - {usize_MAX}) (u_push_multiple api ss)"
  unfolding pushes_def by (auto dest: ring_contractD(4))

lemma result_cases_unit: "\<forall>y. r \<noteq> Err y \<Longrightarrow> r \<noteq> Ok () \<Longrightarrow> R"
  by (cases r) auto

lemma submit_op_2_rt:
  assumes "ring_contract api pend" and "slab_alloc_ok la" and "slab_alloc_ok ca" and "frame_ok api pend {} d"
    and "submit_op_2 api la ca s d = Some (Inr (k, d'))"
  shows "frame_ok api pend {} d'"
proof -
  from assms(5) obtain o' x where ins: "ops_insert la (drv_ops d) = Inr (k, o')"
    and p: "push_until api ca (u_push api (s\<lparr>sqe_user_data := k\<rparr>)) (d\<lparr>drv_ops := o'\<rparr>) = Some (Inr (Ok x, d'))"
    by (auto simp: submit_op_2_def bind_eq_Some_conv bind_exec_eq_Inr elim: result_cases_unit split: sum.split_asm result.split_asm)
  note i = insert_frame [OF assms(2,4) ins]
  from push_until_rt [OF p assms(1,3), of "{k}"] pushes_one [OF assms(1), of "s\<lparr>sqe_user_data := k\<rparr>"] i
  show ?thesis by simp
qed

lemma submit_op_rt:
  assumes "ring_contract api pend" and "slab_alloc_ok la" and "slab_alloc_ok ca" and "frame_ok api pend {} d"
    and "submit_op api la ca data f d = Some (Inr (Ok op, d'))"
  shows "frame_ok api pend {} d'"
proof -
  from assms(5) obtain k o' s data' where ins: "ops_insert la (drv_ops d) = Inr (k, o')" and f: "f data = Inr (s, data')"
    by (auto simp: submit_op_def split: sum.split_asm)
  with assms(5) have p: "push_until api ca (u_push api (s\<lparr>sqe_user_data := k\<rparr>)) (d\<lparr>drv_ops := o'\<rparr>) = Some (Inr (Ok (), d'))"
    by (auto simp: submit_op_def Let_def bind_eq_Some_conv bind_exec_eq_Inr elim: result_cases_unit split: result.split_asm)
  note i = insert_frame [OF assms(2,4) ins]
  from push_until_rt [OF p assms(1,3), of "{k}"] pushes_one [OF assms(1), of "s\<lparr>sqe_user_data := k\<rparr>"] i
  show ?thesis by simp
qed

lemma submit_ops_rt:
  assumes "ring_contract api pend" and "slab_alloc_ok la" and "slab_alloc_ok ca" and "frame_ok api pend {} d"
    and "submit_ops api la ca ss d = Some (Inr (ks, d'))"
  shows "frame_ok api pend {} d'"
proof -
  from assms(5) obtain es o' x where ins: "insert_all la ss (drv_ops d) = Inr (ks, es, o')"
    and p: "push_until api ca (u_push_multiple api es) (d\<lparr>drv_ops := o'\<rparr>) = Some (Inr (Ok x, d'))"
    by (auto simp: submit_ops_def bind_eq_Some_conv bind_exec_eq_Inr elim: result_cases_unit split: sum.split_asm result.split_asm)
  note i = insert_all_frame [OF assms(2,4) ins]
  from push_until_rt [OF p assms(1,3) _ i(1)] pushes_many [OF assms(1), of es] i(2) show ?thesis by simp
qed

lemma cancel_op_rt:
  assumes "ring_contract api pend" and "slab_alloc_ok ca" and "frame_ok api pend {} d"
    and "cancel_op api ca k d = Some (Inr (r, d'))"
  shows "frame_ok api pend {} d'"
  using assms(3,4) push_until_rt [OF _ assms(1,2), of "u_push api (cancel_sqe k)" d r d' "{}"]
    pushes_one [OF assms(1), of "cancel_sqe k"]
  by (cases r) (auto simp: cancel_op_def cancel_sqe_def split: if_splits)

section \<open>The steps\<close>

definition rt_inv :: "'u uring_api \<Rightarrow> ('u \<Rightarrow> nat set) \<Rightarrow> ('u, 'd) cell \<Rightarrow> bool" where
  "rt_inv api pend c \<longleftrightarrow> \<not> cl_borrowed c \<and> cl_strong c \<noteq> 0 \<and> frame_ok api pend {} (cl_driver c)"

inductive rt_step ::
  "'u uring_api \<Rightarrow> slab_alloc \<Rightarrow> slab_alloc \<Rightarrow> ('d, 'o) updateable \<Rightarrow> ('u, 'd) cell \<Rightarrow> ('u, 'd) cell \<Rightarrow> bool"
  for api :: "'u uring_api" and la ca :: slab_alloc and up :: "('d, 'o) updateable" where
  Submit: "handle_submit_op api la ca data f c = Some (Inr (res, c')) \<Longrightarrow> rt_step api la ca up c c'"
| Submit_2: "handle_submit_op_2 api la ca s c = Some (Inr (k, c')) \<Longrightarrow> rt_step api la ca up c c'"
| Submit_All: "handle_submit_ops api la ca ss c = Some (Inr (ks, c')) \<Longrightarrow> rt_step api la ca up c c'"
| Cancel: "handle_cancel_op api ca k c = Some (Inr (res, c')) \<Longrightarrow> rt_step api la ca up c c'"
| Poll: "handle_poll_op up w op c = Some (Inr (rop, c')) \<Longrightarrow> rt_step api la ca up c c'"
| Poll_2: "handle_poll_op_2 w k c = Some (Inr (r, c')) \<Longrightarrow> rt_step api la ca up c c'"
| Poll_Multi: "handle_poll_multishot_op up (u_more api) w op c = Some (Inr (rop, c')) \<Longrightarrow> rt_step api la ca up c c'"
| Drop_Op: "handle_remove_op (u_more api) op c = Some (Inr (op', c')) \<Longrightarrow> rt_step api la ca up c c'"
| Drop_Op_2: "handle_remove_op_2 (u_more api) k data c = Some (Inr (x, c')) \<Longrightarrow> rt_step api la ca up c c'"
| Register_Buffers: "handle_register_buffers api bufs c = Some (Inr (res, c')) \<Longrightarrow> rt_step api la ca up c c'"
| Unregister_Buffers: "handle_unregister_buffers api c = Some (Inr (res, c')) \<Longrightarrow> rt_step api la ca up c c'"
| Register_Files: "handle_register_files api fds c = Some (Inr (res, c')) \<Longrightarrow> rt_step api la ca up c c'"
| Unregister_Files: "handle_unregister_files api c = Some (Inr (res, c')) \<Longrightarrow> rt_step api la ca up c c'"
| Clone_Handle: "rt_step api la ca up c (c\<lparr>cl_strong := cl_strong c + 1\<rparr>)"
| Drop_Handle: "1 < cl_strong c \<Longrightarrow> handle_drop api ca c = Some (Inr (x, c')) \<Longrightarrow> rt_step api la ca up c c'"
| Thread_Parks: "on_thread_park api True c = Some (Inr (x, c')) \<Longrightarrow> rt_step api la ca up c c'"
| Ring_Readable: "drive_uring_wakes api ca c = Some (Inr (x, c')) \<Longrightarrow> rt_step api la ca up c c'"

inductive rt_reach ::
  "'u uring_api \<Rightarrow> slab_alloc \<Rightarrow> slab_alloc \<Rightarrow> ('d, 'o) updateable \<Rightarrow> ('u, 'd) cell \<Rightarrow> ('u, 'd) cell \<Rightarrow> bool"
  for api la ca up c0 where
  Here: "rt_reach api la ca up c0 c0"
| Next: "rt_reach api la ca up c0 c \<Longrightarrow> rt_step api la ca up c c' \<Longrightarrow> rt_reach api la ca up c0 c'"

lemma borrow_mut_Inr:
  "borrow_mut f c = Some (Inr (x, c')) \<longleftrightarrow>
   \<not> cl_borrowed c \<and> (\<exists>d'. f (cl_driver c) = Some (Inr (x, d')) \<and> c' = c\<lparr>cl_driver := d'\<rparr>)"
  by (auto simp: borrow_mut_def bind_eq_Some_conv bind_exec_eq_Inr)

lemma on_ops_Inr: "on_ops f d = Some (Inr (x, d')) \<longleftrightarrow> (\<exists>o'. f (drv_ops d) = Inr (x, o') \<and> d' = d\<lparr>drv_ops := o'\<rparr>)"
  by (auto simp: on_ops_def bind_exec_eq_Inr)

lemma on_uring_Inr: "on_uring f d = Some (Inr (x, d')) \<longleftrightarrow> d' = d\<lparr>drv_uring := snd (f (drv_uring d))\<rparr> \<and> x = fst (f (drv_uring d))"
  by (auto simp: on_uring_def split: prod.splits)

lemma rt_inv_driver: "rt_inv api pend c \<Longrightarrow> frame_ok api pend {} d \<Longrightarrow> rt_inv api pend (c\<lparr>cl_driver := d\<rparr>)"
  by (simp add: rt_inv_def)

lemma frame_ok_ops:
  "frame_ok api pend {} d \<Longrightarrow> rt_ok (u_more api) (pend (drv_uring d)) o' \<Longrightarrow>
   frame_ok api pend {} (d\<lparr>drv_ops := o'\<rparr>) \<and> frame_ok api pend {} (d\<lparr>drv_ops := o', drv_woken := ws\<rparr>)"
  by (simp add: frame_ok_def)

lemma handle_submit_op_Inr:
  assumes "handle_submit_op api la ca data f c = Some (Inr (res, c'))"
  shows "\<not> cl_borrowed c \<and> (\<exists>op d'. submit_op api la ca data f (cl_driver c) = Some (Inr (Ok op, d')) \<and> c' = c\<lparr>cl_driver := d'\<rparr>)"
proof -
  have "op_drop m op (c\<lparr>cl_driver := d', cl_borrowed := True\<rparr>) \<noteq> Some (Inr y)" for m op d' y
    by (auto simp: op_drop_def handle_remove_op_def borrow_mut_def)
  moreover obtain y where "\<not> cl_borrowed c" "submit_op api la ca data f (cl_driver c) = Some y"
    using assms by (auto simp: handle_submit_op_def bind_eq_Some_conv split: if_splits)
  moreover obtain r d' where "y = Inr (r, d')"
    using assms calculation by (cases y) (auto simp: handle_submit_op_def)
  ultimately show ?thesis using assms
    by (cases r) (auto simp: handle_submit_op_def bind_eq_Some_conv bind_exec_eq_Inr)
qed

lemma handle_call_inv:
  assumes "rt_inv api pend c" and "borrow_mut f c = Some (Inr (x, c'))"
    and "\<And>d'. f (cl_driver c) = Some (Inr (x, d')) \<Longrightarrow> frame_ok api pend {} (cl_driver c) \<Longrightarrow> frame_ok api pend {} d'"
  shows "rt_inv api pend c'"
  using assms by (auto simp: borrow_mut_Inr rt_inv_def)

lemma on_ops_inv:
  assumes "rt_inv api pend c" and "borrow_mut (on_ops f) c = Some (Inr (x, c'))"
    and "\<And>P o1 o2. rt_ok (u_more api) P o1 \<Longrightarrow> f o1 = Inr (x, o2) \<Longrightarrow> rt_ok (u_more api) P o2"
  shows "rt_inv api pend c'"
  by (rule handle_call_inv [OF assms(1,2)]) (auto simp: on_ops_Inr frame_ok_def intro: assms(3))

lemma on_uring_inv:
  assumes "rt_inv api pend c" and "borrow_mut (on_uring f) c = Some (Inr (x, c'))" and "\<And>u. pend (snd (f u)) = pend u"
  shows "rt_inv api pend c'"
  by (rule handle_call_inv [OF assms(1,2)]) (auto simp: on_uring_Inr assms(3))

lemma park_inv:
  assumes "ring_contract api pend" and "rt_inv api pend c" and "on_thread_park api True c = Some (Inr (x, c'))"
  shows "rt_inv api pend c'"
proof -
  obtain res where "borrow_mut (on_uring (u_submit api)) c = Some (Inr (res, c'))"
    using assms(3) by (auto simp: on_thread_park_def with_context_def context_handle_def handle_flush_def bind_eq_Some_conv bind_exec_eq_Inr)
  then show ?thesis by (rule on_uring_inv [OF assms(2)]) (rule ring_contractD(1) [OF assms(1)], rule surjective_pairing)
qed

lemma readable_inv:
  assumes "ring_contract api pend" and "slab_alloc_ok ca" and "rt_inv api pend c" and "drive_uring_wakes api ca c = Some (Inr (x, c'))"
  shows "rt_inv api pend c'"
  by (rule handle_call_inv [OF assms(3) assms(4) [unfolded drive_uring_wakes_def handle_dispatch_completions_def]])
     (auto simp: bind_exec_eq_Inr intro: dispatch_completions_frame [OF assms(1,2)])

lemmas handle_calls = handle_submit_op_2_def handle_submit_ops_def handle_cancel_op_def handle_poll_op_def handle_poll_op_2_def
  handle_poll_multishot_op_def handle_remove_op_def handle_remove_op_2_def handle_register_buffers_def
  handle_unregister_buffers_def handle_register_files_def handle_unregister_files_def
  driver_register_buffers_def driver_unregister_buffers_def driver_register_files_def driver_unregister_files_def

lemma rt_step_inv:
  assumes "rt_step api la ca up c c'" and "rt_inv api pend c" and "ring_contract api pend" and "slab_alloc_ok la" and "slab_alloc_ok ca"
  shows "rt_inv api pend c'"
  using assms(1)
proof cases
  case (Submit data f res)
  then show ?thesis using assms(2) by (auto dest!: handle_submit_op_Inr intro!: rt_inv_driver intro: submit_op_rt [OF assms(3-5)] simp: rt_inv_def)
next
  case (Submit_2 s k)
  show ?thesis by (rule handle_call_inv [OF assms(2) Submit_2 [unfolded handle_calls]]) (rule submit_op_2_rt [OF assms(3-5)])
next
  case (Submit_All ss ks)
  show ?thesis by (rule handle_call_inv [OF assms(2) Submit_All [unfolded handle_calls]]) (rule submit_ops_rt [OF assms(3-5)])
next
  case (Cancel k res)
  show ?thesis by (rule handle_call_inv [OF assms(2) Cancel [unfolded handle_calls]]) (rule cancel_op_rt [OF assms(3,5)])
next
  case (Poll w op rop)
  show ?thesis by (rule on_ops_inv [OF assms(2) Poll [unfolded handle_calls]]) (auto simp: bind_exec_eq_Inr intro: poll_op_rt_ok)
next
  case (Poll_2 w k r)
  show ?thesis by (rule on_ops_inv [OF assms(2) Poll_2 [unfolded handle_calls]]) (rule poll_op_2_rt_ok)
next
  case (Poll_Multi w op rop)
  show ?thesis by (rule handle_call_inv [OF assms(2) Poll_Multi [unfolded handle_calls]])
    (auto simp: bind_exec_eq_Inr frame_ok_def intro: poll_multishot_rt_ok)
next
  case (Drop_Op op op')
  show ?thesis by (rule on_ops_inv [OF assms(2) Drop_Op [unfolded handle_calls]]) (rule remove_op_rt_ok(1))
next
  case (Drop_Op_2 k data x)
  show ?thesis by (rule on_ops_inv [OF assms(2) Drop_Op_2 [unfolded handle_calls]]) (auto simp: bind_exec_eq_Inr intro: remove_op_rt_ok(2))
next
  case (Register_Buffers bufs res)
  show ?thesis by (rule on_uring_inv [OF assms(2) Register_Buffers [unfolded handle_calls]]) (rule ring_contractD [OF assms(3)])
next
  case (Unregister_Buffers res)
  show ?thesis by (rule on_uring_inv [OF assms(2) Unregister_Buffers [unfolded handle_calls]]) (rule ring_contractD [OF assms(3)])
next
  case (Register_Files fds res)
  show ?thesis by (rule on_uring_inv [OF assms(2) Register_Files [unfolded handle_calls]]) (rule ring_contractD [OF assms(3)])
next
  case (Unregister_Files res)
  show ?thesis by (rule on_uring_inv [OF assms(2) Unregister_Files [unfolded handle_calls]]) (rule ring_contractD [OF assms(3)])
next
  case (Thread_Parks x)
  then show ?thesis by (rule park_inv [OF assms(3,2)])
next
  case (Ring_Readable x)
  then show ?thesis by (rule readable_inv [OF assms(3,5,2)])
qed (use assms(2) in \<open>auto simp: rt_inv_def handle_drop_def\<close>)

lemma rt_reach_inv:
  assumes "rt_reach api la ca up c0 c" and "rt_inv api pend c0" and "ring_contract api pend" and "slab_alloc_ok la" and "slab_alloc_ok ca"
  shows "rt_inv api pend c"
  using assms by induction (auto intro: rt_step_inv)

lemma rt_inv_new: "pend u = {} \<Longrightarrow> n \<noteq> 0 \<Longrightarrow>
   rt_inv api pend \<lparr>cl_driver = \<lparr>drv_ops = ops_new, drv_uring = u, drv_woken = ws\<rparr>, cl_borrowed = False, cl_strong = n\<rparr>"
  by (simp add: rt_inv_def frame_ok_def rt_ok_new)

end
