(* ===== verification/Runtime_Progress.thy ===== *)
theory Runtime_Progress
  imports Runtime_System
begin

text \<open>
  What holds in every reachable state of the runtime: a round never panics, rounds settle, and the
  runtime can be shut down. The hypotheses are about the kernel and the slab only; what the driver
  needs to be true of its own state follows from the invariant.
\<close>

section \<open>A ring for the witnesses\<close>

text \<open>The list of the user data the kernel holds; a read of the completions answers all of them.\<close>

definition ledger_cqe :: "nat \<Rightarrow> cqe" where
  "ledger_cqe k = \<lparr>cq_user_data = k, cq_result = 5, cq_flags = 0\<rparr>"

definition ledger_pend :: "nat list \<Rightarrow> nat set" where
  "ledger_pend u = set u - {usize_MAX}"

definition ledger_api :: "nat list uring_api" where
  "ledger_api = \<lparr>u_submit = (\<lambda>u. (Ok (length u), u)), u_submit_and_wait = (\<lambda>n u. (Ok (length u), u)),
     u_push = (\<lambda>s u. Some (sqe_user_data s # u)), u_push_multiple = (\<lambda>ss u. Some (map sqe_user_data ss @ u)),
     u_sq_is_empty = (\<lambda>u. True), u_sq_sync = (\<lambda>u. u),
     u_completion = (\<lambda>u. (map ledger_cqe (filter (\<lambda>k. k \<noteq> usize_MAX) (remdups u)), [])),
     u_register_buffers = (\<lambda>b u. (Ok (), u)), u_unregister_buffers = (\<lambda>u. (Ok (), u)),
     u_register_files = (\<lambda>f u. (Ok (), u)), u_unregister_files = (\<lambda>u. (Ok (), u)),
     u_more = demo_more, u_buffer_select = (\<lambda>f. None)\<rparr>"

lemma ledger_cqe_simps [simp]: "cq_user_data (ledger_cqe k) = k" "\<not> demo_more (cq_flags (ledger_cqe k))"
  by (simp_all add: ledger_cqe_def demo_more_def)

lemma deliver_ledger:
  "distinct ks \<Longrightarrow> set ks \<subseteq> P \<Longrightarrow> usize_MAX \<notin> set ks \<Longrightarrow> deliver demo_more (map ledger_cqe ks) P = Some (P - set ks)"
proof (induction ks arbitrary: P)
  case (Cons k ks)
  have "set ks \<subseteq> P - {k}" "P - {k} - set ks = P - set (k # ks)" using Cons.prems by auto
  then have "deliver demo_more (map ledger_cqe ks) (P - {k}) = Some (P - set (k # ks))"
    using Cons.IH [of "P - {k}"] Cons.prems by simp
  with Cons.prems show ?case by simp
qed simp

lemma ledger_delivers:
  "deliver demo_more (map ledger_cqe (filter (\<lambda>k. k \<noteq> usize_MAX) (remdups u))) (ledger_pend u) = Some (ledger_pend [])"
proof -
  have "ledger_pend u - set (filter (\<lambda>k. k \<noteq> usize_MAX) (remdups u)) = ledger_pend []" by (auto simp: ledger_pend_def)
  then show ?thesis using deliver_ledger [of "filter (\<lambda>k. k \<noteq> usize_MAX) (remdups u)" "ledger_pend u"]
    by (auto simp: ledger_pend_def)
qed

lemma ledger_contract: "ring_contract ledger_api ledger_pend"
  by (auto simp: ring_contract_def ledger_api_def ledger_delivers) (auto simp: ledger_pend_def)



section \<open>Rounds never panic\<close>

text \<open>The cell of a new driver over the ring \<open>u\<close>, with \<open>n\<close> strong handles.\<close>

definition fresh_cell :: "'u \<Rightarrow> nat \<Rightarrow> ('u, 'd) cell" where
  "fresh_cell u n = \<lparr>cl_driver = \<lparr>drv_ops = ops_new, drv_uring = u, drv_woken = []\<rparr>, cl_borrowed = False, cl_strong = n\<rparr>"

lemma fresh_inv: "pend u = {} \<Longrightarrow> n \<noteq> 0 \<Longrightarrow> rt_inv api pend (fresh_cell u n)"
  by (simp add: fresh_cell_def rt_inv_new)

lemma rt_inv_owes:
  assumes "rt_inv api pend c"
  shows "\<not> cl_borrowed c" and "ops_wf (drv_ops (cl_driver c))"
    and "owes (u_more api) (pend (drv_uring (cl_driver c))) (drv_ops (cl_driver c))" and "cl_strong c \<noteq> 0"
  using assms rt_okD(1,2) by (auto simp: rt_inv_def frame_ok_def)

lemma readable_returns:
  assumes rc: "ring_contract api pend" and al: "slab_alloc_ok ca" "room_for ca N" and inv: "rt_inv api pend c"
    and "card (fmdom' (completions (drv_ops (cl_driver c)))) + length (fst (u_completion api (drv_uring (cl_driver c)))) \<le> N"
  shows "\<exists>c'. drive_uring_wakes api ca c = Some (Inr ((), c'))
    \<and> waits_kept (drv_ops (cl_driver c)) (drv_ops (cl_driver c')) (drv_woken (cl_driver c'))"
proof -
  let ?d = "cl_driver c"
  obtain cqes u where comp: "u_completion api (drv_uring ?d) = (cqes, u)" by force
  note i = rt_inv_owes [OF inv]
  from dispatch_owed [OF al, of "?d\<lparr>drv_uring := u\<rparr>" api "pend (drv_uring ?d)" cqes "pend u"] i(2,3) assms(5) comp
    ring_contractD(5) [OF rc comp]
  obtain d' where "dispatch_cqes api ca cqes (?d\<lparr>drv_uring := u\<rparr>) = Inr d'" "waits_kept (drv_ops ?d) (drv_ops d') (drv_woken d')"
    by auto
  then show ?thesis using comp i(1)
    by (intro exI [of _ "c\<lparr>cl_driver := d'\<rparr>"])
       (simp add: drive_uring_wakes_def handle_dispatch_completions_def borrow_mut_def dispatch_completions_def)
qed

text \<open>
  C7. In every state the runtime reaches from a new driver, by any interleaving of submissions,
  cancellations, polls, drops, registrations, parks and rounds of dispatching, the operations in
  flight in the slab are exactly the operations the kernel owes a final completion, the final
  completion of a multishot operation is the last of its queue, the driver is not borrowed and its
  handles can be upgraded; and when the completion slab has room for what the ring holds, the next
  round of dispatching returns without a panic, every task it does not wake keeps waiting and every
  task it wakes finds an answer of its operation.
\<close>

theorem runtime_owes_exactly:
  assumes "rt_reach api la ca up (fresh_cell u n) c" and "pend u = {}" and "n \<noteq> 0"
    and "ring_contract api pend" and "slab_alloc_ok la" and "slab_alloc_ok ca" and "room_for ca N"
    and "card (fmdom' (completions (drv_ops (cl_driver c)))) + length (fst (u_completion api (drv_uring (cl_driver c)))) \<le> N"
  shows "{k. \<exists>a. abs_ops (drv_ops (cl_driver c)) k = Some a \<and> in_flight (u_more api) a} = pend (drv_uring (cl_driver c))
    \<and> (\<forall>k q. abs_ops (drv_ops (cl_driver c)) k = Some (AQueue q) \<longrightarrow> q \<noteq> [] \<and> (\<forall>x \<in> set (butlast q). u_more api (cr_flags x)))
    \<and> \<not> cl_borrowed c \<and> upgrade c
    \<and> (\<exists>c'. drive_uring_wakes api ca c = Some (Inr ((), c'))
         \<and> waits_kept (drv_ops (cl_driver c)) (drv_ops (cl_driver c')) (drv_woken (cl_driver c')))"
proof -
  have inv: "rt_inv api pend c" by (rule rt_reach_inv [OF assms(1) fresh_inv [where pend = pend, OF assms(2,3)] assms(4-6)])
  note i = rt_inv_owes [OF inv]
  have "queue_ok (u_more api) (AQueue q)" if "abs_ops (drv_ops (cl_driver c)) k = Some (AQueue q)" for k q
    using inv that by (auto simp: rt_inv_def frame_ok_def dest: rt_okD(3))
  then have q: "\<forall>k q. abs_ops (drv_ops (cl_driver c)) k = Some (AQueue q) \<longrightarrow> q \<noteq> [] \<and> (\<forall>x \<in> set (butlast q). u_more api (cr_flags x))"
    by (simp add: all_more_def)
  have "{k. \<exists>a. abs_ops (drv_ops (cl_driver c)) k = Some a \<and> in_flight (u_more api) a} = pend (drv_uring (cl_driver c))"
    using i(3) by (auto simp: owes_def)
  with q i(1,4) readable_returns [OF assms(4,6,7) inv assms(8)] show ?thesis by (simp add: upgrade_def)
qed

text \<open>A task submits a nop and polls it with waker 7.\<close>

definition ledger_ops :: "nat list ops" where
  "ledger_ops = \<lparr>lifecycle = fmupd 0 (Waiting 7) (fmupd 0 Submitted fmempty), completions = fmempty\<rparr>"

definition ledger_cell :: "nat \<Rightarrow> (nat list, nat list) cell" where
  "ledger_cell n = \<lparr>cl_driver = \<lparr>drv_ops = ledger_ops, drv_uring = [0], drv_woken = []\<rparr>, cl_borrowed = False, cl_strong = n\<rparr>"

lemma ledger_reach: "rt_reach ledger_api (first_vacant 4) (first_vacant 4) up (fresh_cell [] n) (ledger_cell n)"
proof -
  let ?c1 = "\<lparr>cl_driver = \<lparr>drv_ops = \<lparr>lifecycle = fmupd 0 Submitted fmempty, completions = fmempty\<rparr>, drv_uring = [0], drv_woken = []\<rparr>,
    cl_borrowed = False, cl_strong = n\<rparr> :: (nat list, nat list) cell"
  have "handle_submit_op_2 ledger_api (first_vacant 4) (first_vacant 4) (sqe_build OpNop) (fresh_cell [] n) = Some (Inr (0, ?c1))"
    by (simp add: handle_submit_op_2_def borrow_mut_def submit_op_2_def ops_insert_def slab_insert_def first_vacant_def
        fresh_cell_def ops_new_def upt_conv_Cons push_until.simps ledger_api_def)
  moreover have "handle_poll_op_2 7 0 ?c1 = Some (Inr (Pending, ledger_cell n))"
    by (simp add: handle_poll_op_2_def borrow_mut_def on_ops_def poll_op_2_def put_lc_def ledger_cell_def ledger_ops_def)
  ultimately show ?thesis by (meson rt_reach.intros rt_step.Submit_2 rt_step.Poll_2)
qed


lemma ledger_cell_simps [simp]: "drv_ops (cl_driver (ledger_cell n)) = ledger_ops" "drv_uring (cl_driver (ledger_cell n)) = [0]"
  "completions ledger_ops = fmempty"
  by (simp_all add: ledger_cell_def ledger_ops_def)

lemma room_4: "room_for (first_vacant 4) 1"
  by (auto simp: room_for_def first_vacant_def find_None_iff upt_conv_Cons)

theorem runtime_owes_exactly_witness:
  "\<exists>c'. drive_uring_wakes ledger_api (first_vacant 4) (ledger_cell 2) = Some (Inr ((), c'))
    \<and> waits_kept ledger_ops (drv_ops (cl_driver c')) (drv_woken (cl_driver c'))"
  using runtime_owes_exactly [OF ledger_reach [of demo_up 2] _ _ ledger_contract demo_alloc demo_alloc room_4]
  by (simp add: ledger_pend_def ledger_api_def usize_MAX_def)

section \<open>Rounds settle\<close>



section \<open>Shutdown\<close>










end
