(* ===== verification/Request_Layers.thy ===== *)
theory Request_Layers
  imports Runtime_Properties Io_Properties
begin

text \<open>
  A request through the layers: submitted through the context, polled, flushed by parking the
  thread, completed by a round of dispatching, polled again. The sources of files and sockets are
  modelled with \<open>await_request\<close>, which takes what the kernel does with an entry as a function; the
  run through the context, the cell, the driver and the slabs refines it, panics included.
\<close>

section \<open>Polling a request\<close>

lemma op_poll_via_poll_op_2:
  assumes "\<not> cl_borrowed c" and "cl_strong c \<noteq> 0" and "op_data op = Some data"
    and "handle_poll_op_2 w (op_index op) c = Some (Inr (r, c'))"
  shows "op_poll co w op c = (case r of
      Pending \<Rightarrow> Some (Inr ((Pending, op), c'))
    | Ready e \<Rightarrow> Some (bind_exec (co_complete co data (cqe_result_from e)) (\<lambda>out.
        Inr ((Ready out, op\<lparr>op_data := None\<rparr>), c'))))"
proof -
  from assms(1,4) obtain o2 where "poll_op_2 w (op_index op) (drv_ops (cl_driver c)) = Inr (r, o2)"
    "c' = c\<lparr>cl_driver := (cl_driver c)\<lparr>drv_ops := o2\<rparr>\<rparr>"
    by (auto simp: handle_poll_op_2_def borrow_mut_def on_ops_def bind_exec_eq_Inr)
  with assms(1-3) poll_op_via_poll_op_2 [OF assms(3), of co w "drv_ops (cl_driver c)"] show ?thesis
    by (auto simp: op_poll_def upgrade_def handle_poll_op_def borrow_mut_def on_ops_def bind_exec_def split: poll.splits sum.splits)
qed

text \<open>The first poll waits and the round wakes it.\<close>

lemma first_poll_and_round:
  assumes st: "\<not> cl_borrowed c" "cl_strong c \<noteq> 0" and e: "e \<in> set cqes" "cq_user_data e = k"
    and fb: "final_batch (u_more api) ((abs_ops (drv_ops (cl_driver c)))(k \<mapsto> AInFlight (Some w))) cqes"
    and o1: "ops_wf o1" "abs_ops o1 = (abs_ops (drv_ops (cl_driver c)))(k \<mapsto> AInFlight None)"
      "fst (u_completion api (snd (u_submit api ring))) = cqes"
  obtains c2 c3 c4 where
    "handle_poll_op_2 w k (c\<lparr>cl_driver := (cl_driver c)\<lparr>drv_ops := o1, drv_uring := ring\<rparr>\<rparr>) = Some (Inr (Pending, c2))"
    "run_turns api ca True [Park, Readable] c2 = Some (Inr ((), c3))" "handle_poll_op_2 w k c3 = Some (Inr (Ready e, c4))"
    "\<not> cl_borrowed c3" "cl_strong c3 \<noteq> 0" "w \<in> set (drv_woken (cl_driver c4))" "abs_ops (drv_ops (cl_driver c4)) k = None"
    "\<And>j. j \<notin> cq_user_data ` set cqes \<Longrightarrow> abs_ops (drv_ops (cl_driver c4)) j = abs_ops (drv_ops (cl_driver c)) j"
proof -
  let ?c1 = "c\<lparr>cl_driver := (cl_driver c)\<lparr>drv_ops := o1, drv_uring := ring\<rparr>\<rparr>"
  obtain o2 where p1: "handle_poll_op_2 w k ?c1 = Some (Inr (Pending, ?c1\<lparr>cl_driver := (cl_driver ?c1)\<lparr>drv_ops := o2\<rparr>\<rparr>))"
      and o2: "ops_wf o2" "abs_ops o2 = (abs_ops o1)(k \<mapsto> AInFlight (Some w))"
    using poll_in_flight_cell [of ?c1 k None w] st(1) o1 by auto
  let ?c2 = "?c1\<lparr>cl_driver := (cl_driver ?c1)\<lparr>drv_ops := o2\<rparr>\<rparr>"
  have ab: "abs_ops o2 = (abs_ops (drv_ops (cl_driver c)))(k \<mapsto> AInFlight (Some w))" using o2(2) o1(2) by simp
  obtain d where t: "run_turns api ca True [Park, Readable] ?c2 = Some (Inr ((), ?c2\<lparr>cl_driver := d\<rparr>))" "ops_wf (drv_ops d)"
      and wk: "drv_woken d = drv_woken (cl_driver c) @ wakers_of (abs_ops o2) cqes"
      and cm: "\<And>e. e \<in> set cqes \<Longrightarrow> abs_ops (drv_ops d) (cq_user_data e) = Some (ACompleted e)"
      and ot: "\<And>j. j \<notin> cq_user_data ` set cqes \<Longrightarrow> abs_ops (drv_ops d) j = abs_ops o2 j"
    using round_batch [of ?c2 api cqes ca] st(1) o2(1) o1(3) fb ab by auto
  let ?c3 = "?c2\<lparr>cl_driver := d\<rparr>"
  obtain o4 where p2: "handle_poll_op_2 w k ?c3 = Some (Inr (Ready e, ?c3\<lparr>cl_driver := d\<lparr>drv_ops := o4\<rparr>\<rparr>))"
      "abs_ops o4 = (abs_ops (drv_ops d))(k := None)"
    using poll_completed_cell [of ?c3 k e w] st(1) t(2) cm [OF e(1)] e(2) by auto
  have wo: "w \<in> set (drv_woken d)" using wk e by (force simp: wakers_of_def ab)
  have "k \<in> cq_user_data ` set cqes" using e by auto
  then have oth: "j \<notin> cq_user_data ` set cqes \<Longrightarrow> abs_ops o4 j = abs_ops (drv_ops (cl_driver c)) j" for j
    using p2(2) ot ab by auto
  show thesis by (rule that [OF p1 t(1) p2(1)]) (use st wo p2(2) oth in simp_all)
qed

section \<open>The run\<close>

text \<open>
  \<open>kern\<close> is what the kernel writes into the memory of the data, which the handle of the operation
  owns, before the completion is posted.
\<close>

definition request_run ::
  "'u uring_api \<Rightarrow> slab_alloc \<Rightarrow> slab_alloc \<Rightarrow> waker \<Rightarrow> ('d \<Rightarrow> 'd) \<Rightarrow> ('d, 'o) request
   \<Rightarrow> ('u, 'd, ('o poll \<times> 'o poll, io_error) result) on_cell" where
  "request_run api la ca w kern rq c =
     Option.bind (submit_request api la ca True rq c) (\<lambda>r. case r of Inl p \<Rightarrow> Some (Inl p)
       | Inr (Err e, c1) \<Rightarrow> Some (Inr (Err e, c1)) | Inr (Ok op, c1) \<Rightarrow>
     Option.bind (op_poll (request_completable rq) w op c1) (\<lambda>r. case r of Inl p \<Rightarrow> Some (Inl p) | Inr ((p1, op1), c2) \<Rightarrow>
     Option.bind (run_turns api ca True [Park, Readable] c2) (\<lambda>r. case r of Inl p \<Rightarrow> Some (Inl p) | Inr (_, c3) \<Rightarrow>
     Option.bind (op_poll (request_completable rq) w (op1\<lparr>op_data := map_option kern (op_data op1)\<rparr>) c3) (\<lambda>r.
       case r of Inl p \<Rightarrow> Some (Inl p) | Inr ((p2, op2), c4) \<Rightarrow> Some (Inr (Ok (p1, p2), c4))))))"

text \<open>
  Room in the slab and in the queue, and a batch of last completions with the request's own: \<open>e\<close>
  is the completion the kernel posts for the entry that was pushed.
\<close>

definition request_served ::
  "'u uring_api \<Rightarrow> slab_alloc \<Rightarrow> waker \<Rightarrow> ('d, 'o) request \<Rightarrow> ('u, 'd) cell \<Rightarrow> nat \<Rightarrow> cqe list \<Rightarrow> cqe \<Rightarrow> bool" where
  "request_served api la w rq c k cqes e \<longleftrightarrow>
     slab_alloc_ok la \<and> ops_wf (drv_ops (cl_driver c)) \<and> \<not> cl_borrowed c \<and> cl_strong c \<noteq> 0
     \<and> e \<in> set cqes \<and> cq_user_data e = k
     \<and> (\<exists>o1. ops_insert la (drv_ops (cl_driver c)) = Inr (k, o1))
     \<and> (\<forall>s data. rq_sqe rq (rq_data rq) = Inr (s, data) \<longrightarrow>
          (\<exists>ring. u_push api (s\<lparr>sqe_user_data := k\<rparr>) (drv_uring (cl_driver c)) = Some ring
             \<and> fst (u_completion api (snd (u_submit api ring))) = cqes))
     \<and> final_batch (u_more api) ((abs_ops (drv_ops (cl_driver c)))(k \<mapsto> AInFlight (Some w))) cqes"

lemma submit_request_cases:
  assumes "request_served api la w rq c k cqes e"
  shows "rq_sqe rq (rq_data rq) = Inl p \<Longrightarrow> submit_request api la ca True rq c = Some (Inl p)"
    and "rq_sqe rq (rq_data rq) = Inr (s, data) \<Longrightarrow> \<exists>o1 ring. ops_wf o1 \<and> abs_ops o1 = (abs_ops (drv_ops (cl_driver c)))(k \<mapsto> AInFlight None)
      \<and> fst (u_completion api (snd (u_submit api ring))) = cqes
      \<and> submit_request api la ca True rq c
        = Some (Inr (Ok (op_new data k), c\<lparr>cl_driver := (cl_driver c)\<lparr>drv_ops := o1, drv_uring := ring\<rparr>\<rparr>))"
proof -
  from assms obtain o1 where st: "slab_alloc_ok la" "ops_wf (drv_ops (cl_driver c))" "\<not> cl_borrowed c"
    and ins: "ops_insert la (drv_ops (cl_driver c)) = Inr (k, o1)" by (auto simp: request_served_def)
  show "submit_request api la ca True rq c = Some (Inl p)" if "rq_sqe rq (rq_data rq) = Inl p"
    using that st(3) ins by (simp add: submit_request_def handle_submit_op_def submit_op_def)
  assume s: "rq_sqe rq (rq_data rq) = Inr (s, data)"
  with assms obtain ring where push: "u_push api (s\<lparr>sqe_user_data := k\<rparr>) (drv_uring (cl_driver c)) = Some ring"
    "fst (u_completion api (snd (u_submit api ring))) = cqes" by (auto simp: request_served_def)
  have "submit_request api la ca True rq c
      = Some (Inr (Ok (op_new data k), c\<lparr>cl_driver := (cl_driver c)\<lparr>drv_ops := o1, drv_uring := ring\<rparr>\<rparr>))"
    using submit_op_room(1) [where f = "rq_sqe rq", OF st(1,2) ins s push(1), of ca] st(3)
    by (simp add: submit_request_def handle_submit_op_def)
  with push(2) ops_insert_ok(1,3) [OF st(2,1) ins]
  show "\<exists>o1 ring. ops_wf o1 \<and> abs_ops o1 = (abs_ops (drv_ops (cl_driver c)))(k \<mapsto> AInFlight None)
      \<and> fst (u_completion api (snd (u_submit api ring))) = cqes
      \<and> submit_request api la ca True rq c
        = Some (Inr (Ok (op_new data k), c\<lparr>cl_driver := (cl_driver c)\<lparr>drv_ops := o1, drv_uring := ring\<rparr>\<rparr>))"
    by blast
qed

text \<open>
  The runtime refines \<open>await_request\<close>: a request that is submitted, polled, flushed, completed
  by the kernel and polled again gives what awaiting it gives when the kernel answers its entry with
  that completion and writes the same into its memory, a panic in building the entry or in
  completing the data included; the first poll waits, the task is woken, the index of the request is
  free again and no operation without a completion in the batch changed.
\<close>

theorem request_run_refines_await:
  assumes "request_served api la w rq c k cqes e"
    and "\<And>s data. rq_sqe rq (rq_data rq) = Inr (s, data) \<Longrightarrow> perform (sqe_op s) data st = (cqe_result_from e, kern data, st')"
  shows "case await_request perform rq st of
      Inl p \<Rightarrow> request_run api la ca w kern rq c = Some (Inl p)
    | Inr (out, st'') \<Rightarrow> st'' = st' \<and> (\<exists>c4. request_run api la ca w kern rq c = Some (Inr (Ok (Pending, Ready out), c4))
        \<and> w \<in> set (drv_woken (cl_driver c4)) \<and> abs_ops (drv_ops (cl_driver c4)) k = None
        \<and> (\<forall>j. j \<notin> cq_user_data ` set cqes \<longrightarrow> abs_ops (drv_ops (cl_driver c4)) j = abs_ops (drv_ops (cl_driver c)) j))"
proof (cases "rq_sqe rq (rq_data rq)")
  case (Inl p)
  with submit_request_cases(1) [OF assms(1) Inl, of ca] show ?thesis by (simp add: await_request_def request_run_def)
next
  case (Inr y)
  obtain s data where y: "y = (s, data)" by force
  note kern = assms(2) [OF Inr [unfolded y]]
  have sv: "\<not> cl_borrowed c" "cl_strong c \<noteq> 0" "e \<in> set cqes" "cq_user_data e = k"
    "final_batch (u_more api) ((abs_ops (drv_ops (cl_driver c)))(k \<mapsto> AInFlight (Some w))) cqes"
    using assms(1) by (auto simp: request_served_def)
  from submit_request_cases(2) [OF assms(1) Inr [unfolded y], of ca] obtain o1 ring where
    o1: "ops_wf o1" "abs_ops o1 = (abs_ops (drv_ops (cl_driver c)))(k \<mapsto> AInFlight None)"
      "fst (u_completion api (snd (u_submit api ring))) = cqes"
    and sub: "submit_request api la ca True rq c
        = Some (Inr (Ok (op_new data k), c\<lparr>cl_driver := (cl_driver c)\<lparr>drv_ops := o1, drv_uring := ring\<rparr>\<rparr>))" by blast
  let ?c1 = "c\<lparr>cl_driver := (cl_driver c)\<lparr>drv_ops := o1, drv_uring := ring\<rparr>\<rparr>"
  obtain c2 c3 c4 where p1: "handle_poll_op_2 w k ?c1 = Some (Inr (Pending, c2))"
    and t: "run_turns api ca True [Park, Readable] c2 = Some (Inr ((), c3))"
    and p2: "handle_poll_op_2 w k c3 = Some (Inr (Ready e, c4))" "\<not> cl_borrowed c3" "cl_strong c3 \<noteq> 0"
    and fin: "w \<in> set (drv_woken (cl_driver c4))" "abs_ops (drv_ops (cl_driver c4)) k = None"
      "\<And>j. j \<notin> cq_user_data ` set cqes \<Longrightarrow> abs_ops (drv_ops (cl_driver c4)) j = abs_ops (drv_ops (cl_driver c)) j"
    by (rule first_poll_and_round [OF sv o1, of ca]) blast
  have "\<not> cl_borrowed ?c1" "cl_strong ?c1 \<noteq> 0" using sv by simp_all
  from op_poll_via_poll_op_2 [OF this, of "op_new data k" data w Pending c2 "request_completable rq"] p1
  have q1: "op_poll (request_completable rq) w (op_new data k) ?c1 = Some (Inr ((Pending, op_new data k), c2))"
    by (simp add: op_new_def)
  from op_poll_via_poll_op_2 [OF p2(2,3), of "op_new (kern data) k" "kern data" w "Ready e" c4 "request_completable rq"] p2(1)
  have q2: "op_poll (request_completable rq) w (op_new (kern data) k) c3
      = Some (bind_exec (rq_complete rq (kern data) (cqe_result_from e)) (\<lambda>out. Inr ((Ready out, (op_new (kern data) k)\<lparr>op_data := None\<rparr>), c4)))"
    by (simp add: op_new_def request_completable_def)
  have q1': "(op_new data k)\<lparr>op_data := map_option kern (op_data (op_new data k))\<rparr> = op_new (kern data) k"
    by (simp add: op_new_def)
  show ?thesis
    using sub q1 t q2 kern y Inr fin q1'
    by (cases "rq_complete rq (kern data) (cqe_result_from e)") (simp_all del: run_turns.simps add: request_run_def await_request_def)
qed

definition accept_cell :: "(bool, accept_data) cell" where
  "accept_cell = \<lparr>cl_driver = \<lparr>drv_ops = ops_new, drv_uring = True, drv_woken = []\<rparr>, cl_borrowed = False, cl_strong = 2\<rparr>"

text \<open>The kernel writes a peer's address of two bytes.\<close>

definition demo_peer :: "accept_data \<Rightarrow> accept_data" where
  "demo_peer d = d\<lparr>ac_socketaddr := (ac_socketaddr d)\<lparr>box_val := \<lparr>sa_storage = [2, 0], sa_len = 2\<rparr>\<rparr>\<rparr>"

definition demo_as_socket :: "sock_addr \<Rightarrow> socket_addr option" where
  "demo_as_socket a = (if sa_len a = 2 then Some (V4 7 80) else None)"

lemma accept_served: "request_served demo_api (first_vacant 4) 7 (accept_op demo_as_socket 64 3) accept_cell 0 [demo_cqe 0] (demo_cqe 0)"
proof -
  obtain o1 where "ops_insert (first_vacant 4) (drv_ops (cl_driver accept_cell)) = Inr (0, o1)"
    by (auto simp: ops_insert_def slab_insert_def first_vacant_def accept_cell_def ops_new_def upt_conv_Cons)
  then show ?thesis
    by (auto simp: request_served_def demo_alloc final_batch_def demo_api_def accept_cell_def demo_cqe_def demo_more_def usize_MAX_def
        ops_wf_new)
qed

theorem request_run_refines_await_witness:
  "\<exists>c4. request_run demo_api (first_vacant 4) (first_vacant 4) 7 demo_peer (accept_op demo_as_socket 64 3) accept_cell
      = Some (Inr (Ok (Pending, Ready (Ok (\<lparr>so_fd = shared_fd_new 5\<rparr>, Some (V4 7 80)))), c4)) \<and> 7 \<in> set (drv_woken (cl_driver c4))"
proof -
  have "await_request (\<lambda>op d st. (cqe_result_from (demo_cqe 0), demo_peer d, st)) (accept_op demo_as_socket 64 3) ()
      = Inr (Ok (\<lparr>so_fd = shared_fd_new 5\<rparr>, Some (V4 7 80)), ())"
    by (simp add: await_request_def accept_op_def entry_of_def accept_complete_def demo_peer_def demo_as_socket_def
        cqe_result_from_def demo_cqe_def bind_result_def word_sle_eq)
  with request_run_refines_await [OF accept_served, of "\<lambda>op d st. (cqe_result_from (demo_cqe 0), demo_peer d, st)" "()" demo_peer "()" "first_vacant 4"]
  show ?thesis by auto
qed

end
