(* ===== verification/Multishot_Layers.thy ===== *)
theory Multishot_Layers
  imports Runtime_Progress Request_Layers Net_Types
begin

text \<open>
  A zero-copy send through the layers. Its future is polled as a multishot operation: the kernel
  posts one or more completions that announce more and a final one when it no longer uses the
  buffer. The locale \<open>zc_counter\<close> of the two zero-copy sends is extended with the whole run.
\<close>

section \<open>The size of the completion slab\<close>

text \<open>The completion slab holds exactly the queued completions.\<close>

fun queued :: "'d abs_op option \<Rightarrow> nat" where
  "queued (Some (AQueue q)) = length q"
| "queued _ = 0"

lemma queued_pending:
  "queued (abs_ops o1 k) = length (owns o1 k)"
  by (auto simp: abs_ops_def pending_def entries_at_def owns_def split: option.splits lifecycle.splits)

lemma card_completions:
  assumes "ops_wf o1"
  shows "card (fmdom' (completions o1)) = (\<Sum>k\<in>fmdom' (lifecycle o1). queued (abs_ops o1 k))"
proof -
  have none: "owns o1 k = []" if "k \<notin> fmdom' (lifecycle o1)" for k
    using that by (auto simp: owns_def fmlookup_dom'_iff split: option.splits)
  have "distinct (owns o1 k)" for k
  proof (cases "\<exists>ix. fmlookup (lifecycle o1) k = Some (CompletionList ix)")
    case True
    then show ?thesis using ops_wfD(1) [OF assms] list_rep_distinct by blast
  qed (auto simp: owns_def split: option.splits lifecycle.splits)
  then have len: "card (set (owns o1 k)) = queued (abs_ops o1 k)" for k
    by (simp add: queued_pending distinct_card)
  have "fmdom' (completions o1) = (\<Union>k\<in>fmdom' (lifecycle o1). set (owns o1 k))"
    using assms none unfolding ops_wf_def by fastforce
  then show ?thesis
    using assms card_UN_disjoint [of "fmdom' (lifecycle o1)" "\<lambda>k. set (owns o1 k)"] by (auto simp: len ops_wf_def)
qed

lemma card_completions_upd:
  assumes "ops_wf o1" and "ops_wf o2" and "abs_ops o2 = (abs_ops o1)(k := a)" and "queued a = 0"
  shows "card (fmdom' (completions o2)) \<le> card (fmdom' (completions o1))"
proof -
  let ?S = "fmdom' (lifecycle o1) \<union> fmdom' (lifecycle o2)"
  have dom: "queued (abs_ops ol j) = 0" if "j \<notin> fmdom' (lifecycle ol)" for j and ol :: "'a ops"
    using that by (simp add: abs_ops_def fmlookup_dom'_iff)
  have "card (fmdom' (completions ol)) = (\<Sum>j\<in>?S. queued (abs_ops ol j))"
    if "ops_wf ol" "fmdom' (lifecycle ol) \<subseteq> ?S" for ol :: "'a ops"
    unfolding card_completions [OF that(1)] using that(2) dom by (intro sum.mono_neutral_left) auto
  with assms show ?thesis by (simp add: sum_mono)
qed

section \<open>One operation in a batch\<close>

text \<open>What a batch does to one operation: only the completions with its user data count.\<close>

fun fold_completions :: "(u32 \<Rightarrow> bool) \<Rightarrow> cqe list \<Rightarrow> 'd abs_op option \<Rightarrow> 'd abs_op option" where
  "fold_completions is_more [] a = a"
| "fold_completions is_more (c # cs) None = None"
| "fold_completions is_more (c # cs) (Some a) =
     (case abs_complete is_more c a of Inl p \<Rightarrow> None | Inr (a', ws) \<Rightarrow> fold_completions is_more cs a')"

lemma abs_dispatch_one:
  assumes "abs_dispatch is_more cqes A = Inr (B, ws)" and "k \<noteq> usize_MAX"
  shows "B k = fold_completions is_more (filter (\<lambda>e. cq_user_data e = k) cqes) (A k)"
  using assms(1)
proof (induction cqes arbitrary: A ws)
  case (Cons c cs)
  show ?case
  proof (cases "cq_user_data c = usize_MAX")
    case True
    with Cons assms(2) show ?thesis by auto
  next
    case False
    with Cons.prems obtain a a' ws1 ws2 where a: "A (cq_user_data c) = Some a" "abs_complete is_more c a = Inr (a', ws1)"
      "abs_dispatch is_more cs (A(cq_user_data c := a')) = Inr (B, ws2)"
      by (auto simp: bind_exec_eq_Inr split: option.splits)
    from Cons.IH [OF a(3)] a(1,2) show ?thesis by auto
  qed
qed simp

text \<open>A batch adds at most its own completions to a queue and starts no operation.\<close>

lemma abs_complete_queued: "abs_complete is_more c a = Inr (a', ws) \<Longrightarrow> queued a' \<le> Suc (queued (Some a))"
  by (cases a) (auto split: if_splits)

lemma abs_dispatch_Cons:
  assumes "abs_dispatch is_more (c # cs) A = Inr (B, ws)"
  obtains (Cancel) "cq_user_data c = usize_MAX" "abs_dispatch is_more cs A = Inr (B, ws)"
  | (Own) a a' ws' where "A (cq_user_data c) = Some a" "queued a' \<le> Suc (queued (Some a))"
      "abs_dispatch is_more cs (A(cq_user_data c := a')) = Inr (B, ws')"
proof (cases "cq_user_data c = usize_MAX")
  case False
  with assms obtain a a' ws1 ws2 where "A (cq_user_data c) = Some a" "abs_complete is_more c a = Inr (a', ws1)"
    "abs_dispatch is_more cs (A(cq_user_data c := a')) = Inr (B, ws2)"
    by (auto simp: bind_exec_eq_Inr split: option.splits)
  with Own abs_complete_queued show thesis by blast
qed (use assms Cancel in simp)

lemma abs_dispatch_queued:
  assumes "abs_dispatch is_more cqes A = Inr (B, ws)"
  shows "queued (B k) \<le> queued (A k) + length (filter (\<lambda>e. cq_user_data e = k) cqes) \<and> (A k = None \<longrightarrow> B k = None)"
  using assms
proof (induction cqes arbitrary: A ws)
  case (Cons c cs)
  from Cons.prems show ?case
  proof (cases rule: abs_dispatch_Cons)
    case Cancel
    with Cons.IH [OF Cancel(2)] show ?thesis by auto
  next
    case (Own a a' ws')
    with Cons.IH [OF Own(3)] show ?thesis by (cases "cq_user_data c = k") auto
  qed
qed simp

lemma fold_completions_queue:
  "fold_completions is_more cs (Some (AQueue q)) = Some (AQueue (q @ map cqe_result_from cs))"
  by (induction cs arbitrary: q) auto

lemma fold_completions_final:
  assumes "list_all (\<lambda>e. is_more (cq_flags e)) ms" and "\<not> is_more (cq_flags e)"
  shows "fold_completions is_more (ms @ [e]) (Some (AInFlight v)) =
    Some (if ms = [] then ACompleted e else AQueue (map cqe_result_from (ms @ [e])))"
  using assms by (cases ms) (auto simp: fold_completions_queue)

lemma readable_one:
  assumes "ring_contract api pend" and "slab_alloc_ok ca" and "rt_inv api pend c" and "drive_uring_wakes api ca c = Some (Inr (x, c'))"
  shows "k \<noteq> usize_MAX \<Longrightarrow> abs_ops (drv_ops (cl_driver c')) k = fold_completions (u_more api)
      (filter (\<lambda>e. cq_user_data e = k) (fst (u_completion api (drv_uring (cl_driver c))))) (abs_ops (drv_ops (cl_driver c)) k)"
    and "queued (abs_ops (drv_ops (cl_driver c')) k) \<le> queued (abs_ops (drv_ops (cl_driver c)) k)
      + length (filter (\<lambda>e. cq_user_data e = k) (fst (u_completion api (drv_uring (cl_driver c)))))"
    and "abs_ops (drv_ops (cl_driver c)) k = None \<Longrightarrow> abs_ops (drv_ops (cl_driver c')) k = None"
proof -
  obtain cqes u where comp: "u_completion api (drv_uring (cl_driver c)) = (cqes, u)" by force
  from assms(4) comp obtain d' where d': "dispatch_cqes api ca cqes ((cl_driver c)\<lparr>drv_uring := u\<rparr>) = Inr d'" "c' = c\<lparr>cl_driver := d'\<rparr>"
    by (auto simp: drive_uring_wakes_def handle_dispatch_completions_def borrow_mut_Inr dispatch_completions_def bind_exec_eq_Inr)
  from dispatch_cqes_refines [OF assms(2) _ d'(1)] rt_inv_owes(2) [OF assms(3)] obtain ws where
    ab: "abs_dispatch (u_more api) cqes (abs_ops (drv_ops (cl_driver c))) = Inr (abs_ops (drv_ops d'), ws)" by auto
  show "k \<noteq> usize_MAX \<Longrightarrow> abs_ops (drv_ops (cl_driver c')) k = fold_completions (u_more api)
      (filter (\<lambda>e. cq_user_data e = k) (fst (u_completion api (drv_uring (cl_driver c))))) (abs_ops (drv_ops (cl_driver c)) k)"
    using abs_dispatch_one [OF ab] comp d'(2) by simp
  show "queued (abs_ops (drv_ops (cl_driver c')) k) \<le> queued (abs_ops (drv_ops (cl_driver c)) k)
      + length (filter (\<lambda>e. cq_user_data e = k) (fst (u_completion api (drv_uring (cl_driver c)))))"
    "abs_ops (drv_ops (cl_driver c)) k = None \<Longrightarrow> abs_ops (drv_ops (cl_driver c')) k = None"
    using abs_dispatch_queued [OF ab, of k] comp d'(2) by auto
qed

text \<open>A park and a dispatch of the completions.\<close>

lemma round_step:
  assumes rc: "ring_contract api pend" and al: "slab_alloc_ok ca" "room_for ca N" and inv: "rt_inv api pend c"
    and v: "v = snd (u_submit api (drv_uring (cl_driver c)))"
    and room: "card (fmdom' (completions (drv_ops (cl_driver c)))) + length (fst (u_completion api v)) \<le> N"
  obtains c' where "run_turns api ca True [Park, Readable] c = Some (Inr ((), c'))" "rt_inv api pend c'"
    "drv_uring (cl_driver c') = snd (u_completion api v)"
    "card (fmdom' (completions (drv_ops (cl_driver c')))) \<le> card (fmdom' (completions (drv_ops (cl_driver c)))) + length (fst (u_completion api v))"
    "set (drv_woken (cl_driver c)) \<subseteq> set (drv_woken (cl_driver c'))"
    "waits_kept (drv_ops (cl_driver c)) (drv_ops (cl_driver c')) (drv_woken (cl_driver c'))"
    "\<And>k. k \<noteq> usize_MAX \<Longrightarrow> abs_ops (drv_ops (cl_driver c')) k = fold_completions (u_more api)
        (filter (\<lambda>e. cq_user_data e = k) (fst (u_completion api v))) (abs_ops (drv_ops (cl_driver c)) k)"
    "\<And>k. queued (abs_ops (drv_ops (cl_driver c')) k)
        \<le> queued (abs_ops (drv_ops (cl_driver c)) k) + length (filter (\<lambda>e. cq_user_data e = k) (fst (u_completion api v)))"
    "\<And>k. abs_ops (drv_ops (cl_driver c)) k = None \<Longrightarrow> abs_ops (drv_ops (cl_driver c')) k = None"
proof -
  let ?d = "cl_driver c"
  obtain res where sub: "u_submit api (drv_uring ?d) = (res, v)" using v by (cases "u_submit api (drv_uring ?d)") simp
  let ?c1 = "c\<lparr>cl_driver := ?d\<lparr>drv_uring := v\<rparr>\<rparr>"
  note i = rt_inv_owes [OF inv]
  have park: "on_thread_park api True c = Some (Inr ((), ?c1))" by (rule park_flushes [OF i(1) sub])
  have inv1: "rt_inv api pend ?c1" by (rule park_inv [OF rc inv park])
  obtain cqes u where comp: "u_completion api v = (cqes, u)" by force
  have del: "deliver (u_more api) cqes (pend (drv_uring ?d)) = Some (pend u)"
    using ring_contractD(1) [OF rc sub] ring_contractD(5) [OF rc comp] by simp
  from dispatch_owed [OF al, of "?d\<lparr>drv_uring := u\<rparr>" api "pend (drv_uring ?d)" cqes "pend u"] i(2,3) room comp del
  obtain d' where d': "dispatch_cqes api ca cqes (?d\<lparr>drv_uring := u\<rparr>) = Inr d'" "drv_uring d' = u"
    "waits_kept (drv_ops ?d) (drv_ops d') (drv_woken d')" "set (drv_woken ?d) \<subseteq> set (drv_woken d')"
    "card (fmdom' (completions (drv_ops d'))) \<le> card (fmdom' (completions (drv_ops ?d))) + length cqes" by auto
  have read: "drive_uring_wakes api ca ?c1 = Some (Inr ((), c\<lparr>cl_driver := d'\<rparr>))" using comp i(1) d'(1)
    by (simp add: drive_uring_wakes_def handle_dispatch_completions_def borrow_mut_def dispatch_completions_def)
  have "run_turns api ca True [Park, Readable] c = Some (Inr ((), c\<lparr>cl_driver := d'\<rparr>))" using park read by simp
  moreover have "rt_inv api pend (c\<lparr>cl_driver := d'\<rparr>)" by (rule readable_inv [OF rc al(1) inv1 read])
  ultimately show thesis using that readable_one [OF rc al(1) inv1 read] d'(2-5) comp by simp
qed

section \<open>The run\<close>

text \<open>Submitting, a poll, a round of the runtime, a poll.\<close>

definition multi_run ::
  "'u uring_api \<Rightarrow> slab_alloc \<Rightarrow> slab_alloc \<Rightarrow> waker \<Rightarrow> 'd \<times> ('d \<Rightarrow> (sqe \<times> 'd) exec) \<times> ('d, 'o) updateable
   \<Rightarrow> ('u, 'd, ('o poll \<times> 'o poll, io_error) result) on_cell" where
  "multi_run api la ca w m c =
     (case m of (data, f, up) \<Rightarrow>
       Option.bind (handle_submit_op api la ca data f c) (\<lambda>r. case r of Inl p \<Rightarrow> Some (Inl p)
         | Inr (Err e, c1) \<Rightarrow> Some (Inr (Err e, c1)) | Inr (Ok op, c1) \<Rightarrow>
       Option.bind (op_multi_poll up (u_more api) w op c1) (\<lambda>r. case r of Inl p \<Rightarrow> Some (Inl p) | Inr ((p1, op1), c2) \<Rightarrow>
       Option.bind (run_turns api ca True [Park, Readable] c2) (\<lambda>r. case r of Inl p \<Rightarrow> Some (Inl p) | Inr (_, c3) \<Rightarrow>
       Option.bind (op_multi_poll up (u_more api) w op1 c3) (\<lambda>r.
         case r of Inl p \<Rightarrow> Some (Inl p) | Inr ((p2, op2), c4) \<Rightarrow> Some (Inr (Ok (p1, p2), c4)))))))"

text \<open>
  Room in the slabs and in the queue; \<open>mine\<close> are the completions the kernel posts for the operation
  in the next round, the last of them final.
\<close>

definition multi_served ::
  "'u uring_api \<Rightarrow> slab_alloc \<Rightarrow> slab_alloc \<Rightarrow> sqe \<Rightarrow> ('u, 'd) cell \<Rightarrow> nat \<Rightarrow> cqe list \<Rightarrow> cqe \<Rightarrow> bool" where
  "multi_served api la ca s c k ms e \<longleftrightarrow>
     slab_alloc_ok la \<and> slab_alloc_ok ca \<and> list_all (\<lambda>x. u_more api (cq_flags x)) ms \<and> \<not> u_more api (cq_flags e)
     \<and> (\<exists>o1 ring N. ops_insert la (drv_ops (cl_driver c)) = Inr (k, o1)
          \<and> u_push api (s\<lparr>sqe_user_data := k\<rparr>) (drv_uring (cl_driver c)) = Some ring
          \<and> filter (\<lambda>x. cq_user_data x = k) (fst (u_completion api (snd (u_submit api ring)))) = ms @ [e]
          \<and> room_for ca N
          \<and> card (fmdom' (completions (drv_ops (cl_driver c)))) + length (fst (u_completion api (snd (u_submit api ring)))) \<le> N)"

lemma op_multi_poll_refines:
  fixes up :: "('d, 'o) updateable"
  assumes "\<not> cl_borrowed c" and "cl_strong c \<noteq> 0" and "ops_wf (drv_ops (cl_driver c))"
    and "abs_ops (drv_ops (cl_driver c)) (op_index op) = Some a" and "op_data op = Some data"
    and "abs_poll_multishot up is_more w data a = Inr (r, dt, a', ws)"
  obtains o2 where "op_multi_poll up is_more w op c = Some (Inr ((r, op\<lparr>op_data := dt\<rparr>),
      c\<lparr>cl_driver := (cl_driver c)\<lparr>drv_ops := o2, drv_woken := drv_woken (cl_driver c) @ ws\<rparr>\<rparr>))"
    and "abs_ops o2 = (abs_ops (drv_ops (cl_driver c)))(op_index op := a')"
proof -
  from poll_multishot_refines [OF assms(3-5), of up is_more w, unfolded assms(6)] obtain o2 where
    "poll_multishot_op up is_more w op (drv_ops (cl_driver c)) = Inr (r, op\<lparr>op_data := dt\<rparr>, o2, ws)"
    "abs_ops o2 = (abs_ops (drv_ops (cl_driver c)))(op_index op := a')"
    by (auto simp: poll_multishot_rel_def elim!: rel_sum.cases)
  with that [of o2] assms(1,2) show thesis
    by (simp add: op_multi_poll_def upgrade_def handle_poll_multishot_op_def borrow_mut_def)
qed

text \<open>The first poll after the submission leaves the waker and touches no completion.\<close>

lemma first_multi_poll:
  assumes "\<not> cl_borrowed c" and "cl_strong c \<noteq> 0" and "ops_insert la o0 = Inr (k, drv_ops (cl_driver c))"
    and "slab_alloc_ok la" and "ops_wf o0"
  shows "op_multi_poll up is_more w (op_new data k) c = Some (Inr ((Pending, op_new data k),
      c\<lparr>cl_driver := (cl_driver c)\<lparr>drv_ops := put_lc k (Waiting w) (drv_ops (cl_driver c))\<rparr>\<rparr>))"
    and "abs_ops (put_lc k (Waiting w) (drv_ops (cl_driver c))) k = Some (AInFlight (Some w))"
    and "completions (put_lc k (Waiting w) (drv_ops (cl_driver c))) = completions o0"
proof -
  let ?o1 = "drv_ops (cl_driver c)"
  from assms(3) have "?o1 = o0\<lparr>lifecycle := fmupd k Submitted (lifecycle o0)\<rparr>"
    by (auto simp: ops_insert_def bind_exec_eq_Inr slab_insert_Inr)
  then have o1: "fmlookup (lifecycle ?o1) k = Some Submitted" "completions ?o1 = completions o0" by simp_all
  show "op_multi_poll up is_more w (op_new data k) c = Some (Inr ((Pending, op_new data k),
      c\<lparr>cl_driver := (cl_driver c)\<lparr>drv_ops := put_lc k (Waiting w) ?o1\<rparr>\<rparr>))"
    using assms(1,2) o1(1)
    by (simp add: op_multi_poll_def upgrade_def handle_poll_multishot_op_def borrow_mut_def poll_multishot_op_def is_finished_def op_new_def)
  have "owns ?o1 k = []" using o1(1) by (simp add: owns_def)
  from put_lc_plain(2) [OF ops_insert_ok(1) [OF assms(5,4,3)] this, of "Waiting w"]
  show "abs_ops (put_lc k (Waiting w) ?o1) k = Some (AInFlight (Some w))" by simp
  show "completions (put_lc k (Waiting w) ?o1) = completions o0" using o1(2) by (simp add: put_lc_def)
qed

text \<open>Submitting and the first poll.\<close>

lemma multi_starts:
  fixes up :: "('d, 'o) updateable"
  assumes rc: "ring_contract api pend" and inv: "rt_inv api pend c" and al: "slab_alloc_ok la" "slab_alloc_ok ca"
    and f: "f data = Inr (s, data')" and ins: "ops_insert la (drv_ops (cl_driver c)) = Inr (k, o1)"
    and push: "u_push api (s\<lparr>sqe_user_data := k\<rparr>) (drv_uring (cl_driver c)) = Some ring"
  obtains c1 c2 where "handle_submit_op api la ca data f c = Some (Inr (Ok (op_new data' k), c1))"
    "op_multi_poll up (u_more api) w (op_new data' k) c1 = Some (Inr ((Pending, op_new data' k), c2))" "rt_inv api pend c2" "k \<noteq> usize_MAX"
    "abs_ops (drv_ops (cl_driver c2)) k = Some (AInFlight (Some w))" "drv_uring (cl_driver c2) = ring"
    "completions (drv_ops (cl_driver c2)) = completions (drv_ops (cl_driver c))"
proof -
  note st = rt_inv_owes [OF inv]
  let ?c1 = "c\<lparr>cl_driver := (cl_driver c)\<lparr>drv_ops := o1, drv_uring := ring\<rparr>\<rparr>"
  let ?c2 = "?c1\<lparr>cl_driver := (cl_driver ?c1)\<lparr>drv_ops := put_lc k (Waiting w) o1\<rparr>\<rparr>"
  have sub: "handle_submit_op api la ca data f c = Some (Inr (Ok (op_new data' k), ?c1))"
    using submit_op_room(1) [where f = f, OF al(1) st(2) ins f push, of ca] st(1) by (simp add: handle_submit_op_def)
  have poll: "op_multi_poll up (u_more api) w (op_new data' k) ?c1 = Some (Inr ((Pending, op_new data' k), ?c2))"
    and ab: "abs_ops (put_lc k (Waiting w) o1) k = Some (AInFlight (Some w))"
    and cs: "completions (put_lc k (Waiting w) o1) = completions (drv_ops (cl_driver c))"
    using first_multi_poll [where c = ?c1 and la = la and ?o0.0 = "drv_ops (cl_driver c)" and k = k] st ins al(1) by simp_all
  have "rt_inv api pend ?c1" by (rule rt_step_inv [OF rt_step.Submit [OF sub, of up] inv rc al])
  moreover have "handle_poll_multishot_op up (u_more api) w (op_new data' k) ?c1 = Some (Inr ((Pending, op_new data' k), ?c2))"
    using poll st(4) by (simp add: op_multi_poll_def upgrade_def)
  ultimately have "rt_inv api pend ?c2" using rt_step_inv [OF rt_step.Poll_Multi _ rc al] by blast
  moreover have "k \<noteq> usize_MAX" using ops_insert_ok(4) [OF st(2) al(1) ins] by simp
  ultimately show thesis using that [OF sub poll] ab cs by simp
qed

lemma multi_run_delivers:
  fixes up :: "('d, 'o) updateable"
  assumes rc: "ring_contract api pend" and inv: "rt_inv api pend c" and sv: "multi_served api la ca s c k ms e"
    and f: "f data = Inr (s, data')"
  obtains c1 c2 c3 where "handle_submit_op api la ca data f c = Some (Inr (Ok (op_new data' k), c1))"
    "op_multi_poll up (u_more api) w (op_new data' k) c1 = Some (Inr ((Pending, op_new data' k), c2))"
    "run_turns api ca True [Park, Readable] c2 = Some (Inr ((), c3))" "rt_inv api pend c3" "w \<in> set (drv_woken (cl_driver c3))"
    "abs_ops (drv_ops (cl_driver c3)) k = Some (if ms = [] then ACompleted e else AQueue (map cqe_result_from (ms @ [e])))"
proof -
  from sv obtain o1 ring N where al: "slab_alloc_ok la" "slab_alloc_ok ca" and ms: "list_all (\<lambda>x. u_more api (cq_flags x)) ms" "\<not> u_more api (cq_flags e)"
    and ins: "ops_insert la (drv_ops (cl_driver c)) = Inr (k, o1)"
    and push: "u_push api (s\<lparr>sqe_user_data := k\<rparr>) (drv_uring (cl_driver c)) = Some ring"
    and mine: "filter (\<lambda>x. cq_user_data x = k) (fst (u_completion api (snd (u_submit api ring)))) = ms @ [e]"
    and room: "room_for ca N" "card (fmdom' (completions (drv_ops (cl_driver c)))) + length (fst (u_completion api (snd (u_submit api ring)))) \<le> N"
    unfolding multi_served_def by blast
  obtain c1 c2 where c: "handle_submit_op api la ca data f c = Some (Inr (Ok (op_new data' k), c1))"
    "op_multi_poll up (u_more api) w (op_new data' k) c1 = Some (Inr ((Pending, op_new data' k), c2))" "rt_inv api pend c2" "k \<noteq> usize_MAX"
    "abs_ops (drv_ops (cl_driver c2)) k = Some (AInFlight (Some w))" "drv_uring (cl_driver c2) = ring"
    "completions (drv_ops (cl_driver c2)) = completions (drv_ops (cl_driver c))"
    by (rule multi_starts [where f = f and up = up and w = w, OF rc inv al f ins push])
  have room2: "card (fmdom' (completions (drv_ops (cl_driver c2)))) + length (fst (u_completion api (snd (u_submit api ring)))) \<le> N"
    using room(2) c(7) by simp
  obtain c3 where c3: "run_turns api ca True [Park, Readable] c2 = Some (Inr ((), c3))" "rt_inv api pend c3"
    "waits_kept (drv_ops (cl_driver c2)) (drv_ops (cl_driver c3)) (drv_woken (cl_driver c3))"
    "abs_ops (drv_ops (cl_driver c3)) k = fold_completions (u_more api) (ms @ [e]) (abs_ops (drv_ops (cl_driver c2)) k)"
    by (rule round_step [OF rc al(2) room(1) c(3) _ room2]) (use c(4,6) mine in auto)
  have ab: "abs_ops (drv_ops (cl_driver c3)) k = Some (if ms = [] then ACompleted e else AQueue (map cqe_result_from (ms @ [e])))"
    using c3(4) c(5) fold_completions_final [OF ms, of "Some w"] by simp
  then have "abs_ops (drv_ops (cl_driver c3)) k \<noteq> Some (AInFlight (Some w))" by simp
  with c3(3) c(5) have "w \<in> set (drv_woken (cl_driver c3))" unfolding waits_kept_def by blast
  then show thesis by (rule that [OF c(1,2) c3(1,2) _ ab])
qed

context zc_counter
begin

text \<open>The whole send: the output is made of the bytes of every completion.\<close>

lemma multi_run_counts:
  assumes "ring_contract api pend" and "rt_inv api pend c" and "multi_served api la ca s c k ms e"
    and f: "f data = Inr (s, data')" and ok: "list_all (\<lambda>x. cqe_ok (cqe_result_from x)) ms"
    and out: "co_complete up (add (sum_list (map (\<lambda>x. cqe_bytes (cqe_result_from x)) ms)) data') (cqe_result_from e) = Inr out"
  shows "\<exists>c4. multi_run api la ca w (data, f, up) c = Some (Inr (Ok (Pending, Ready out), c4))
    \<and> w \<in> set (drv_woken (cl_driver c4)) \<and> abs_ops (drv_ops (cl_driver c4)) k = None"
proof -
  obtain c1 c2 c3 where run: "handle_submit_op api la ca data f c = Some (Inr (Ok (op_new data' k), c1))"
    "op_multi_poll up (u_more api) w (op_new data' k) c1 = Some (Inr ((Pending, op_new data' k), c2))"
    "run_turns api ca True [Park, Readable] c2 = Some (Inr ((), c3))" "rt_inv api pend c3" "w \<in> set (drv_woken (cl_driver c3))"
    and ab: "abs_ops (drv_ops (cl_driver c3)) k = Some (if ms = [] then ACompleted e else AQueue (map cqe_result_from (ms @ [e])))"
    by (rule multi_run_delivers [where f = f and data = data and up = up and w = w, OF assms(1-4)]) blast
  have ms: "all_more (u_more api) (map cqe_result_from ms)" "list_all cqe_ok (map cqe_result_from ms)" "\<not> u_more api (cr_flags (cqe_result_from e))"
    using assms(3) ok by (auto simp: multi_served_def all_more_def list_all_iff)
  let ?a = "if ms = [] then ACompleted e else AQueue (map cqe_result_from (ms @ [e]))" and ?op = "op_new data' k"
  have abs: "abs_poll_multishot up (u_more api) w data' ?a = Inr (Ready out, None, None, [])"
    using consume_adds [OF ms, of data'] out by (cases "ms = []") (simp_all add: add_zero comp_def)
  have op: "op_index ?op = k" "op_data ?op = Some data'" by (simp_all add: op_new_def)
  have abk: "abs_ops (drv_ops (cl_driver c3)) (op_index ?op) = Some ?a" using ab op(1) by simp
  obtain o2 where p: "op_multi_poll up (u_more api) w ?op c3 = Some (Inr ((Ready out, ?op\<lparr>op_data := None\<rparr>),
      c3\<lparr>cl_driver := (cl_driver c3)\<lparr>drv_ops := o2, drv_woken := drv_woken (cl_driver c3) @ []\<rparr>\<rparr>))"
    "abs_ops o2 = (abs_ops (drv_ops (cl_driver c3)))(op_index ?op := None)"
    by (rule op_multi_poll_refines [OF rt_inv_owes(1,4,2) [OF run(4)] abk op(2) abs])
  have "abs_ops o2 k = None" using p(2) op(1) by simp
  then show ?thesis using run p(1) by (simp del: run_turns.simps add: multi_run_def)
qed

end










end
