(* ===== verification/Recv_Layers.thy ===== *)
theory Recv_Layers
  imports Multishot_Layers Recv_Stream Net_Sockets
begin

text \<open>
  A multishot receive through the layers, over any number of rounds of the runtime: the method of
  the socket submits it, each round posts completions, and the task polls the operation until it
  waits or is finished. What the task gets, put together, is what the completions of all the rounds
  hold.
\<close>

section \<open>One poll after another\<close>

text \<open>The task polls until the operation waits or is finished.\<close>

partial_function (option) drain ::
  "('d, 'o) updateable \<Rightarrow> (u32 \<Rightarrow> bool) \<Rightarrow> waker \<Rightarrow> 'd op \<Rightarrow> ('u, 'd) cell \<Rightarrow> (('o list \<times> 'd op) \<times> ('u, 'd) cell) exec option" where
  "drain up is_more w op c =
     Option.bind (op_multi_poll up is_more w op c) (\<lambda>r. case r of
         Inl p \<Rightarrow> Some (Inl p)
       | Inr ((Pending, op'), c') \<Rightarrow> Some (Inr (([], op'), c'))
       | Inr ((Ready out, op'), c') \<Rightarrow>
           if is_finished op' then Some (Inr (([out], op'), c'))
           else Option.bind (drain up is_more w op' c') (\<lambda>r'.
             Some (bind_exec r' (\<lambda>((outs, op''), c''). Inr ((out # outs, op''), c'')))))"

lemma op_multi_poll_ops:
  assumes "\<not> cl_borrowed c" and "cl_strong c \<noteq> 0" and "poll_multishot_op up is_more w op (drv_ops (cl_driver c)) = Inr (r, op', o', ws)"
  shows "op_multi_poll up is_more w op c
    = Some (Inr ((r, op'), c\<lparr>cl_driver := (cl_driver c)\<lparr>drv_ops := o', drv_woken := drv_woken (cl_driver c) @ ws\<rparr>\<rparr>))"
  using assms by (simp add: op_multi_poll_def upgrade_def handle_poll_multishot_op_def borrow_mut_def)

lemma drain_poll_n:
  fixes up :: "('d, 'o) updateable"
  assumes "\<not> cl_borrowed c" and "cl_strong c \<noteq> 0"
    and "poll_n up is_more w n op (drv_ops (cl_driver c)) = Inr (outs, op', o')" and "length outs < n"
  shows "\<exists>ws. drain up is_more w op c
    = Some (Inr ((outs, op'), c\<lparr>cl_driver := (cl_driver c)\<lparr>drv_ops := o', drv_woken := drv_woken (cl_driver c) @ ws\<rparr>\<rparr>))"
  using assms
proof (induction n arbitrary: op c outs)
  case (Suc n)
  from Suc.prems(3) obtain r op1 o1 ws where p: "poll_multishot_op up is_more w op (drv_ops (cl_driver c)) = Inr (r, op1, o1, ws)"
    by (auto simp: bind_exec_eq_Inr)
  let ?c = "c\<lparr>cl_driver := (cl_driver c)\<lparr>drv_ops := o1, drv_woken := drv_woken (cl_driver c) @ ws\<rparr>\<rparr>"
  note m = op_multi_poll_ops [OF Suc.prems(1,2) p]
  show ?case
  proof (cases "\<exists>out. r = Ready out \<and> \<not> is_finished op1")
    case False
    with p m Suc.prems(3) show ?thesis by (subst drain.simps) (auto split: poll.splits)
  next
    case True
    then obtain out where r: "r = Ready out" "\<not> is_finished op1" by blast
    with p Suc.prems(3) obtain outs' where o: "poll_n up is_more w n op1 o1 = Inr (outs', op', o')" "outs = out # outs'"
      by (auto simp: bind_exec_eq_Inr)
    from Suc.IH [of ?c op1 outs'] o Suc.prems(1,2,4) obtain ws' where
      "drain up is_more w op1 ?c = Some (Inr ((outs', op'), ?c\<lparr>cl_driver := (cl_driver ?c)\<lparr>drv_ops := o', drv_woken := drv_woken (cl_driver ?c) @ ws'\<rparr>\<rparr>))"
      by auto
    then show ?thesis using m r o(2) by (subst drain.simps) (auto intro!: exI [of _ "ws @ ws'"])
  qed
qed simp

lemma poll_n_rt_ok:
  fixes up :: "('d, 'o) updateable"
  assumes "rt_ok is_more P o1" and "poll_n up is_more w n op o1 = Inr (outs, op', o')"
  shows "rt_ok is_more P o'"
  using assms
proof (induction n arbitrary: op o1 outs)
  case (Suc n)
  from Suc.prems(2) obtain r op1 o2 ws where p: "poll_multishot_op up is_more w op o1 = Inr (r, op1, o2, ws)" by (auto simp: bind_exec_eq_Inr)
  from poll_multishot_rt_ok [OF Suc.prems(1) p] p Suc show ?case
    by (auto simp: bind_exec_eq_Inr split: poll.splits if_splits)
qed simp

section \<open>One round\<close>

text \<open>The completions an operation holds that its task has not seen.\<close>

fun holds :: "(u32 \<Rightarrow> bool) \<Rightarrow> cqe_result list \<Rightarrow> 'd abs_op \<Rightarrow> bool" where
  "holds is_more q (AInFlight v) \<longleftrightarrow> q = []"
| "holds is_more q (ACompleted e) \<longleftrightarrow> q = [cqe_result_from e] \<and> \<not> is_more (cq_flags e)"
| "holds is_more q (AQueue q') \<longleftrightarrow> q' = q \<and> q \<noteq> [] \<and> all_more is_more (butlast q)"
| "holds is_more q (AIgnored x) \<longleftrightarrow> False"

lemma round_waiting:
  assumes "waits_kept o1 o2 ws" and "abs_ops o1 k = Some (AInFlight (Some w))"
    and "abs_ops o2 k = fold_completions is_more mine (abs_ops o1 k)" and "rt_ok is_more P o2"
  shows "\<exists>a. abs_ops o2 k = Some a \<and> holds is_more (map cqe_result_from mine) a \<and> (mine \<noteq> [] \<longrightarrow> w \<in> set ws)"
proof (cases mine)
  case (Cons e es)
  have woken: "abs_ops o2 k = Some (AInFlight (Some w)) \<or> w \<in> set ws \<and> answered o2 k" using assms(1,2) unfolding waits_kept_def by blast
  show ?thesis
  proof (cases "is_more (cq_flags e)")
    case True
    then have q: "abs_ops o2 k = Some (AQueue (map cqe_result_from mine))" using assms(2,3) Cons by (simp add: fold_completions_queue)
    with woken Cons show ?thesis using rt_okD(3) [OF assms(4) q] by simp
  next
    case False
    then have "abs_ops o2 k = fold_completions is_more es (Some (ACompleted e))" using assms(2,3) Cons by simp
    moreover from this have "es = []" using woken by (cases es) (auto simp: answered_def)
    ultimately show ?thesis using woken Cons False by simp
  qed
qed (use assms in simp)

text \<open>What the task has when it waits again or has seen the end.\<close>

definition outcome :: "(u32 \<Rightarrow> bool) \<Rightarrow> waker \<Rightarrow> cqe_result list \<Rightarrow> batch list \<Rightarrow> recv_multishot op \<Rightarrow> recv_multishot abs_op option \<Rightarrow> bool" where
  "outcome is_more w q bs op a \<longleftrightarrow>
     (if all_more is_more q then list_all (\<lambda>b. bt_end b = None) bs \<and> \<not> is_finished op \<and> a = Some (AInFlight (Some w))
      else bs \<noteq> [] \<and> list_all (\<lambda>b. bt_end b = None) (butlast bs)
        \<and> bt_end (last bs) = Some (case cr_result (last q) of Ok n \<Rightarrow> Ok () | Err e \<Rightarrow> Err e) \<and> is_finished op \<and> a = None)"

lemma recv_polls:
  assumes "ops_wf o1" and "abs_ops o1 (op_index op) = Some a" and "op_data op = Some d" and "data_items d = []"
    and "holds is_more q a" and "decode_all api as_socket prov (rf_msg_namelen d) (rf_msg_controllen d) q = Inr items"
  shows "\<exists>n bs op' o'. poll_n (recv_up api as_socket prov) is_more w n op o1 = Inr (bs, op', o') \<and> length bs < n
    \<and> concat (map batch_items bs) = items \<and> list_all single bs
    \<and> outcome is_more w q bs op' (abs_ops o' (op_index op)) \<and> stream_kept op o1 d op' o'"
proof (cases a)
  case (AInFlight v)
  from poll_n_waiting [OF assms(1) assms(2) [unfolded AInFlight] assms(3), of "recv_up api as_socket prov" is_more w 0] obtain o' where
    "poll_n (recv_up api as_socket prov) is_more w 1 op o1 = Inr ([], op, o')" "ops_wf o'"
    "abs_ops o' = (abs_ops o1)(op_index op := Some (AInFlight (Some w)))" by auto
  then show ?thesis using assms AInFlight
    by (intro exI [of _ 1] exI [of _ "[]"] exI [of _ op] exI [of _ o'])
       (auto simp: outcome_def stream_kept_def is_finished_def all_more_def)
next
  case (ACompleted e)
  let ?e = "cqe_result_from e"
  from assms(5,6) ACompleted have q: "q = [?e]" "\<not> is_more (cr_flags ?e)"
    and dec: "decode api as_socket prov (rf_msg_namelen d) (rf_msg_controllen d) ?e = Inr items" by (auto simp: bind_exec_eq_Inr)
  from complete_decode [OF dec assms(4)] obtain b where b: "recv_complete api as_socket prov d ?e = Inr b" "batch_items b = items"
    "bt_end b = Some (case cr_result ?e of Ok n \<Rightarrow> Ok () | Err e \<Rightarrow> Err e)" by blast
  have "abs_poll_multishot (recv_up api as_socket prov) is_more w d a = Inr (Ready b, None, None, [])"
    using ACompleted b(1) by (simp add: recv_up_def)
  then obtain o' where "poll_multishot_op (recv_up api as_socket prov) is_more w op o1 = Inr (Ready b, op\<lparr>op_data := None\<rparr>, o', [])" "ops_wf o'"
    "abs_ops o' = (abs_ops o1)(op_index op := None)" by (rule poll_refined [OF assms(1-3)])
  then show ?thesis using q b(2,3) decode_at_most_one [OF dec]
    by (intro exI [of _ 2] exI [of _ "[b]"] exI [of _ "op\<lparr>op_data := None\<rparr>"] exI [of _ o'])
       (auto simp: outcome_def stream_kept_def is_finished_def all_more_def single_def numeral_2_eq_2)
next
  case (AQueue q')
  then have q: "abs_ops o1 (op_index op) = Some (AQueue q)" "q \<noteq> []" "all_more is_more (butlast q)" using assms(2,5) by auto
  then have "all_more is_more q \<longleftrightarrow> is_more (cr_flags (last q))"
    by (cases q rule: rev_cases) (auto simp: all_more_def)
  with recv_stream [OF assms(1) q(1) assms(3,4) q(2,3) _ assms(6), of "length q + 1" w] show ?thesis
    unfolding stream_end_def outcome_def by fastforce
qed (use assms(5) in simp)

section \<open>Many rounds\<close>

text \<open>
  \<open>posted\<close>: what the kernel posts in the next rounds, when nothing else is submitted. The task
  drains the operation after every round until it is finished.
\<close>

primrec posted :: "'u uring_api \<Rightarrow> nat \<Rightarrow> 'u \<Rightarrow> cqe list" where
  "posted api 0 u = []"
| "posted api (Suc n) u = (let v = snd (u_submit api u) in fst (u_completion api v) @ posted api n (snd (u_completion api v)))"

primrec multi_rounds ::
  "'u uring_api \<Rightarrow> slab_alloc \<Rightarrow> ('d, 'o) updateable \<Rightarrow> waker \<Rightarrow> nat \<Rightarrow> 'd op \<Rightarrow> ('u, 'd, 'o list \<times> 'd op) on_cell" where
  "multi_rounds api ca up w 0 op c = Some (Inr (([], op), c))"
| "multi_rounds api ca up w (Suc n) op c =
     (if is_finished op then Some (Inr (([], op), c))
      else Option.bind (run_turns api ca True [Park, Readable] c) (\<lambda>r. case r of Inl p \<Rightarrow> Some (Inl p) | Inr (_, c1) \<Rightarrow>
        Option.bind (drain up (u_more api) w op c1) (\<lambda>r. case r of Inl p \<Rightarrow> Some (Inl p) | Inr ((outs, op'), c2) \<Rightarrow>
        Option.bind (multi_rounds api ca up w n op' c2) (\<lambda>r.
          Some (bind_exec r (\<lambda>((outs', op''), c3). Inr ((outs @ outs', op''), c3)))))))"

text \<open>The state of the task between two rounds.\<close>

definition streaming ::
  "'u uring_api \<Rightarrow> ('u \<Rightarrow> nat set) \<Rightarrow> waker \<Rightarrow> nat \<Rightarrow> nat \<Rightarrow> recv_multishot op \<Rightarrow> ('u, recv_multishot) cell \<Rightarrow> bool" where
  "streaming api pend w namelen controllen op c \<longleftrightarrow>
     rt_inv api pend c \<and> abs_ops (drv_ops (cl_driver c)) (op_index op) = Some (AInFlight (Some w)) \<and> op_index op \<noteq> usize_MAX
     \<and> (\<exists>d. op_data op = Some d \<and> data_items d = [] \<and> rf_msg_namelen d = namelen \<and> rf_msg_controllen d = controllen)"

lemma rt_inv_rt_ok: "rt_inv api pend c \<Longrightarrow> rt_ok (u_more api) (pend (drv_uring (cl_driver c))) (drv_ops (cl_driver c))"
  by (simp add: rt_inv_def frame_ok_def)

text \<open>A round and the polls after it.\<close>

definition mine_of :: "nat \<Rightarrow> cqe list \<Rightarrow> cqe_result list" where
  "mine_of k es = map cqe_result_from (filter (\<lambda>e. cq_user_data e = k) es)"

lemma mine_of_append [simp]: "mine_of k (xs @ ys) = mine_of k xs @ mine_of k ys"
  by (simp add: mine_of_def)

lemma mine_of_Nil [simp]: "mine_of k [] = []"
  by (simp add: mine_of_def)

lemma round_streams:
  assumes rc: "ring_contract api pend" and al: "slab_alloc_ok ca" "room_for ca N" and st: "streaming api pend w nl cl op c"
    and v: "v = snd (u_submit api (drv_uring (cl_driver c)))" and es: "es = fst (u_completion api v)"
    and room: "card (fmdom' (completions (drv_ops (cl_driver c)))) + length es \<le> N"
    and dec: "decode_all api as_socket prov nl cl (mine_of (op_index op) es) = Inr items"
  obtains bs op' c1 c2 where "run_turns api ca True [Park, Readable] c = Some (Inr ((), c1))"
    "drain (recv_up api as_socket prov) (u_more api) w op c1 = Some (Inr ((bs, op'), c2))"
    "op_index op' = op_index op" "rt_inv api pend c2" "drv_uring (cl_driver c2) = snd (u_completion api v)"
    "card (fmdom' (completions (drv_ops (cl_driver c2)))) \<le> card (fmdom' (completions (drv_ops (cl_driver c)))) + length es"
    "concat (map batch_items bs) = items" "list_all single bs"
    "outcome (u_more api) w (mine_of (op_index op) es) bs op' (abs_ops (drv_ops (cl_driver c2)) (op_index op))"
    "all_more (u_more api) (mine_of (op_index op) es) \<Longrightarrow> streaming api pend w nl cl op' c2"
    "set (drv_woken (cl_driver c)) \<subseteq> set (drv_woken (cl_driver c2))"
    "mine_of (op_index op) es \<noteq> [] \<Longrightarrow> w \<in> set (drv_woken (cl_driver c2))"
proof -
  let ?k = "op_index op" and ?up = "recv_up api as_socket prov"
  from st obtain d where s: "rt_inv api pend c" "abs_ops (drv_ops (cl_driver c)) ?k = Some (AInFlight (Some w))" "?k \<noteq> usize_MAX"
    and d: "op_data op = Some d" "data_items d = []" "rf_msg_namelen d = nl" "rf_msg_controllen d = cl" unfolding streaming_def by blast
  obtain c1 where c1: "run_turns api ca True [Park, Readable] c = Some (Inr ((), c1))" "rt_inv api pend c1"
    "drv_uring (cl_driver c1) = snd (u_completion api v)"
    "card (fmdom' (completions (drv_ops (cl_driver c1)))) \<le> card (fmdom' (completions (drv_ops (cl_driver c)))) + length es"
    "set (drv_woken (cl_driver c)) \<subseteq> set (drv_woken (cl_driver c1))"
    "waits_kept (drv_ops (cl_driver c)) (drv_ops (cl_driver c1)) (drv_woken (cl_driver c1))"
    "\<And>k. k \<noteq> usize_MAX \<Longrightarrow> abs_ops (drv_ops (cl_driver c1)) k = fold_completions (u_more api) (filter (\<lambda>e. cq_user_data e = k) es) (abs_ops (drv_ops (cl_driver c)) k)"
    using room unfolding es by (rule round_step [OF rc al s(1) v]) blast
  note ok1 = rt_inv_rt_ok [OF c1(2)]
  from round_waiting [OF c1(6) s(2) c1(7) [OF s(3)] ok1] obtain a where
    a: "abs_ops (drv_ops (cl_driver c1)) ?k = Some a" "holds (u_more api) (mine_of ?k es) a" "mine_of ?k es \<noteq> [] \<Longrightarrow> w \<in> set (drv_woken (cl_driver c1))"
    by (auto simp: mine_of_def)
  from recv_polls [OF rt_okD(1) [OF ok1] a(1) d(1,2) a(2), of api as_socket prov items w] dec d(3,4) obtain n bs op' o' where
    p: "poll_n ?up (u_more api) w n op (drv_ops (cl_driver c1)) = Inr (bs, op', o')" "length bs < n" "concat (map batch_items bs) = items"
      "list_all single bs" "outcome (u_more api) w (mine_of ?k es) bs op' (abs_ops o' ?k)" "stream_kept op (drv_ops (cl_driver c1)) d op' o'" by auto
  from drain_poll_n [OF rt_inv_owes(1,4) [OF c1(2)] p(1,2)] obtain ws where
    dr: "drain ?up (u_more api) w op c1 = Some (Inr ((bs, op'), c1\<lparr>cl_driver := (cl_driver c1)\<lparr>drv_ops := o', drv_woken := drv_woken (cl_driver c1) @ ws\<rparr>\<rparr>))"
    (is "_ = Some (Inr (_, ?c2))") by blast
  have inv2: "rt_inv api pend ?c2"
    using poll_n_rt_ok [OF ok1 p(1)] c1(2) by (simp add: rt_inv_def frame_ok_def)
  from p(6) obtain x where k: "ops_wf o'" "op_index op' = ?k" "abs_ops o' = (abs_ops (drv_ops (cl_driver c1)))(?k := x)" unfolding stream_kept_def by blast
  have "queued x = 0" using p(5) k(3) by (auto simp: outcome_def split: if_splits)
  from card_completions_upd [OF rt_okD(1) [OF ok1] k(1,3) this] c1(4) have
    card: "card (fmdom' (completions o')) \<le> card (fmdom' (completions (drv_ops (cl_driver c)))) + length es" by linarith
  have "streaming api pend w nl cl op' ?c2" if "all_more (u_more api) (mine_of ?k es)"
  proof -
    from that p(5) obtain d' where "op_data op' = Some d'" by (auto simp: outcome_def is_finished_def)
    with that p(5,6) inv2 s(3) d(3,4) show ?thesis by (auto simp: streaming_def outcome_def stream_kept_def)
  qed
  with that [OF c1(1) dr] p c1 a k inv2 card show thesis by auto
qed

text \<open>An operation the kernel does not owe a completion gets none.\<close>

lemma deliver_quiet:
  "deliver is_more es P = Some P' \<Longrightarrow> k \<notin> P \<Longrightarrow> k \<noteq> usize_MAX \<Longrightarrow> mine_of k es = [] \<and> k \<notin> P'"
  by (induction es arbitrary: P) (auto simp: mine_of_def split: if_splits)

lemma posted_quiet:
  assumes "ring_contract api pend" and "k \<noteq> usize_MAX" and "k \<notin> pend u"
  shows "mine_of k (posted api n u) = []"
  using assms(3)
proof (induction n arbitrary: u)
  case (Suc n)
  obtain r v where v: "u_submit api u = (r, v)" by force
  obtain es x where es: "u_completion api v = (es, x)" by force
  have "k \<notin> pend v" using ring_contractD(1) [OF assms(1) v] Suc.prems by simp
  from deliver_quiet [OF ring_contractD(5) [OF assms(1) es] this assms(2)] Suc.IH [of x] show ?case
    by (simp add: v es)
qed simp

lemma decode_all_append:
  "decode_all api as_socket prov nl cl (xs @ ys) = Inr items \<Longrightarrow>
   \<exists>is js. decode_all api as_socket prov nl cl xs = Inr is \<and> decode_all api as_socket prov nl cl ys = Inr js \<and> items = is @ js"
  by (induction xs arbitrary: items) (fastforce simp: bind_exec_eq_Inr)+

lemma outcome_append:
  assumes "all_more is_more q" and "outcome is_more w q bs op a" and "outcome is_more w q' bs' op' a'"
  shows "outcome is_more w (q @ q') (bs @ bs') op' a'"
proof -
  have "all_more is_more (q @ q') \<longleftrightarrow> all_more is_more q'" using assms(1) by (auto simp: all_more_def)
  moreover have "q' \<noteq> []" if "\<not> all_more is_more q'" using that by (auto simp: all_more_def)
  ultimately show ?thesis using assms by (cases "all_more is_more q'") (simp_all add: outcome_def butlast_append)
qed

lemma rounds_stream:
  assumes rc: "ring_contract api pend" and al: "slab_alloc_ok ca" "room_for ca N" and "streaming api pend w nl cl op c"
    and "card (fmdom' (completions (drv_ops (cl_driver c)))) + length (posted api n (drv_uring (cl_driver c))) \<le> N"
    and "decode_all api as_socket prov nl cl (mine_of (op_index op) (posted api n (drv_uring (cl_driver c)))) = Inr items"
  shows "\<exists>bs op' c'. multi_rounds api ca (recv_up api as_socket prov) w n op c = Some (Inr ((bs, op'), c'))
    \<and> rt_inv api pend c' \<and> concat (map batch_items bs) = items \<and> list_all single bs
    \<and> outcome (u_more api) w (mine_of (op_index op) (posted api n (drv_uring (cl_driver c)))) bs op' (abs_ops (drv_ops (cl_driver c')) (op_index op))
    \<and> set (drv_woken (cl_driver c)) \<subseteq> set (drv_woken (cl_driver c'))
    \<and> (mine_of (op_index op) (posted api n (drv_uring (cl_driver c))) \<noteq> [] \<longrightarrow> w \<in> set (drv_woken (cl_driver c')))"
  using assms(4-6)
proof (induction n arbitrary: op c items)
  case 0
  then show ?case by (auto simp: outcome_def streaming_def is_finished_def all_more_def)
next
  case (Suc n)
  let ?k = "op_index op" and ?up = "recv_up api as_socket prov"
  define v es u where "v = snd (u_submit api (drv_uring (cl_driver c)))" and "es = fst (u_completion api v)" and "u = snd (u_completion api v)"
  have post: "posted api (Suc n) (drv_uring (cl_driver c)) = es @ posted api n u" by (simp add: v_def es_def u_def Let_def)
  have "decode_all api as_socket prov nl cl (mine_of ?k es @ mine_of ?k (posted api n u)) = Inr items" using Suc.prems(3) by (simp only: post mine_of_append)
  from decode_all_append [OF this] obtain xs ys where dec: "decode_all api as_socket prov nl cl (mine_of ?k es) = Inr xs"
    "decode_all api as_socket prov nl cl (mine_of ?k (posted api n u)) = Inr ys" "items = xs @ ys" by blast
  have room: "card (fmdom' (completions (drv_ops (cl_driver c)))) + length es \<le> N" using Suc.prems(2) unfolding post by simp
  obtain bs op1 c1 c2 where r: "run_turns api ca True [Park, Readable] c = Some (Inr ((), c1))"
    "drain ?up (u_more api) w op c1 = Some (Inr ((bs, op1), c2))" "op_index op1 = ?k" "rt_inv api pend c2" "drv_uring (cl_driver c2) = u"
    "card (fmdom' (completions (drv_ops (cl_driver c2)))) \<le> card (fmdom' (completions (drv_ops (cl_driver c)))) + length es"
    "concat (map batch_items bs) = xs" "list_all single bs" "outcome (u_more api) w (mine_of ?k es) bs op1 (abs_ops (drv_ops (cl_driver c2)) ?k)"
    and st: "all_more (u_more api) (mine_of ?k es) \<Longrightarrow> streaming api pend w nl cl op1 c2"
    and wk: "set (drv_woken (cl_driver c)) \<subseteq> set (drv_woken (cl_driver c2))" "mine_of ?k es \<noteq> [] \<Longrightarrow> w \<in> set (drv_woken (cl_driver c2))"
    unfolding u_def by (rule round_streams [OF rc al Suc.prems(1) v_def es_def room dec(1)]) blast
  have nf: "\<not> is_finished op" using Suc.prems(1) by (auto simp: streaming_def is_finished_def)
  show ?case
  proof (cases "all_more (u_more api) (mine_of ?k es)")
    case True
    have "card (fmdom' (completions (drv_ops (cl_driver c2)))) + length (posted api n u) \<le> N" using r(6) Suc.prems(2) unfolding post by simp
    with Suc.IH [OF st [OF True], of ys] dec(2) r(3,5) obtain bs' op' c' where
      t: "multi_rounds api ca ?up w n op1 c2 = Some (Inr ((bs', op'), c'))" "rt_inv api pend c'" "concat (map batch_items bs') = ys"
      "list_all single bs'" "outcome (u_more api) w (mine_of ?k (posted api n u)) bs' op' (abs_ops (drv_ops (cl_driver c')) ?k)"
      "set (drv_woken (cl_driver c2)) \<subseteq> set (drv_woken (cl_driver c'))"
      "mine_of ?k (posted api n u) \<noteq> [] \<longrightarrow> w \<in> set (drv_woken (cl_driver c'))" by auto
    have "multi_rounds api ca ?up w (Suc n) op c = Some (Inr ((bs @ bs', op'), c'))" using nf r(1,2) t(1) by (simp del: run_turns.simps)
    then show ?thesis using t r(7,8) dec(3) outcome_append [OF True r(9) t(5)] wk unfolding post by (fastforce simp del: multi_rounds.simps)
  next
    case False
    then have fin: "is_finished op1" "abs_ops (drv_ops (cl_driver c2)) ?k = None" using r(9) by (auto simp: outcome_def)
    then have "?k \<notin> pend u" using rt_inv_owes(3) [OF r(4)] r(5) by (auto simp: owes_def)
    then have q: "mine_of ?k (posted api n u) = []" using posted_quiet [OF rc, of ?k u n] Suc.prems(1) by (auto simp: streaming_def)
    have "multi_rounds api ca ?up w n op1 c2 = Some (Inr (([], op1), c2))" using fin(1) by (cases n) auto
    then have "multi_rounds api ca ?up w (Suc n) op c = Some (Inr ((bs, op1), c2))" using nf r(1,2) by (simp del: run_turns.simps)
    then show ?thesis using r(4,7,8,9) q dec(2,3) wk unfolding post by (simp del: multi_rounds.simps)
  qed
qed

section \<open>The whole receive\<close>

text \<open>Submitting, polling until it waits, then \<open>r\<close> rounds with the polls after each.\<close>

definition stream_run ::
  "'u uring_api \<Rightarrow> slab_alloc \<Rightarrow> slab_alloc \<Rightarrow> waker \<Rightarrow> nat \<Rightarrow> 'd \<times> ('d \<Rightarrow> (sqe \<times> 'd) exec) \<times> ('d, 'o) updateable
   \<Rightarrow> ('u, 'd, ('o list \<times> 'd op, io_error) result) on_cell" where
  "stream_run api la ca w r m c =
     (case m of (data, f, up) \<Rightarrow>
       Option.bind (handle_submit_op api la ca data f c) (\<lambda>x. case x of Inl p \<Rightarrow> Some (Inl p)
         | Inr (Err e, c1) \<Rightarrow> Some (Inr (Err e, c1)) | Inr (Ok op, c1) \<Rightarrow>
       Option.bind (drain up (u_more api) w op c1) (\<lambda>x. case x of Inl p \<Rightarrow> Some (Inl p) | Inr ((outs, op1), c2) \<Rightarrow>
       Option.bind (multi_rounds api ca up w r op1 c2) (\<lambda>x. case x of Inl p \<Rightarrow> Some (Inl p) | Inr ((outs', op2), c3) \<Rightarrow>
         Some (Inr (Ok (outs @ outs', op2), c3))))))"

lemma stream_starts:
  assumes "ring_contract api pend" and "rt_inv api pend c" and "slab_alloc_ok la" and "slab_alloc_ok ca"
    and f: "f d = Inr (s, d)" and "ops_insert la (drv_ops (cl_driver c)) = Inr (k, o1)"
    and "u_push api (s\<lparr>sqe_user_data := k\<rparr>) (drv_uring (cl_driver c)) = Some ring" and d: "data_items d = []"
  obtains c1 c2 where "handle_submit_op api la ca d f c = Some (Inr (Ok (op_new d k), c1))"
    "drain up (u_more api) w (op_new d k) c1 = Some (Inr (([], op_new d k), c2))"
    "streaming api pend w (rf_msg_namelen d) (rf_msg_controllen d) (op_new d k) c2" "drv_uring (cl_driver c2) = ring"
    "completions (drv_ops (cl_driver c2)) = completions (drv_ops (cl_driver c))"
proof -
  obtain c1 c2 where c: "handle_submit_op api la ca d f c = Some (Inr (Ok (op_new d k), c1))"
    "op_multi_poll up (u_more api) w (op_new d k) c1 = Some (Inr ((Pending, op_new d k), c2))" "rt_inv api pend c2" "k \<noteq> usize_MAX"
    "abs_ops (drv_ops (cl_driver c2)) k = Some (AInFlight (Some w))" "drv_uring (cl_driver c2) = ring"
    "completions (drv_ops (cl_driver c2)) = completions (drv_ops (cl_driver c))"
    by (rule multi_starts [where f = f and up = up and w = w, OF assms(1-7)])
  have "streaming api pend w (rf_msg_namelen d) (rf_msg_controllen d) (op_new d k) c2"
    using c(3-5) d by (simp add: streaming_def op_new_def)
  moreover have "drain up (u_more api) w (op_new d k) c1 = Some (Inr (([], op_new d k), c2))"
    by (subst drain.simps) (simp add: c(2))
  ultimately show thesis using that [OF c(1)] c(6,7) by blast
qed

text \<open>
  C34. A multishot receive on a socket, from the call through any number of rounds of the runtime, in
  every state the runtime reaches. When the slabs and the queue have room and no header announces a
  name that leaves its buffer, nothing panics and polling after each round returns. The batches the
  task gets, put together, are exactly what the completions posted for the operation in all these
  rounds hold, each packet and each buffer that could not be parsed once and in the order of the
  completions; no batch has more than one of them, whatever batch size was asked for. While every
  completion announces more, no batch is marked as the end, the operation waits with the task's waker
  and the kernel still owes it completions; after the final one exactly the last batch carries its
  result, the operation is finished, its index is free and the kernel owes it nothing. The task is
  woken whenever there is something to take.
\<close>

theorem recv_multishot_end_to_end:
  assumes "rt_reach api la ca up (fresh_cell u n) c" and "pend u = {}" and "n \<noteq> 0" and "ring_contract api pend"
    and "slab_alloc_ok la" and "slab_alloc_ok ca" and "room_for ca N"
    and "d = udp_recv_multishot_sized name target at sock bgid cap"
    and "s = sqe_build (OpRecvMsgMulti (socket_raw_fd sock) (box_val (rf_msghdr d)) bgid)"
    and "ops_insert la (drv_ops (cl_driver c)) = Inr (k, o1)"
    and "u_push api (s\<lparr>sqe_user_data := k\<rparr>) (drv_uring (cl_driver c)) = Some ring"
    and "card (fmdom' (completions (drv_ops (cl_driver c)))) + length (posted api r ring) \<le> N"
    and "q = mine_of k (posted api r ring)"
    and "decode_all api as_socket prov (sa_len (box_val name)) 0 q = Inr items"
  shows "\<exists>bs op c'. stream_run api la ca w r (d, recv_multishot_sqe, recv_up api as_socket prov) c = Some (Inr (Ok (bs, op), c'))
    \<and> concat (map batch_items bs) = items \<and> list_all (\<lambda>b. length (batch_items b) \<le> 1) bs
    \<and> (if all_more (u_more api) q
       then list_all (\<lambda>b. bt_end b = None) bs \<and> \<not> is_finished op
         \<and> abs_ops (drv_ops (cl_driver c')) k = Some (AInFlight (Some w)) \<and> k \<in> pend (drv_uring (cl_driver c'))
       else bs \<noteq> [] \<and> list_all (\<lambda>b. bt_end b = None) (butlast bs)
         \<and> bt_end (last bs) = Some (case cr_result (last q) of Ok n \<Rightarrow> Ok () | Err e \<Rightarrow> Err e)
         \<and> is_finished op \<and> abs_ops (drv_ops (cl_driver c')) k = None \<and> k \<notin> pend (drv_uring (cl_driver c')))
    \<and> (q \<noteq> [] \<longrightarrow> w \<in> set (drv_woken (cl_driver c')))"
proof -
  have inv: "rt_inv api pend c" by (rule rt_reach_inv [OF assms(1) fresh_inv [where pend = pend, OF assms(2,3)] assms(4-6)])
  have d: "recv_multishot_sqe d = Inr (s, d)" "data_items d = []" "rf_msg_namelen d = sa_len (box_val name)" "rf_msg_controllen d = 0"
    by (simp_all add: assms(8,9) udp_recv_multishot_sized_def recv_multishot_new_def recv_multishot_sqe_def data_items_def Let_def)
  let ?up = "recv_up api as_socket prov"
  obtain c1 c2 where sub: "handle_submit_op api la ca d recv_multishot_sqe c = Some (Inr (Ok (op_new d k), c1))"
    "drain ?up (u_more api) w (op_new d k) c1 = Some (Inr (([], op_new d k), c2))"
    and st: "streaming api pend w (sa_len (box_val name)) 0 (op_new d k) c2" and c2: "drv_uring (cl_driver c2) = ring"
      "completions (drv_ops (cl_driver c2)) = completions (drv_ops (cl_driver c))"
    unfolding d(3,4) [symmetric] by (rule stream_starts [where f = recv_multishot_sqe, OF assms(4) inv assms(5,6) d(1) assms(10,11) d(2)])
  have k: "op_index (op_new d k) = k" by (simp add: op_new_def)
  from rounds_stream [OF assms(4,6,7) st, of r as_socket prov items] assms(12-14) c2 k obtain bs op c' where
    r: "multi_rounds api ca ?up w r (op_new d k) c2 = Some (Inr ((bs, op), c'))" "rt_inv api pend c'" "concat (map batch_items bs) = items"
      "list_all single bs" "outcome (u_more api) w q bs op (abs_ops (drv_ops (cl_driver c')) k)" "q \<noteq> [] \<longrightarrow> w \<in> set (drv_woken (cl_driver c'))"
    by auto
  have "stream_run api la ca w r (d, recv_multishot_sqe, ?up) c = Some (Inr (Ok (bs, op), c'))"
    using sub r(1) by (simp add: stream_run_def)
  moreover have "k \<in> pend (drv_uring (cl_driver c')) \<longleftrightarrow> all_more (u_more api) q"
    using rt_inv_owes(3) [OF r(2)] r(5) by (auto simp: owes_def outcome_def split: if_splits)
  ultimately show ?thesis using r(3-6) unfolding outcome_def single_def by (intro exI [of _ bs] exI [of _ op] exI [of _ c']) simp
qed

text \<open>
  A ring that answers a new entry with a completion that announces more and one round later with the
  final one; the two components are the new and the answered entries.
\<close>

definition more_cqe :: "nat \<Rightarrow> cqe" where
  "more_cqe k = \<lparr>cq_user_data = k, cq_result = 5, cq_flags = 6\<rparr>"

definition real_keys :: "nat list \<Rightarrow> nat list" where
  "real_keys u = filter (\<lambda>k. k \<noteq> usize_MAX) (remdups u)"

definition twice_pend :: "nat list \<times> nat list \<Rightarrow> nat set" where
  "twice_pend u = (set (fst u) \<union> set (snd u)) - {usize_MAX}"

definition twice_api :: "(nat list \<times> nat list) uring_api" where
  "twice_api = \<lparr>u_submit = (\<lambda>u. (Ok 0, u)), u_submit_and_wait = (\<lambda>n u. (Ok 0, u)),
     u_push = (\<lambda>s (f, t). Some (sqe_user_data s # f, t)), u_push_multiple = (\<lambda>ss (f, t). Some (map sqe_user_data ss @ f, t)),
     u_sq_is_empty = (\<lambda>u. True), u_sq_sync = (\<lambda>u. u),
     u_completion = (\<lambda>(f, t). (map more_cqe (real_keys f) @ map ledger_cqe (filter (\<lambda>k. k \<notin> set f) (real_keys t)), ([], f))),
     u_register_buffers = (\<lambda>b u. (Ok (), u)), u_unregister_buffers = (\<lambda>u. (Ok (), u)),
     u_register_files = (\<lambda>f u. (Ok (), u)), u_unregister_files = (\<lambda>u. (Ok (), u)),
     u_more = demo_more, u_buffer_select = (\<lambda>f. if f = 6 then Some 7 else Some 8)\<rparr>"

lemma deliver_more:
  "set ks \<subseteq> P \<Longrightarrow> usize_MAX \<notin> set ks \<Longrightarrow> deliver demo_more (map more_cqe ks @ es) P = deliver demo_more es P"
  by (induction ks) (simp_all add: more_cqe_def demo_more_def)

lemma twice_delivers:
  "deliver demo_more (map more_cqe (real_keys f) @ map ledger_cqe (filter (\<lambda>k. k \<notin> set f) (real_keys t))) (twice_pend (f, t))
    = Some (twice_pend ([], f))"
proof -
  let ?t = "filter (\<lambda>k. k \<notin> set f) (real_keys t)"
  have "deliver demo_more (map ledger_cqe ?t) (twice_pend (f, t)) = Some (twice_pend (f, t) - set ?t)"
    by (rule deliver_ledger) (auto simp: real_keys_def twice_pend_def)
  moreover have "twice_pend (f, t) - set ?t = twice_pend ([], f)" by (auto simp: real_keys_def twice_pend_def)
  ultimately show ?thesis by (subst deliver_more) (auto simp: real_keys_def twice_pend_def)
qed

lemma twice_contract: "ring_contract twice_api twice_pend"
  by (auto simp: ring_contract_def twice_api_def twice_delivers) (auto simp: twice_pend_def)

definition twice_socket :: socket where
  "twice_socket = \<lparr>so_fd = shared_fd_new 3\<rparr>"

definition twice_name :: "sock_addr boxed" where
  "twice_name = \<lparr>box_ptr = 64, box_val = \<lparr>sa_storage = [], sa_len = 16\<rparr>\<rparr>"

definition twice_items :: "item list" where
  "twice_items = [Unparsed 7, Packet \<lparr>pk_bytes_received = 0, pk_source_addr = V4 1 2, pk_buffer_id = 8, pk_payload_offset = 32, pk_more = False\<rparr>]"

lemma twice_posted: "posted twice_api 2 ([0], []) = [more_cqe 0, ledger_cqe 0]"
  by (simp add: numeral_2_eq_2 twice_api_def real_keys_def usize_MAX_def)

lemma twice_mine: "mine_of 0 (posted twice_api 2 ([0], [])) = [cqe_result_from (more_cqe 0), cqe_result_from (ledger_cqe 0)]"
  by (simp add: twice_posted mine_of_def more_cqe_def)

lemma twice_decoded:
  "decode_all twice_api (\<lambda>s. Some (V4 1 2)) demo_provider 16 0 [cqe_result_from (more_cqe 0), cqe_result_from (ledger_cqe 0)] = Inr twice_items"
proof -
  have "parse_recvmsg_out (\<lambda>s. Some (V4 1 2)) (16 # replicate 31 0) 16 0 = Inr (Ok (V4 1 2, 32, 0))"
    by (simp add: parse_recvmsg_out_def le_u32_def sockaddr_in_size_def Let_def)
  then show ?thesis
    by (simp add: decode_def twice_api_def demo_provider_def more_cqe_def ledger_cqe_def cqe_result_from_def demo_res demo_more_def twice_items_def)
       (simp add: parse_recvmsg_out_def)
qed

theorem recv_multishot_end_to_end_witness:
  "\<exists>bs op c'. stream_run twice_api (first_vacant 4) (first_vacant 4) 9 2
      (udp_recv_multishot_sized twice_name 96 128 twice_socket 1 32, recv_multishot_sqe, recv_up twice_api (\<lambda>s. Some (V4 1 2)) demo_provider)
      (fresh_cell ([], []) 2) = Some (Inr (Ok (bs, op), c'))
    \<and> concat (map batch_items bs) = twice_items \<and> bs \<noteq> [] \<and> bt_end (last bs) = Some (Ok ()) \<and> is_finished op
    \<and> 9 \<in> set (drv_woken (cl_driver c'))"
proof -
  let ?c = "fresh_cell ([], []) 2 :: (nat list \<times> nat list, recv_multishot) cell"
  obtain o1 where ins: "ops_insert (first_vacant 4) (drv_ops (cl_driver ?c)) = Inr (0, o1)"
    by (auto simp: ops_insert_def slab_insert_def first_vacant_def fresh_cell_def ops_new_def upt_conv_Cons)
  have room: "room_for (first_vacant 4) 2"
    by (auto simp: room_for_def first_vacant_def find_None_iff upt_conv_Cons dest: card_mono [of _ "{0, 1}"])
  have push: "u_push twice_api (s\<lparr>sqe_user_data := 0\<rparr>) (drv_uring (cl_driver ?c)) = Some ([0], [])" for s
    by (simp add: twice_api_def fresh_cell_def)
  have card: "card (fmdom' (completions (drv_ops (cl_driver ?c)))) + length (posted twice_api 2 ([0], [])) \<le> 2"
    by (simp add: twice_posted) (simp add: fresh_cell_def ops_new_def)
  have pend: "twice_pend ([], []) = {}" by (simp add: twice_pend_def)
  have nl: "sa_len (box_val twice_name) = 16" by (simp add: twice_name_def)
  have fin: "\<not> all_more (u_more twice_api) [cqe_result_from (more_cqe 0), cqe_result_from (ledger_cqe 0)]"
    by (simp add: all_more_def twice_api_def)
  have res: "cr_result (cqe_result_from (ledger_cqe 0)) = Ok 5" by (simp add: cqe_result_from_def ledger_cqe_def demo_res)
  from recv_multishot_end_to_end [where name = twice_name and target = 96 and at = 128 and sock = twice_socket and bgid = 1 and cap = 32 and w = 9,
      OF rt_reach.Here [of _ _ _ "recv_up twice_api (\<lambda>s. Some (V4 1 2)) demo_provider"] pend _ twice_contract demo_alloc demo_alloc room refl refl ins push card twice_mine [symmetric]
        twice_decoded [folded nl]]
  show ?thesis using fin res by auto
qed

end
