(* ===== verification/Task_Layers.thy ===== *)
theory Task_Layers
  imports Multishot_Layers Io_Write_All
begin

text \<open>
  Tasks through the layers. A task awaits requests one after the other, each made from the output of
  the one before; the loops that write a whole buffer are such tasks. Run by the runtime, a task gives
  what awaiting its requests on the kernel function gives, while other operations complete beside it.
\<close>

section \<open>Tasks\<close>

datatype ('d, 'o, 'a) task = Done 'a | Panics panic | Await "('d, 'o) request" "'o \<Rightarrow> ('d, 'o, 'a) task"

primrec await_task :: "('d, 's) performer \<Rightarrow> ('d, 'o, 'a) task \<Rightarrow> 's \<Rightarrow> ('a \<times> 's) exec" where
  "await_task perform (Done a) st = Inr (a, st)"
| "await_task perform (Panics p) st = Inl p"
| "await_task perform (Await rq f) st = bind_exec (await_request perform rq st) (\<lambda>(out, st'). await_task perform (f out) st')"



section \<open>A kernel that answers\<close>







section \<open>One request\<close>





section \<open>Tasks refine\<close>



section \<open>Writing a whole buffer\<close>

text \<open>The loops of \<^verbatim>\<open>File::write_fixed_all_at\<close> (\<open>step\<close>) and \<^verbatim>\<open>Socket::write_fixed_all\<close> as tasks.\<close>

function write_all_task ::
  "bool \<Rightarrow> raw_fd \<Rightarrow> buffer slice \<Rightarrow> nat \<Rightarrow> (fixed_data, (nat, bounded) buf_result, (unit, buffer) buf_result) task" where
  "write_all_task step fd s pos =
     (case slice_bytes_init buffer_io_buf s of
        Inl p \<Rightarrow> Panics p
      | Inr m \<Rightarrow>
          if m = 0 then Done (Ok ((), into_inner s))
          else Await (write_fixed_at fd (Sliced s) pos) (\<lambda>r.
            case r of
              Err e \<Rightarrow> Done (Err (error_map bb_get_buf e))
            | Ok (n, b) \<Rightarrow>
                if n = 0 then Done (Err (write_zero, bb_get_buf b))
                else (case slice_slice buffer_io_buf s (Included n) Unbounded of
                        Inl p \<Rightarrow> Panics p
                      | Inr s' \<Rightarrow> write_all_task step fd s' (if step then wrapping_add pos n else 0))))"
  by pat_completeness auto
termination
  by (relation "measure (\<lambda>(step, fd, s, pos). min (s_end s) (buffer_bytes_init (s_buf s)) - s_begin s)") (auto dest: slice_from_dec(1))

declare write_all_task.simps [simp del]

text \<open>A kernel that does not write into the data of its requests.\<close>

definition quietly :: "'s kernel \<Rightarrow> ('d, 's) performer" where
  "quietly perform c d st = (case perform c st of (cqe, st') \<Rightarrow> (cqe, d, st'))"

lemma await_write:
  "await_request (quietly perform) (write_fixed_at fd (Sliced s) pos) st
   = bind_exec (write_fixed_await perform fd s pos st) (\<lambda>(r, st'). Inr (map_buf Sliced r, st'))"
  unfolding quietly_def [abs_def] by (rule write_fixed_await_request [symmetric])

lemma error_map_Sliced [simp]: "error_map bb_get_buf (error_map Sliced e) = error_map into_inner e"
  by (cases e) (simp add: into_inner_def)

text \<open>Awaiting a round of the loop.\<close>

lemma write_all_task_await:
  "await_task (quietly perform) (write_all_task step fd s pos) st =
     bind_exec (slice_bytes_init buffer_io_buf s) (\<lambda>m.
       if m = 0 then Inr (Ok ((), into_inner s), st)
       else bind_exec (write_fixed_await perform fd s pos st) (\<lambda>(r, st').
         case r of
           Err e \<Rightarrow> Inr (Err (error_map into_inner e), st')
         | Ok (n, sl) \<Rightarrow>
             if n = 0 then Inr (Err (write_zero, into_inner sl), st')
             else bind_exec (slice_slice buffer_io_buf s (Included n) Unbounded) (\<lambda>s'.
               await_task (quietly perform) (write_all_task step fd s' (if step then wrapping_add pos n else 0)) st')))"
  by (subst write_all_task.simps) (auto simp: await_write bind_exec_def into_inner_def split: sum.splits result.splits)


lemma write_all_task_socket:
  "await_task (quietly perform) (write_all_task False fd s 0) st = socket_write_all_loop perform fd s st"
  by (induction perform fd s st rule: socket_write_all_loop.induct)
    (subst write_all_task_await, subst socket_write_all_loop.simps, auto intro!: bind_exec_cong split: result.splits)


















end
