(* ===== verification/Crate_Tests.thy ===== *)
theory Crate_Tests
  imports Runtime_Liveness
begin

text \<open>
  The unit tests of the crate as definitions over the model: the tests of
  \<^verbatim>\<open>src/src/runtime/driver/mod.rs\<close> and \<^verbatim>\<open>op/slab_list.rs\<close>, and the ones of
  \<^verbatim>\<open>src/src/runtime/mod.rs\<close> and \<^verbatim>\<open>src/src/io/noop.rs\<close>. Each is a program whose assertions are
  panics; that it passes is that it returns. They pass for every slab allocator that keeps its
  contract and every ring, which is more than running them shows.
\<close>

section \<open>Sequencing\<close>

definition bind_cell :: "('u, 'd, 'a) on_cell \<Rightarrow> ('a \<Rightarrow> ('u, 'd, 'b) on_cell) \<Rightarrow> ('u, 'd, 'b) on_cell" where
  "bind_cell m f c =
     Option.bind (m c) (\<lambda>r. case r of Inl p \<Rightarrow> Some (Inl p) | Inr (x, c') \<Rightarrow> f x c')"

definition assert_cell :: "(('u, 'd) cell \<Rightarrow> bool) \<Rightarrow> ('u, 'd, unit) on_cell" where
  "assert_cell P c = Some (if P c then Inr ((), c) else Inl Assertion)"

section \<open>Tests of the driver\<close>

text \<open>
  The data of the test operations is an \<^verbatim>\<open>Rc<()>\<close>. \<open>strong_count\<close> counts its clones: the one the
  test holds, one in a handle that still has its data, one for every \<^verbatim>\<open>Ignored\<close> entry that keeps
  the data, and \<open>outs\<close> in the outputs the test holds.
\<close>

record completion =
  cp_result :: "(u32, io_error) result"
  cp_flags :: u32

definition rc_completable :: "(unit, completion) completable" where
  "rc_completable = \<lparr>co_complete = (\<lambda>d cqe. Inr \<lparr>cp_result = cr_result cqe, cp_flags = cr_flags cqe\<rparr>)\<rparr>"

definition ignored_data :: "'d ops \<Rightarrow> nat" where
  "ignored_data o1 = length (filter (\<lambda>k. case fmlookup (lifecycle o1) k of Some (Ignored (Some d)) \<Rightarrow> True | _ \<Rightarrow> False)
     (slab_keys (lifecycle o1)))"

definition strong_count :: "unit op option \<Rightarrow> nat \<Rightarrow> ('u, unit) cell \<Rightarrow> nat" where
  "strong_count held outs c =
     1 + (case held of Some op \<Rightarrow> (if is_finished op then 0 else 1) | None \<Rightarrow> 0)
       + ignored_data (drv_ops (cl_driver c)) + outs"

definition test_num_operations :: "('u, unit) cell \<Rightarrow> nat" where
  "test_num_operations c = num_operations (cl_driver c)"

text \<open>\<^verbatim>\<open>init\<close>: the context holds the only strong handle; the operation has a weak one.\<close>

definition test_init :: "('b, 'u) ring_builder \<Rightarrow> slab_alloc \<Rightarrow> ctx \<Rightarrow> (unit op \<times> ctx \<times> ('u, unit) cell) exec" where
  "test_init rb la cx =
     (case driver_new rb (builder_default rb) of
        Err e \<Rightarrow> Inl unwrap_err
      | Ok driver \<Rightarrow>
          bind_exec (set_handle cx) (\<lambda>cx'.
          bind_exec (ops_insert la (drv_ops driver)) (\<lambda>(index, o').
            Inr (op_new () index, cx', handle_from (driver\<lparr>drv_ops := o'\<rparr>)))))"

definition test_complete :: "'u uring_api \<Rightarrow> slab_alloc \<Rightarrow> nat \<Rightarrow> ('u, unit, unit) on_cell" where
  "test_complete api ca index =
     borrow_mut (\<lambda>d. Some (bind_exec (ops_complete (u_more api) ca index zeroed_cqe (drv_ops d)) (\<lambda>(o', ws).
       Inr ((), d\<lparr>drv_ops := o', drv_woken := drv_woken d @ ws\<rparr>))))"

text \<open>\<^verbatim>\<open>release\<close>: the slabs are cleared, the context is cleared, the last handle drops the driver.\<close>

definition test_release :: "'u uring_api \<Rightarrow> slab_alloc \<Rightarrow> ctx \<Rightarrow> ('u, unit, ctx) on_cell" where
  "test_release api ca cx =
     bind_cell (borrow_mut (\<lambda>d. Some (Inr ((), d\<lparr>drv_ops := \<lparr>lifecycle = fmempty, completions = fmempty\<rparr>\<rparr>)))) (\<lambda>_ c.
       case unset_driver cx of
         Inl p \<Rightarrow> Some (Inl p)
       | Inr cx' \<Rightarrow> bind_cell (handle_drop api ca) (\<lambda>_ c'. Some (Inr (cx', c'))) c)"

text \<open>\<^verbatim>\<open>assert_pending!\<close>, \<^verbatim>\<open>assert_ready!\<close> on a poll of the task with waker \<open>w\<close>, \<^verbatim>\<open>is_woken\<close>.\<close>

definition assert_pending :: "waker \<Rightarrow> unit op \<Rightarrow> ('u, unit, unit op) on_cell" where
  "assert_pending w op =
     bind_cell (op_poll rc_completable w op) (\<lambda>(r, op') c.
       case r of Pending \<Rightarrow> Some (Inr (op', c)) | Ready x \<Rightarrow> Some (Inl Assertion))"

definition assert_ready :: "waker \<Rightarrow> unit op \<Rightarrow> ('u, unit, completion \<times> unit op) on_cell" where
  "assert_ready w op =
     bind_cell (op_poll rc_completable w op) (\<lambda>(r, op') c.
       case r of Pending \<Rightarrow> Some (Inl Assertion) | Ready x \<Rightarrow> Some (Inr ((x, op'), c)))"

definition is_woken :: "waker \<Rightarrow> ('u, unit) cell \<Rightarrow> bool" where
  "is_woken w c \<longleftrightarrow> w \<in> set (drv_woken (cl_driver c))"

text \<open>\<^verbatim>\<open>assert_eq!(0, result.unwrap()); assert_eq!(0, flags)\<close>\<close>

definition assert_zero :: "completion \<Rightarrow> ('u, unit, unit) on_cell" where
  "assert_zero x c =
     (case cp_result x of
        Err e \<Rightarrow> Some (Inl unwrap_err)
      | Ok n \<Rightarrow> assert_cell (\<lambda>_. n = 0 \<and> cp_flags x = 0) c)"

definition op_stays_in_slab_on_drop :: "'u uring_api \<Rightarrow> slab_alloc \<Rightarrow> ctx \<Rightarrow> unit op \<Rightarrow> ('u, unit, ctx) on_cell" where
  "op_stays_in_slab_on_drop api ca cx op =
     bind_cell (op_drop (u_more api) op) (\<lambda>_.
     bind_cell (assert_cell (\<lambda>c. strong_count None 0 c = 2)) (\<lambda>_.
     bind_cell (assert_cell (\<lambda>c. test_num_operations c = 1)) (\<lambda>_.
       test_release api ca cx)))"

definition poll_op_once :: "'u uring_api \<Rightarrow> slab_alloc \<Rightarrow> ctx \<Rightarrow> unit op \<Rightarrow> ('u, unit, ctx) on_cell" where
  "poll_op_once api ca cx op =
     bind_cell (assert_pending 1 op) (\<lambda>op.
     bind_cell (assert_cell (\<lambda>c. strong_count (Some op) 0 c = 2)) (\<lambda>_.
     bind_cell (test_complete api ca (op_index op)) (\<lambda>_.
     bind_cell (assert_cell (\<lambda>c. test_num_operations c = 1)) (\<lambda>_.
     bind_cell (assert_cell (\<lambda>c. strong_count (Some op) 0 c = 2)) (\<lambda>_.
     bind_cell (assert_cell (is_woken 1)) (\<lambda>_.
     bind_cell (assert_ready 1 op) (\<lambda>(x, op).
     bind_cell (assert_cell (\<lambda>c. strong_count (Some op) 1 c = 2)) (\<lambda>_.
     bind_cell (assert_zero x) (\<lambda>_.
     bind_cell (assert_cell (\<lambda>c. strong_count (Some op) 0 c = 1)) (\<lambda>_.
     bind_cell (op_drop (u_more api) op) (\<lambda>_.
     bind_cell (assert_cell (\<lambda>c. test_num_operations c = 0)) (\<lambda>_.
       test_release api ca cx))))))))))))"

definition poll_op_twice :: "'u uring_api \<Rightarrow> slab_alloc \<Rightarrow> ctx \<Rightarrow> unit op \<Rightarrow> ('u, unit, ctx) on_cell" where
  "poll_op_twice api ca cx op =
     bind_cell (assert_pending 1 op) (\<lambda>op.
     bind_cell (assert_pending 1 op) (\<lambda>op.
     bind_cell (test_complete api ca (op_index op)) (\<lambda>_.
     bind_cell (assert_cell (is_woken 1)) (\<lambda>_.
     bind_cell (assert_ready 1 op) (\<lambda>(x, op).
     bind_cell (assert_zero x) (\<lambda>_.
     bind_cell (op_drop (u_more api) op) (\<lambda>_.
       test_release api ca cx)))))))"

text \<open>The operation moves to another task; only the last waker counts.\<close>

definition poll_change_task :: "'u uring_api \<Rightarrow> slab_alloc \<Rightarrow> ctx \<Rightarrow> unit op \<Rightarrow> ('u, unit, ctx) on_cell" where
  "poll_change_task api ca cx op =
     bind_cell (assert_pending 1 op) (\<lambda>op.
     bind_cell (assert_pending 2 op) (\<lambda>op.
     bind_cell (test_complete api ca (op_index op)) (\<lambda>_.
     bind_cell (assert_cell (is_woken 2)) (\<lambda>_.
     bind_cell (assert_ready 2 op) (\<lambda>(x, op).
     bind_cell (assert_zero x) (\<lambda>_.
     bind_cell (op_drop (u_more api) op) (\<lambda>_.
       test_release api ca cx)))))))"

definition complete_before_poll :: "'u uring_api \<Rightarrow> slab_alloc \<Rightarrow> ctx \<Rightarrow> unit op \<Rightarrow> ('u, unit, ctx) on_cell" where
  "complete_before_poll api ca cx op =
     bind_cell (test_complete api ca (op_index op)) (\<lambda>_.
     bind_cell (assert_cell (\<lambda>c. test_num_operations c = 1)) (\<lambda>_.
     bind_cell (assert_cell (\<lambda>c. strong_count (Some op) 0 c = 2)) (\<lambda>_.
     bind_cell (assert_ready 1 op) (\<lambda>(x, op).
     bind_cell (assert_zero x) (\<lambda>_.
     bind_cell (op_drop (u_more api) op) (\<lambda>_.
     bind_cell (assert_cell (\<lambda>c. test_num_operations c = 0)) (\<lambda>_.
       test_release api ca cx)))))))"

definition complete_after_drop :: "'u uring_api \<Rightarrow> slab_alloc \<Rightarrow> ctx \<Rightarrow> unit op \<Rightarrow> ('u, unit, ctx) on_cell" where
  "complete_after_drop api ca cx op =
     (let index = op_index op in
     bind_cell (op_drop (u_more api) op) (\<lambda>_.
     bind_cell (assert_cell (\<lambda>c. strong_count None 0 c = 2)) (\<lambda>_.
     bind_cell (assert_cell (\<lambda>c. test_num_operations c = 1)) (\<lambda>_.
     bind_cell (test_complete api ca index) (\<lambda>_.
     bind_cell (assert_cell (\<lambda>c. strong_count None 0 c = 1)) (\<lambda>_.
     bind_cell (assert_cell (\<lambda>c. test_num_operations c = 0)) (\<lambda>_.
       test_release api ca cx)))))))"

text \<open>A test: \<^verbatim>\<open>init\<close>, the body; it passes when the body returns and the context is clear again.\<close>

definition run_test ::
  "('b, 'u) ring_builder \<Rightarrow> slab_alloc \<Rightarrow> (ctx \<Rightarrow> unit op \<Rightarrow> ('u, unit, ctx) on_cell) \<Rightarrow> bool" where
  "run_test rb la body =
     (case test_init rb la ctx_new of
        Inl p \<Rightarrow> False
      | Inr (op, cx, c) \<Rightarrow>
          (case body cx op c of Some (Inr (cx', c')) \<Rightarrow> \<not> is_set cx' | _ \<Rightarrow> False))"

section \<open>They pass\<close>

text \<open>The states a test goes through: one operation at the index \<open>k\<close> in the state \<open>lc\<close>.\<close>

definition one_op :: "'u \<Rightarrow> nat \<Rightarrow> unit lifecycle \<Rightarrow> waker list \<Rightarrow> ('u, unit) cell" where
  "one_op u k lc ws = handle_from \<lparr>drv_ops = \<lparr>lifecycle = fmupd k lc fmempty, completions = fmempty\<rparr>, drv_uring = u, drv_woken = ws\<rparr>"

definition no_ops :: "'u \<Rightarrow> waker list \<Rightarrow> ('u, unit) cell" where
  "no_ops u ws = handle_from \<lparr>drv_ops = \<lparr>lifecycle = fmempty, completions = fmempty\<rparr>, drv_uring = u, drv_woken = ws\<rparr>"

lemmas cell_simps = one_op_def no_ops_def handle_from_def borrow_mut_def on_ops_def upgrade_def

lemma slab_keys_one [simp]: "slab_keys (fmupd k v fmempty) = [k]" "slab_keys fmempty = []"
  by (simp_all add: slab_keys_def)

lemma counts [simp]:
  "test_num_operations (one_op u k lc ws) = 1" "test_num_operations (no_ops u ws) = 0"
  "strong_count h n (one_op u k lc ws) = 1 + (case h of Some op \<Rightarrow> (if is_finished op then 0 else 1) | None \<Rightarrow> 0)
     + (case lc of Ignored (Some d) \<Rightarrow> 1 | _ \<Rightarrow> 0) + n"
  "strong_count h n (no_ops u ws) = 1 + (case h of Some op \<Rightarrow> (if is_finished op then 0 else 1) | None \<Rightarrow> 0) + n"
  "is_woken w (one_op u k lc ws) = (w \<in> set ws)"
  by (simp_all add: test_num_operations_def num_operations_def strong_count_def ignored_data_def is_woken_def
      one_op_def no_ops_def handle_from_def split: lifecycle.split option.split)

lemma init_ok:
  assumes "rb_build rb 256 (rb_new rb) = Ok u" and "la {} = Some k"
  shows "test_init rb la ctx_new = Inr (op_new () k, True, one_op u k Submitted [])"
  using assms by (simp add: test_init_def driver_new_def builder_default_def bind_result_def set_handle_def ctx_new_def
      ops_insert_def slab_insert_def ops_new_def one_op_def)

lemma put_one: "put_lc k lc \<lparr>lifecycle = fmupd k lc' fmempty, completions = fmempty\<rparr>
    = \<lparr>lifecycle = fmupd k lc fmempty, completions = fmempty\<rparr>"
  by (auto simp: put_lc_def intro!: fmap_ext)

lemma drop_one: "fmdrop k (fmupd k v fmempty) = fmempty"
  by (rule fmap_ext) simp

lemma pending_ok:
  "assert_pending w (op_new () k) (one_op u k Submitted ws) = Some (Inr (op_new () k, one_op u k (Waiting w) ws))"
  "assert_pending w (op_new () k) (one_op u k (Waiting v) ws) = Some (Inr (op_new () k, one_op u k (Waiting w) ws))"
  by (simp_all add: assert_pending_def bind_cell_def op_poll_def handle_poll_op_def poll_op_def cell_simps op_new_def put_one)

lemma ready_ok:
  "assert_ready w (op_new () k) (one_op u k (Completed zeroed_cqe) ws)
     = Some (Inr ((\<lparr>cp_result = Ok 0, cp_flags = 0\<rparr>, \<lparr>op_index = k, op_data = None\<rparr>), no_ops u ws))"
  by (simp add: assert_ready_def bind_cell_def op_poll_def handle_poll_op_def poll_op_def cell_simps op_new_def
      ops_remove_def slab_remove_def drop_one take_data_def rc_completable_def cqe_result_from_def zeroed_cqe_def Let_def)

lemma complete_ok:
  assumes "\<not> u_more api 0"
  shows "test_complete api ca k (one_op u k Submitted ws) = Some (Inr ((), one_op u k (Completed zeroed_cqe) ws))"
    and "test_complete api ca k (one_op u k (Waiting w) ws) = Some (Inr ((), one_op u k (Completed zeroed_cqe) (ws @ [w])))"
    and "test_complete api ca k (one_op u k (Ignored d) ws) = Some (Inr ((), no_ops u ws))"
proof -
  have upd: "fmupd k lc (fmupd k lc' fmempty) = fmupd k lc fmempty" for lc lc' :: "unit lifecycle"
    by (rule fmap_ext) simp
  show "test_complete api ca k (one_op u k Submitted ws) = Some (Inr ((), one_op u k (Completed zeroed_cqe) ws))"
    "test_complete api ca k (one_op u k (Waiting w) ws) = Some (Inr ((), one_op u k (Completed zeroed_cqe) (ws @ [w])))"
    "test_complete api ca k (one_op u k (Ignored d) ws) = Some (Inr ((), no_ops u ws))"
    using assms
    by (simp_all add: test_complete_def cell_simps ops_complete_def slab_index_def zeroed_cqe_def upd ops_remove_def
        slab_remove_def drop_one Let_def)
qed

lemma drop_ok:
  "op_drop im (op_new () k) (one_op u k Submitted ws) = Some (Inr (\<lparr>op_index = k, op_data = None\<rparr>, one_op u k (Ignored (Some ())) ws))"
  "op_drop im \<lparr>op_index = k, op_data = None\<rparr> (no_ops u ws) = Some (Inr (\<lparr>op_index = k, op_data = None\<rparr>, no_ops u ws))"
  by (simp_all add: op_drop_def handle_remove_op_def remove_op_def remove_lc_def is_finished_def take_data_def op_new_def cell_simps put_one)

lemma driver_drop_empty:
  assumes "u_sq_is_empty api u"
  shows "driver_drop api ca \<lparr>drv_ops = \<lparr>lifecycle = fmempty, completions = fmempty\<rparr>, drv_uring = u, drv_woken = ws\<rparr>
    = Some (Inr \<lparr>drv_ops = \<lparr>lifecycle = fmempty, completions = fmempty\<rparr>, drv_uring = u, drv_woken = ws\<rparr>)"
  using assms
  by (simp add: driver_drop_def flush_sq.simps [of _ _ "_\<lparr>drv_ops := _\<rparr>"] flush_sq.simps [of api ca "\<lparr>drv_ops = _, drv_uring = _, drv_woken = _\<rparr>"]
      drain_ops.simps [of api ca 0] slab_is_empty_def ops_drop_def)

lemma release_ok:
  assumes "u_sq_is_empty api u"
  shows "\<exists>c'. test_release api ca True (one_op u k lc ws) = Some (Inr (False, c'))"
    and "\<exists>c'. test_release api ca True (no_ops u ws) = Some (Inr (False, c'))"
  using assms
  by (simp_all add: test_release_def bind_cell_def unset_driver_def handle_drop_def cell_simps driver_drop_empty)

lemma op_new_simps [simp]: "op_index (op_new d k) = k" "is_finished (op_new d k) = False"
  "is_finished \<lparr>op_index = k, op_data = None\<rparr>"
  by (simp_all add: op_new_def is_finished_def)

lemmas test_simps = pending_ok ready_ok drop_ok complete_ok bind_cell_def assert_cell_def assert_zero_def

lemmas test_defs = op_stays_in_slab_on_drop_def poll_op_once_def poll_op_twice_def poll_change_task_def
  complete_before_poll_def complete_after_drop_def

text \<open>
  The unit tests of the driver pass, for every slab allocator, every ring whose queue is empty
  when it is built, and every \<^verbatim>\<open>cqueue::more\<close> that is false of the zero flags: the reference
  counts, the number of operations, the wake-ups, the outputs and the final shutdown are the ones
  they assert.
\<close>

theorem driver_tests_pass:
  assumes "rb_build rb 256 (rb_new rb) = Ok u" and "la {} = Some k" and "u_sq_is_empty api u" and "\<not> u_more api 0"
  shows "list_all (run_test rb la) [op_stays_in_slab_on_drop api ca, poll_op_once api ca, poll_op_twice api ca,
    poll_change_task api ca, complete_before_poll api ca, complete_after_drop api ca]"
proof -
  obtain c1 c2 c3 c4 where rel:
    "test_release api ca True (one_op u k (Ignored (Some ())) []) = Some (Inr (False, c1))"
    "test_release api ca True (no_ops u [1]) = Some (Inr (False, c2))"
    "test_release api ca True (no_ops u [2]) = Some (Inr (False, c3))"
    "test_release api ca True (no_ops u []) = Some (Inr (False, c4))"
    using release_ok [OF assms(3), of ca] by meson
  show ?thesis
    by (simp add: run_test_def init_ok [where la = la and rb = rb, OF assms(1,2)] test_defs test_simps assms(4) rel [unfolded One_nat_def] is_set_def Let_def)
qed

theorem driver_tests_pass_witness:
  "list_all (run_test demo_rb (first_vacant 4)) [op_stays_in_slab_on_drop demo_api (first_vacant 4),
    poll_op_once demo_api (first_vacant 4), poll_op_twice demo_api (first_vacant 4), poll_change_task demo_api (first_vacant 4),
    complete_before_poll demo_api (first_vacant 4), complete_after_drop demo_api (first_vacant 4)]"
  by (rule driver_tests_pass [where u = True and k = 0])
     (simp_all add: demo_rb_def demo_api_def demo_more_def first_vacant_def upt_conv_Cons)

section \<open>Tests of the slab lists\<close>

definition test_list :: "nat slab_list" where
  "test_list = into_list slab_list_indices_new fmempty"

primrec push_loop :: "slab_alloc \<Rightarrow> nat list \<Rightarrow> nat slab_list \<Rightarrow> nat slab_list exec" where
  "push_loop al [] l = Inr l"
| "push_loop al (i # is) l =
     bind_exec (push al i l) (\<lambda>l.
     bind_exec (peek_end l) (\<lambda>e.
     bind_exec (assert_that (e = Some i)) (\<lambda>_.
     bind_exec (assert_that (\<not> slab_list_is_empty l)) (\<lambda>_.
     bind_exec (assert_that (\<not> slab_is_empty (sl_slab l))) (\<lambda>_.
       push_loop al is l)))))"

primrec pop_loop :: "nat list \<Rightarrow> nat slab_list \<Rightarrow> nat slab_list exec" where
  "pop_loop [] l = Inr l"
| "pop_loop (i # is) l = (case pop l of (e, l') \<Rightarrow> bind_exec (assert_that (e = Some i)) (\<lambda>_. pop_loop is l'))"

definition push_pop :: "slab_alloc \<Rightarrow> unit exec" where
  "push_pop al =
     (let list = test_list in
     bind_exec (assert_that (slab_list_is_empty list)) (\<lambda>_. case pop list of (e, list) \<Rightarrow>
     bind_exec (assert_that (e = None)) (\<lambda>_.
     bind_exec (push_loop al [0, 1, 2, 3, 4] list) (\<lambda>list.
     bind_exec (pop_loop [0, 1, 2, 3, 4] list) (\<lambda>list.
     bind_exec (assert_that (slab_list_is_empty list)) (\<lambda>_.
     bind_exec (assert_that (slab_is_empty (sl_slab list))) (\<lambda>_.
       assert_that (fst (pop list) = None))))))))"

definition entries_freed_on_drop :: "slab_alloc \<Rightarrow> unit exec" where
  "entries_freed_on_drop al =
     bind_exec (push al 42 test_list) (\<lambda>list.
     bind_exec (assert_that (\<not> slab_list_is_empty list)) (\<lambda>_.
     bind_exec (slab_list_drop list) (\<lambda>slab.
       assert_that (slab_is_empty slab))))"

definition entries_kept_on_conversion_to_index :: "slab_alloc \<Rightarrow> unit exec" where
  "entries_kept_on_conversion_to_index al =
     bind_exec (push al 42 test_list) (\<lambda>list.
     bind_exec (assert_that (\<not> slab_list_is_empty list)) (\<lambda>_.
     bind_exec (into_indices list) (\<lambda>(ix, slab).
       assert_that (\<not> slab_is_empty slab))))"

text \<open>The list has the whole slab to itself and holds \<open>xs\<close>.\<close>

definition sole_list :: "nat slab_list \<Rightarrow> nat list \<Rightarrow> bool" where
  "sole_list l xs \<longleftrightarrow> (\<exists>ks. list_rep (sl_slab l) (sl_index l) ks \<and> entries_at (sl_slab l) ks = xs \<and> fmdom' (sl_slab l) = set ks)"

lemma assert_that_simps [simp]: "assert_that True = Inr ()" "assert_that c = Inr () \<longleftrightarrow> c"
  by (simp_all add: assert_that_def)

lemma sole_test_list: "sole_list test_list []"
  by (simp add: sole_list_def test_list_def into_list_def from_indices_def)

lemma sole_is_empty:
  assumes "sole_list l xs"
  shows "slab_list_is_empty l \<longleftrightarrow> xs = []" and "slab_is_empty (sl_slab l) \<longleftrightarrow> xs = []"
    and "xs \<noteq> [] \<Longrightarrow> peek_end l = Inr (Some (last xs))"
proof -
  from assms obtain ks where ks: "list_rep (sl_slab l) (sl_index l) ks" "entries_at (sl_slab l) ks = xs"
    "fmdom' (sl_slab l) = set ks" by (auto simp: sole_list_def)
  then have nil: "ks = [] \<longleftrightarrow> xs = []" using entries_at_eq_Nil by metis
  show "slab_list_is_empty l \<longleftrightarrow> xs = []"
    using list_rep_empty [OF ks(1)] nil by (simp add: slab_list_is_empty_def indices_is_empty_def)
  show "slab_is_empty (sl_slab l) \<longleftrightarrow> xs = []" using ks(3) nil by (simp add: slab_is_empty_def)
  show "peek_end l = Inr (Some (last xs))" if "xs \<noteq> []"
    using peek_end_rep [OF ks(1)] that nil ks(2) by (simp add: into_list_id)
qed

lemma sole_push:
  assumes al: "slab_alloc_ok al" "room_for al n" and l: "sole_list l xs" "length xs < n"
  obtains l' where "push al v l = Inr l'" and "sole_list l' (xs @ [v])"
proof -
  from l obtain ks where ks: "list_rep (sl_slab l) (sl_index l) ks" "entries_at (sl_slab l) ks = xs"
    "fmdom' (sl_slab l) = set ks" by (auto simp: sole_list_def)
  have "length ks = length xs" using ks(2) by (auto simp: entries_at_def)
  then have "card (fmdom' (sl_slab l)) < n" using l(2) ks(3) list_rep_distinct [OF ks(1)] by (simp add: distinct_card)
  then have "al (fmdom' (sl_slab l)) \<noteq> None" using al(2) by (simp add: room_for_def)
  from push_panics_only_on_capacity [where al = al and v = v, OF ks(1) this] obtain l' where l': "push al v l = Inr l'"
    by (auto simp: into_list_id)
  then have eq: "push al v (into_list (sl_index l) (sl_slab l)) = Inr l'" by (simp add: into_list_id)
  obtain k where
    "fmdom' (sl_slab l') = insert k (fmdom' (sl_slab l))" "list_rep (sl_slab l') (sl_index l') (ks @ [k])"
    "entries_at (sl_slab l') (ks @ [k]) = entries_at (sl_slab l) ks @ [v]"
    by (rule push_rep [OF al(1) ks(1) eq]) blast
  then have "sole_list l' (xs @ [v])" unfolding sole_list_def using ks by (intro exI [of _ "ks @ [k]"]) auto
  with l' show thesis by (rule that)
qed

lemma sole_pop:
  assumes "sole_list l (x # xs)"
  shows "\<exists>l'. pop l = (Some x, l') \<and> sole_list l' xs"
proof -
  from assms obtain k ks where ks: "list_rep (sl_slab l) (sl_index l) (k # ks)" "entries_at (sl_slab l) (k # ks) = x # xs"
    "fmdom' (sl_slab l) = set (k # ks)" unfolding sole_list_def by (metis entries_at_eq_Nil list.discI neq_Nil_conv)
  note p = pop_rep_Cons [OF ks(1), unfolded into_list_id]
  have "k \<notin> set ks" using list_rep_distinct [OF ks(1)] by simp
  then have "sole_list (snd (pop l)) xs"
    unfolding sole_list_def using p ks(2,3) by (intro exI [of _ ks]) auto
  with p(1) ks(2) show ?thesis by (metis list.sel(1) prod.collapse)
qed

lemma push_loop_ok:
  "slab_alloc_ok al \<Longrightarrow> room_for al n \<Longrightarrow> sole_list l xs \<Longrightarrow> length xs + length is \<le> n \<Longrightarrow>
   \<exists>l'. push_loop al is l = Inr l' \<and> sole_list l' (xs @ is)"
proof (induction "is" arbitrary: l xs)
  case (Cons i js)
  then obtain l1 where l1: "push al i l = Inr l1" "sole_list l1 (xs @ [i])"
    using sole_push [of al n l xs i] by auto
  with Cons.IH [of l1 "xs @ [i]"] Cons.prems show ?case by (simp add: sole_is_empty [OF l1(2)])
qed auto

lemma pop_loop_ok: "sole_list l xs \<Longrightarrow> \<exists>l'. pop_loop xs l = Inr l' \<and> sole_list l' []"
proof (induction xs arbitrary: l)
  case (Cons x xs)
  then show ?case using sole_pop [OF Cons.prems] by auto
qed auto

lemma sole_pop_empty: "sole_list l [] \<Longrightarrow> fst (pop l) = None \<and> snd (pop l) = l"
  using pop_rep_Nil [of "sl_slab l" "sl_index l"] by (auto simp: sole_list_def into_list_id)

text \<open>The tests of the slab lists pass, for every allocator with room for five entries.\<close>

lemma slab_list_tests_pass:
  assumes al: "slab_alloc_ok al" "room_for al 5"
  shows "push_pop al = Inr ()" and "entries_freed_on_drop al = Inr ()" and "entries_kept_on_conversion_to_index al = Inr ()"
proof -
  have pop0: "pop test_list = (None, test_list)" using sole_pop_empty [OF sole_test_list] by (simp add: prod_eq_iff)
  obtain l5 where l5: "push_loop al [0, 1, 2, 3, 4] test_list = Inr l5" "sole_list l5 [0, 1, 2, 3, 4]"
    using push_loop_ok [OF al sole_test_list, of "[0, 1, 2, 3, 4]"] by auto
  obtain l0 where "pop_loop [0, 1, 2, 3, 4] l5 = Inr l0" "sole_list l0 []" using pop_loop_ok [OF l5(2)] by blast
  with l5(1) pop0 show "push_pop al = Inr ()"
    by (simp add: push_pop_def Let_def sole_is_empty [OF sole_test_list] sole_is_empty sole_pop_empty
        del: push_loop.simps pop_loop.simps)
  obtain l1 where l1: "push al 42 test_list = Inr l1" "sole_list l1 [42]"
    using sole_push [OF al sole_test_list, of 42] by auto
  from l1(2) obtain ks where ks: "list_rep (sl_slab l1) (sl_index l1) ks" "fmdom' (sl_slab l1) = set ks"
    by (auto simp: sole_list_def)
  have "slab_list_drop l1 = Inr (fmdrop_set (set ks) (sl_slab l1))" using drop_list_rep [OF ks(1)] by (simp add: into_list_id)
  then show "entries_freed_on_drop al = Inr ()"
    using l1(1) ks(2) by (simp add: entries_freed_on_drop_def sole_is_empty [OF l1(2)] slab_is_empty_def)
  show "entries_kept_on_conversion_to_index al = Inr ()"
    using l1(1) by (simp add: entries_kept_on_conversion_to_index_def sole_is_empty [OF l1(2)])
qed

section \<open>Tests of the runtime\<close>

text \<open>\<^verbatim>\<open>block_on\<close>, \<^verbatim>\<open>block_on_twice\<close>: a future that is ready at once, run on a new runtime.\<close>

definition ready_fut :: "ctx \<times> ('u, 'd) cell \<Rightarrow> unit exec \<times> ('u, 'd) cell" where
  "ready_fut s = (Inr (), snd s)"

primrec test_block_on :: "nat \<Rightarrow> ctx \<times> ('u, 'd) cell \<Rightarrow> unit exec \<times> ctx \<times> ('u, 'd) cell" where
  "test_block_on 0 s = (Inr (), s)"
| "test_block_on (Suc n) s =
     (case block_on ready_fut s of (Inl p, s') \<Rightarrow> (Inl p, s') | (Inr _, s') \<Rightarrow> test_block_on n s')"

text \<open>A runtime can be used any number of times: the context is clear and no handle is leaked.\<close>

lemma block_on_tests_pass: "test_block_on n (False, c) = (Inr (), False, c)"
  by (induction n) (simp_all add: block_on_def set_handle_def unset_driver_def ready_fut_def)

text \<open>\<^verbatim>\<open>perform_no_op\<close>: the operation is submitted, its completion dispatched, the future polled.\<close>

definition perform_no_op ::
  "'u uring_api \<Rightarrow> slab_alloc \<Rightarrow> slab_alloc \<Rightarrow> ctx \<Rightarrow> ('u, unit, unit) on_cell" where
  "perform_no_op api la ca cx =
     bind_cell (no_op_start api la ca cx) (\<lambda>op.
     bind_cell (drive_uring_wakes api ca) (\<lambda>_.
     bind_cell (no_op_poll 1 op) (\<lambda>(r, op') c.
       case r of
         Ready (Ok _) \<Rightarrow> Some (Inr ((), c))
       | Ready (Err e) \<Rightarrow> Some (Inl unwrap_err)
       | Pending \<Rightarrow> Some (Inl Assertion))))"

lemma perform_no_op_passes:
  assumes "la {} = Some k" and "u_push api ((sqe_build OpNop)\<lparr>sqe_user_data := k\<rparr>) u = Some u1"
    and "u_completion api u1 = ([\<lparr>cq_user_data = k, cq_result = 0, cq_flags = f\<rparr>], u2)"
    and "\<not> u_more api f" and "k \<noteq> usize_MAX"
  shows "perform_no_op api la ca True (no_ops u []) = Some (Inr ((), no_ops u2 []))"
proof -
  let ?cqe = "\<lparr>cq_user_data = k, cq_result = 0, cq_flags = f\<rparr>"
  have push: "push_until api ca (u_push api ((sqe_build OpNop)\<lparr>sqe_user_data := k\<rparr>)) d
      = Some (Inr (Ok (), d\<lparr>drv_uring := u1\<rparr>))" if "drv_uring d = u" for d :: "('a, unit) driver"
    using assms(2) that by (subst push_until.simps) simp
  have upd: "fmupd k lc (fmupd k lc' fmempty) = fmupd k lc fmempty" for lc lc' :: "unit lifecycle"
    by (rule fmap_ext) simp
  have start: "no_op_start api la ca True (no_ops u []) = Some (Inr (op_new () k, one_op u1 k Submitted []))"
    using assms(1)
    by (simp add: no_op_start_def submit_request_def handle_submit_op_def submit_op_def no_op_def entry_of_def
        ops_insert_def slab_insert_def cell_simps push Let_def)
  have wakes: "drive_uring_wakes api ca (one_op u1 k Submitted []) = Some (Inr ((), one_op u2 k (Completed ?cqe) []))"
    using assms(3-5)
    by (simp add: drive_uring_wakes_def handle_dispatch_completions_def dispatch_completions_def cell_simps
        ops_complete_def slab_index_def upd Let_def)
  have poll: "no_op_poll 1 (op_new () k) (one_op u2 k (Completed ?cqe) [])
      = Some (Inr ((Ready (Ok ()), \<lparr>op_index = k, op_data = None\<rparr>), no_ops u2 []))"
    by (simp add: no_op_poll_def op_poll_def handle_poll_op_def poll_op_def cell_simps op_new_def ops_remove_def
        slab_remove_def drop_one take_data_def request_completable_def no_op_def no_op_complete_def
        cqe_result_from_def Let_def)
  show ?thesis by (simp add: perform_no_op_def bind_cell_def start wakes poll [unfolded One_nat_def])
qed

end
