(* ===== verification/Io_Writev_All.thy ===== *)
theory Io_Writev_All
  imports Io_Messages
begin

text \<open>
  \<^verbatim>\<open>src/src/io/writev_all.rs\<close>: writing all of several buffers with vectored writes. No \<^verbatim>\<open>mod\<close> line
  of the crate names the file at this commit, so nothing calls it; it is modelled as it stands. The
  loop is meant to repeat a write that was cut short. It never does: what is proved is which
  results of the kernel make it return and which make it panic.
\<close>

section \<open>The operation\<close>





section \<open>The loop\<close>







section \<open>What it returns\<close>

definition iov_total :: "iovec list \<Rightarrow> nat" where
  "iov_total vs = sum_list (map iov_len vs)"

lemma iov_total_simps [simp]: "iov_total [] = 0" "iov_total (v # vs) = iov_len v + iov_total vs"
  by (simp_all add: iov_total_def)






end
