(* ===== verification/Buf_Handle.thy ===== *)
theory Buf_Handle
  imports Fixed_Bufs
begin

text \<open>
  Further implementations of the buffer traits. The ones for \<^verbatim>\<open>Bytes\<close> and \<^verbatim>\<open>BytesMut\<close>
  (\<^verbatim>\<open>src/src/buf/io_buf.rs\<close>, \<^verbatim>\<open>io_buf_mut.rs\<close>, the feature \<^verbatim>\<open>bytes\<close>) over the functions of that crate,
  which are parameters, and the one for the \<^verbatim>\<open>FixedBuf\<close> of \<^verbatim>\<open>src/src/buf/fixed/handle.rs\<close>, a file that
  no \<^verbatim>\<open>mod\<close> line names at this commit.
\<close>

section \<open>The bytes crate\<close>

record 'b bytes_api =
  by_as_ptr :: "'b \<Rightarrow> addr"
  by_as_mut_ptr :: "'b \<Rightarrow> addr"
  by_len :: "'b \<Rightarrow> nat"
  by_capacity :: "'b \<Rightarrow> nat"
  by_set_len :: "nat \<Rightarrow> 'b \<Rightarrow> 'b"

definition bytes_io_buf :: "'b bytes_api \<Rightarrow> 'b io_buf" where
  "bytes_io_buf api = \<lparr>ib_stable_ptr = by_as_ptr api, ib_bytes_init = by_len api, ib_bytes_total = by_len api\<rparr>"

definition bytes_mut_set_init :: "'b bytes_api \<Rightarrow> nat \<Rightarrow> 'b \<Rightarrow> 'b" where
  "bytes_mut_set_init api init_len b = (if by_len api b < init_len then by_set_len api init_len b else b)"

definition bytes_mut_io_buf :: "'b bytes_api \<Rightarrow> 'b io_buf_mut" where
  "bytes_mut_io_buf api = \<lparr>ib_stable_ptr = by_as_ptr api, ib_bytes_init = by_len api, ib_bytes_total = by_capacity api,
     ib_stable_mut_ptr = by_as_mut_ptr api, ib_set_init = bytes_mut_set_init api\<rparr>"

text \<open>What is documented: the length is at most the capacity, and \<^verbatim>\<open>set_len\<close> changes only the length.\<close>

definition bytes_ok :: "'b bytes_api \<Rightarrow> ('b \<Rightarrow> bool) \<Rightarrow> bool" where
  "bytes_ok api ok \<longleftrightarrow> (\<forall>b. ok b \<longrightarrow>
     by_len api b \<le> by_capacity api b \<and> by_capacity api b \<le> usize_MAX \<and> by_as_mut_ptr api b = by_as_ptr api b
     \<and> (\<forall>n. n \<le> by_capacity api b \<longrightarrow> ok (by_set_len api n b) \<and> by_len api (by_set_len api n b) = n
          \<and> by_capacity api (by_set_len api n b) = by_capacity api b \<and> by_as_ptr api (by_set_len api n b) = by_as_ptr api b))"

lemma bytes_mut_laws:
  assumes "bytes_ok api ok"
  shows "io_buf_watermark (bytes_mut_io_buf api) ok"
  by unfold_locales (use assms in \<open>auto simp: bytes_ok_def bytes_mut_io_buf_def bytes_mut_set_init_def\<close>)

lemma bytes_laws:
  assumes "bytes_ok api ok"
  shows "io_buf_laws (bytes_io_buf api) ok"
  by unfold_locales (use assms in \<open>auto simp: bytes_ok_def bytes_io_buf_def\<close>)

section \<open>FixedBuf of handle.rs\<close>

record checked_out_buf =
  cb_iovec :: iovec
  cb_init_len :: nat
  cb_index :: u16

text \<open>\<^verbatim>\<open>FixedBuf\<close>: the buffer; the reference to the collection is the argument of the destructor.\<close>

record fixed_handle =
  fh_buf :: checked_out_buf

definition fixed_handle_new :: "checked_out_buf \<Rightarrow> fixed_handle" where
  "fixed_handle_new buf = \<lparr>fh_buf = buf\<rparr>"

definition buf_index :: "fixed_handle \<Rightarrow> u16" where
  "buf_index f = cb_index (fh_buf f)"

definition handle_set_init :: "nat \<Rightarrow> fixed_handle \<Rightarrow> fixed_handle" where
  "handle_set_init pos f =
     (if cb_init_len (fh_buf f) < pos then f\<lparr>fh_buf := (fh_buf f)\<lparr>cb_init_len := pos\<rparr>\<rparr> else f)"

definition handle_io_buf :: "fixed_handle io_buf_mut" where
  "handle_io_buf =
     \<lparr>ib_stable_ptr = (\<lambda>f. iov_base (cb_iovec (fh_buf f))), ib_bytes_init = (\<lambda>f. cb_init_len (fh_buf f)),
      ib_bytes_total = (\<lambda>f. iov_len (cb_iovec (fh_buf f))), ib_stable_mut_ptr = (\<lambda>f. iov_base (cb_iovec (fh_buf f))),
      ib_set_init = handle_set_init\<rparr>"

definition handle_deref :: "fixed_handle \<Rightarrow> addr \<times> nat" where
  "handle_deref f = (iov_base (cb_iovec (fh_buf f)), cb_init_len (fh_buf f))"

text \<open>
  The destructor. \<open>check_in\<close> is the method of the trait \<^verbatim>\<open>FixedBuffers\<close>; the collection is in a
  \<^verbatim>\<open>RefCell\<close> with its borrow flag.
\<close>

definition fixed_handle_drop :: "(u16 \<Rightarrow> nat \<Rightarrow> 'r \<Rightarrow> 'r exec) \<Rightarrow> fixed_handle \<Rightarrow> bool \<times> 'r \<Rightarrow> (bool \<times> 'r) exec" where
  "fixed_handle_drop check_in f s =
     (if fst s then Inl AlreadyBorrowed
      else bind_exec (check_in (cb_index (fh_buf f)) (cb_init_len (fh_buf f)) (snd s)) (\<lambda>r. Inr (False, r)))"

definition handle_wf :: "fixed_handle \<Rightarrow> bool" where
  "handle_wf f \<longleftrightarrow> cb_init_len (fh_buf f) \<le> iov_len (cb_iovec (fh_buf f)) \<and> iov_len (cb_iovec (fh_buf f)) \<le> usize_MAX"

interpretation handle_buf: io_buf_watermark handle_io_buf handle_wf
  by unfold_locales (auto simp: handle_io_buf_def handle_wf_def handle_set_init_def)

lemma handle_deref_io_buf: "handle_deref f = buf_deref handle_io_buf f"
  by (simp add: handle_deref_def buf_deref_def handle_io_buf_def)

text \<open>
  With the registry as its collection, a handle made of what \<^verbatim>\<open>check_out\<close> returned puts its buffer back
  with the length it has then, and the next \<^verbatim>\<open>check_out\<close> of the index returns that length.
\<close>

lemma fixed_handle_turnaround:
  assumes "registry_inv r" and "registry_check_out k r = Inr (Some (v, n), r')"
    and "f = fixed_handle_new \<lparr>cb_iovec = v, cb_init_len = n, cb_index = of_nat k\<rparr>" and "n \<le> m"
  shows "\<exists>r2. fixed_handle_drop (\<lambda>i. registry_check_in (unat i)) (handle_set_init m f) (False, r') = Inr (False, r2)
    \<and> registry_check_out k r2 = Inr (Some (v, m), r')"
proof -
  from assms(1,2) have k: "k < length (rg_states r)" "k < max_bufs" "r' = r\<lparr>rg_states := (rg_states r)[k := RCheckedOut]\<rparr>"
    "k < length (rg_iovecs r)" "v = rg_iovecs r ! k"
    by (auto simp: registry_check_out_def registry_inv_def split: if_splits reg_state.splits)
  moreover have "unat (of_nat k :: u16) = k" by (rule index_u16 [OF k(2)])
  ultimately show ?thesis using assms(3,4)
    by (auto simp: fixed_handle_drop_def fixed_handle_new_def handle_set_init_def registry_check_in_def registry_check_out_def)
qed

end
