(* ===== verification/Provided_Pool.thy ===== *)
theory Provided_Pool
  imports Driver Buf_Core
begin

text \<open>
  \<^verbatim>\<open>src/src/io/pool.rs\<close>: one allocation cut into buffers of equal size that are provided to the
  kernel, and the buffer that provides itself again when it is dropped. No \<^verbatim>\<open>mod\<close> line names the
  file at this commit, and the driver has no field \<^verbatim>\<open>pool\<close>: the pool is an argument here.
\<close>

record mem_pool =
  mp_mem :: addr
  mp_num :: nat
  mp_size :: nat

text \<open>\<open>with_capacity\<close> is the allocation: its address and the capacity it has.\<close>

definition mem_pool_new :: "(nat \<Rightarrow> addr \<times> nat) \<Rightarrow> nat \<Rightarrow> nat \<Rightarrow> mem_pool exec" where
  "mem_pool_new with_capacity num size1 =
     (let tot = (num * size1) mod (usize_MAX + 1) in
      case with_capacity tot of (mem, cap) \<Rightarrow>
        bind_exec (assert_that (cap = tot)) (\<lambda>_. Inr \<lparr>mp_mem = mem, mp_num = num, mp_size = size1\<rparr>))"

definition provide_all_sqe :: "mem_pool \<Rightarrow> sqe" where
  "provide_all_sqe p =
     (sqe_build (OpProvideBuffers (mp_mem p) (of_nat (mp_size p)) (of_nat (mp_num p)) 0 0))\<lparr>sqe_user_data := 0\<rparr>"

definition mem_pool_provide :: "'u uring_api \<Rightarrow> mem_pool \<Rightarrow> 'u \<Rightarrow> ((unit, io_error) result \<times> 'u) exec" where
  "mem_pool_provide api p uring =
     (case u_push api (provide_all_sqe p) uring of
        None \<Rightarrow> Inl (Explicit ''not implemented: when is this hit?'')
      | Some u1 \<Rightarrow>
          (case u_submit_and_wait api 1 u1 of
             (Err e, u2) \<Rightarrow> Inr (Err e, u2)
           | (Ok n, u2) \<Rightarrow>
               (case u_completion api u2 of (cqes, u3) \<Rightarrow>
                  bind_exec (assert_that (list_all (\<lambda>c. cq_user_data c = 0) cqes)) (\<lambda>_. Inr (Ok (), u3)))))"

text \<open>Dropping a provided buffer at address \<open>ptr\<close>; the driver is borrowed for it.\<close>

definition provide_again_sqe :: "mem_pool \<Rightarrow> addr \<Rightarrow> sqe exec" where
  "provide_again_sqe p ptr =
     (if mp_size p = 0 then Inl (Explicit ''attempt to divide by zero'')
      else let bid = wrapping_sub ptr (mp_mem p) div mp_size p in
        Inr ((sqe_build (OpProvideBuffers ptr (of_nat (mp_size p)) 1 0 (of_nat bid)))\<lparr>sqe_user_data := usize_MAX\<rparr>))"

definition provided_buf_drop :: "'u uring_api \<Rightarrow> mem_pool \<Rightarrow> addr \<Rightarrow> bool \<times> 'u \<Rightarrow> 'u exec" where
  "provided_buf_drop api p ptr s =
     (if fst s then Inl AlreadyBorrowed
      else bind_exec (provide_again_sqe p ptr) (\<lambda>op.
        case u_push api op (snd s) of None \<Rightarrow> Inl (Explicit ''not implemented'') | Some u \<Rightarrow> Inr u))"

text \<open>
  Providing the pool numbers its buffers from 0 on in the order of their addresses; a buffer that
  is dropped is provided again under its own number and with its own size, and the completion of
  this entry is one the dispatcher skips.
\<close>

lemma provide_again_own_id:
  assumes "i < mp_num p" and "mp_num p \<le> 2 ^ 16" and "mp_size p \<noteq> 0"
  shows "\<exists>e. provide_again_sqe p (mp_mem p + i * mp_size p) = Inr e \<and> sqe_user_data e = usize_MAX
    \<and> (\<exists>bid. sqe_op e = OpProvideBuffers (mp_mem p + i * mp_size p) (of_nat (mp_size p)) 1 0 bid \<and> unat bid = i)"
  using assms by (simp add: provide_again_sqe_def wrapping_sub_def sqe_build_def unat_of_nat take_bit_eq_mod)

text \<open>
  The pool is only as good as the allocation: \<^verbatim>\<open>with_capacity\<close> may give more than was asked, and then
  the constructor panics.
\<close>

lemma mem_pool_new_cases:
  assumes "with_capacity ((num * s) mod (usize_MAX + 1)) = (mem, cap)"
  shows "mem_pool_new with_capacity num s =
    (if cap = (num * s) mod (usize_MAX + 1) then Inr \<lparr>mp_mem = mem, mp_num = num, mp_size = s\<rparr> else Inl Assertion)"
  using assms by (simp add: mem_pool_new_def Let_def)

end
