(* ===== verification/Spec2Isabelle.thy ===== *)
theory Spec2Isabelle
  imports Driver_Properties Handle_Properties Buf_Properties Shared_Fd Io_Read_Write Recv_Multishot
    Recv_Stream Io_Write_All Io_Properties Fs_Properties Net_Types Buf_Typing Runtime_Progress
    Recv_Layers Task_Layers Crate_Tests Io_Writev_All Buf_Handle Provided_Pool
begin

text \<open>
  \<^bold>\<open>tokio-uring.\<close> The crate under \<^verbatim>\<open>src/src\<close> runs futures on one thread and performs their
  input and output with Linux's io_uring. An operation is a submission queue entry with a user
  data word, pushed to a ring shared with the kernel, and one or more completion queue entries
  that carry the same word back. The development models the crate from the slab that gives an
  operation its word up to \<^verbatim>\<open>start\<close>, files and sockets, and proves what makes it correct: the
  memory the kernel may write stays owned until the kernel is done, every completion finds its
  operation, nothing panics in a reachable state, loops end, buffers are handed out once and
  come back, and results are the ones of the operation that was asked for.

  \<^bold>\<open>Parts and theories\<close>, in the order of the code:

  \<^item> \<open>Uring_Prelude\<close>: machine integers, \<^verbatim>\<open>Result\<close>, \<^verbatim>\<open>Poll\<close>, panics as values (\<open>'a exec\<close> is
    a panic or a value), I/O errors, the slab (a finite map with an allocator as a parameter).
  \<^item> \<open>Uring_Api\<close>: submission entries as data and the ring as a record of functions, one for each
    call of the \<^verbatim>\<open>io-uring\<close> crate.
  \<^item> \<open>Slab_List\<close>: \<^verbatim>\<open>runtime/driver/op/slab_list.rs\<close>, queues of completions in a shared slab; the
    locale \<open>fifo\<close> and its interpretation show that they are queues.
  \<^item> \<open>Op_Lifecycle\<close>: \<^verbatim>\<open>op/mod.rs\<close>, completions and the life cycle of an operation, with the
    invariant \<open>ops_wf\<close> of the two slabs and the abstract view \<open>abs_ops\<close>.
  \<^item> \<open>Driver\<close>, \<open>Driver_Lemmas\<close>, \<open>Driver_Submission\<close>, \<open>Driver_System\<close>, \<open>Driver_Drop\<close>,
    \<open>Driver_Properties\<close>: \<^verbatim>\<open>runtime/driver/mod.rs\<close>. Submitting, dispatching, polling, cancelling and
    dropping, each refined to the abstract view; the driver among its clients and the kernel as a
    transition system (\<open>sys_step\<close>, \<open>sys_inv\<close>); the destructor.
  \<^item> \<open>Op_Handles\<close>, \<open>Handle_Properties\<close>: \<^verbatim>\<open>driver/handle.rs\<close>, \<^verbatim>\<open>runtime/context.rs\<close>, the futures of
    \<^verbatim>\<open>op/mod.rs\<close> and \<^verbatim>\<open>op/link.rs\<close>, \<^verbatim>\<open>Runtime::block_on\<close>. The driver is in a cell with its borrow
    flag and the number of strong handles.
  \<^item> \<open>Uring_Runtime\<close>, \<open>Runtime_Properties\<close>, \<open>Runtime_Liveness\<close>: \<^verbatim>\<open>runtime/mod.rs\<close>, the builder, \<^verbatim>\<open>start\<close> and \<^verbatim>\<open>no_op\<close>
    of \<^verbatim>\<open>lib.rs\<close>, registration of buffers. Delivery of completions to the tasks that wait and
    progress of the rounds of the thread.
  \<^item> \<open>Runtime_System\<close>, \<open>Runtime_Progress\<close>: the runtime among its tasks and the kernel as a transition
    system on the shared cell (\<open>rt_step\<close>, \<open>rt_inv\<close>): tasks submit, cancel, poll and drop while the
    thread parks and dispatches, and a submission may dispatch in its middle. Rounds never panic
    in a reachable state, rounds settle, and \<^verbatim>\<open>start\<close> shuts down.
  \<^item> \<open>Request_Layers\<close>, \<open>Task_Layers\<close>: a request, and a task that awaits requests one after the other,
    through all the layers; their runs refine \<open>await_request\<close>, over which files and sockets are
    modelled, while other operations complete in the same rounds. The loop that writes a whole
    buffer is such a task (\<open>write_all_slice_task\<close>).
  \<^item> \<open>Multishot_Layers\<close>, \<open>Recv_Layers\<close>: a zero-copy send and a multishot receive over any number of
    rounds, through all the layers, with the room their completions need in the completion slab.
  \<^item> \<open>Crate_Tests\<close>: the unit tests of the crate as programs over the model, which pass.
  \<^item> \<open>Buf_Core\<close>, \<open>Buf_Buffer\<close>, \<open>Fixed_Bufs\<close>, \<open>Pool_Next\<close>, \<open>Buf_Properties\<close>, \<open>Buf_Typing\<close>: \<^verbatim>\<open>buf/\<close>.
    The traits \<^verbatim>\<open>IoBuf\<close> and \<^verbatim>\<open>IoBufMut\<close> as locales with their implementations interpreted, slices,
    the type-erased \<^verbatim>\<open>Buffer\<close>, the registry and the pool of registered buffers (one locale,
    \<open>buf_collection\<close>, interpreted for both), tasks waiting for a buffer as a transition system.
  \<^item> \<open>Buf_Handle\<close>, \<open>Provided_Pool\<close>, \<open>Io_Writev_All\<close>: the buffer traits of the optional \<^verbatim>\<open>bytes\<close> crate over
    its functions, and the files \<^verbatim>\<open>buf/fixed/handle.rs\<close>, \<^verbatim>\<open>io/pool.rs\<close> and \<^verbatim>\<open>io/writev_all.rs\<close>, which no
    \<^verbatim>\<open>mod\<close> line names at this commit and which are modelled as they stand.
  \<^item> \<open>Shared_Fd\<close>: \<^verbatim>\<open>io/shared_fd.rs\<close>, closing a descriptor that operations in flight still use.
  \<^item> \<open>Io_Read_Write\<close>, \<open>Io_Write_All\<close>, \<open>Io_Ops\<close>, \<open>Io_Messages\<close>, \<open>Io_Properties\<close>: the operations of \<^verbatim>\<open>io/\<close>, as
    oneshot operations or as requests (data, entry, completion), and the loops that write a
    whole buffer.
  \<^item> \<open>Recv_Multishot\<close>, \<open>Recv_Stream\<close>: \<^verbatim>\<open>io/recv_from_multishot.rs\<close> and \<^verbatim>\<open>io/provide_buffers.rs\<close>; the locale
    \<open>multishot_op\<close> carries the safety of the driver to a multishot operation; the packets polled are
    the ones of the completions, in order.
  \<^item> \<open>Fs_Core\<close>, \<open>Fs_Properties\<close>: \<^verbatim>\<open>fs/\<close>, files, open options, \<^verbatim>\<open>statx\<close>, directories.
  \<^item> \<open>Net_Sockets\<close>, \<open>Net_Types\<close>: \<^verbatim>\<open>io/socket.rs\<close> and \<^verbatim>\<open>net/\<close>.
  \<^item> This theory: a read of a file and a pair of linked operations through all the layers.

  \<^bold>\<open>How the layers meet.\<close> A method of a file or a socket builds an \<open>unsubmitted\<close> operation or a
  \<open>request\<close>; submitting it goes through the thread-local context (\<open>ctx\<close>), a handle
  (\<open>borrow_mut\<close> on the cell) and the driver, which takes an index from the slab of life cycles and
  pushes the entry. Parking the thread flushes the queue (\<open>on_thread_park\<close>); a readable ring makes
  \<open>drive_uring_wakes\<close> dispatch the completions, which change life cycles and wake tasks; polling
  consumes what arrived; dropping a handle early leaves its data in the slab.

  \<^bold>\<open>Code of other crates and the kernel\<close> is a parameter, and what the crate relies on is a named
  hypothesis: \<open>slab_alloc_ok\<close> (the slab gives vacant keys), the record \<open>uring_api\<close> with
  \<open>ring_contract\<close>, \<open>kernel_contract\<close>, \<open>round_contract\<close>, \<open>flush_contract\<close>, \<open>wait_ok\<close>, \<open>ring_settles\<close>,
  \<open>push_after_submit\<close> and \<open>submit_ok_room\<close>, \<open>room_for\<close> (the completion slab has room),
  \<open>notify_ok\<close> (tokio's \<^verbatim>\<open>Notify\<close>), \<open>serves\<close> (the ring accepts an entry and the next round answers
  it, whatever else it brings), \<open>writes_some\<close> (the kernel accepts a byte of every write), \<open>mkdir_ok\<close>
  and \<open>statx_ok\<close> (the file system), the records \<open>host\<close> and \<open>ring_builder\<close> (constructors of tokio
  and io-uring), socket2 and libc as functions.
  Each is shown to be satisfiable by a concrete instance in the witnesses.

  \<^bold>\<open>What the properties show\<close>: ownership of memory and absence of panics in every reachable state
  of the driver; empty slabs at rest; in every reachable state of the runtime the operations in
  flight are the ones the kernel owes, rounds do not panic and settle with every waiting task
  woken and answered, and \<^verbatim>\<open>start\<close> ends with an empty driver; refinement of polling, completing
  and dropping, and of awaiting requests in a task; the first-in first-out order of completions;
  submission returns when the ring makes progress and never does for a batch that is too long;
  round trips of buffers and packet headers; the packets of a multishot receive over any
  number of rounds, each once and in order, from the socket's method to the batches; a read, a
  linked pair and a zero-copy send from the call to the results; slices and registered
  accesses stay in their memory; type tags of buffers do not lie; pools lend each buffer once and
  lose no wake-up; a descriptor is closed once; sockets do not leak; writing all of a buffer is
  contiguous and ends, as a loop and through the layers; which results make the vectored write of
  everything panic; \<^verbatim>\<open>create_dir_all\<close> creates.

  \<^bold>\<open>Bounds, loops and builds.\<close> \<^verbatim>\<open>usize\<close> and \<^verbatim>\<open>u64\<close> are natural numbers with the wrap-around written
  out where the code can reach it; \<^verbatim>\<open>u8\<close>, \<^verbatim>\<open>u16\<close>, \<^verbatim>\<open>u32\<close> and \<^verbatim>\<open>i32\<close> are words. A loop that may run
  for ever is a partial function with value \<^verbatim>\<open>None\<close> for not returning; no fuel is used. The
  build is a release build: \<^verbatim>\<open>debug_assert!\<close> is not part of the model and arithmetic wraps.

  \<^bold>\<open>Not modelled\<close>: the scheduler, reactor and timers of tokio (a run is a sequence of turns or of steps)
  and \<^verbatim>\<open>spawn\<close>, which forwards to them; memory ordering and the mutexes around the pools, which are
  used on one thread here; \<^verbatim>\<open>Debug\<close> and \<^verbatim>\<open>Display\<close> instances; accessors that return a field and \<^verbatim>\<open>Default\<close>
  instances that call \<^verbatim>\<open>new\<close>; module declarations and re-exports (\<^verbatim>\<open>io/bind.rs\<close> is empty); examples,
  benchmarks and the integration tests, which need a kernel.

  \<^bold>\<open>Limits of the runs through the layers\<close>: a task of \<open>Task_Layers\<close> awaits requests whose data have one type,
  so \<^verbatim>\<open>create_dir_all\<close>, which mixes \<^verbatim>\<open>mkdirat\<close> and \<^verbatim>\<open>statx\<close>, is proved over the kernel function only; \<open>serves\<close>
  asks for the answer of an awaited entry in the round after it, and answers that come later are
  the subject of the transition systems \<open>sys_step\<close> and \<open>rt_step\<close>.
\<close>

section \<open>An operation from the call to its result\<close>

text \<open>
  The life of an awaited oneshot operation, through the layers: the request is submitted through
  the context, its first poll leaves the waker, the thread parks (which hands the entries to the
  kernel), the ring becomes readable, and the task polls again.
\<close>

definition await_run ::
  "'u uring_api \<Rightarrow> slab_alloc \<Rightarrow> slab_alloc \<Rightarrow> ('p \<Rightarrow> 'd \<Rightarrow> cqe \<Rightarrow> 'o exec) \<Rightarrow> waker \<Rightarrow> ('d, 'p) unsubmitted
   \<Rightarrow> ('u, 'd, 'o poll \<times> 'o poll) on_cell" where
  "await_run api la ca transform w u c =
     Option.bind (oneshot_submit api la ca True u c) (\<lambda>r. case r of Inl p \<Rightarrow> Some (Inl p) | Inr (this, c1) \<Rightarrow>
     Option.bind (oneshot_poll transform w this c1) (\<lambda>r. case r of Inl p \<Rightarrow> Some (Inl p) | Inr ((p1, this1), c2) \<Rightarrow>
     Option.bind (run_turns api ca True [Park, Readable] c2) (\<lambda>r. case r of Inl p \<Rightarrow> Some (Inl p) | Inr (_, c3) \<Rightarrow>
     Option.bind (oneshot_poll transform w this1 c3) (\<lambda>r. case r of Inl p \<Rightarrow> Some (Inl p) | Inr ((p2, this2), c4) \<Rightarrow>
       Some (Inr ((p1, p2), c4))))))"

text \<open>What the operation relies on: room in the slab and the queue, and a batch of last completions.\<close>

definition served ::
  "'u uring_api \<Rightarrow> slab_alloc \<Rightarrow> waker \<Rightarrow> sqe \<Rightarrow> ('u, 'd) cell \<Rightarrow> nat \<Rightarrow> cqe list \<Rightarrow> bool" where
  "served api la w s c k cqes \<longleftrightarrow>
     slab_alloc_ok la \<and> ops_wf (drv_ops (cl_driver c)) \<and> \<not> cl_borrowed c \<and> cl_strong c \<noteq> 0
     \<and> (\<exists>o1 ring. ops_insert la (drv_ops (cl_driver c)) = Inr (k, o1)
          \<and> u_push api (s\<lparr>sqe_user_data := k\<rparr>) (drv_uring (cl_driver c)) = Some ring
          \<and> fst (u_completion api (snd (u_submit api ring))) = cqes)
     \<and> final_batch (u_more api) ((abs_ops (drv_ops (cl_driver c)))(k \<mapsto> AInFlight (Some w))) cqes"

lemma await_served:
  assumes sv: "served api la w (us_sqe u) c k cqes" and cqe: "cqe \<in> set cqes" "cq_user_data cqe = k"
    and tr: "transform (us_post_op u) (us_stable_data u) cqe = Inr out"
  shows "\<exists>c4. await_run api la ca transform w u c = Some (Inr ((Pending, Ready out), c4))
    \<and> w \<in> set (drv_woken (cl_driver c4)) \<and> abs_ops (drv_ops (cl_driver c4)) k = None
    \<and> (\<forall>j. j \<notin> cq_user_data ` set cqes \<longrightarrow> abs_ops (drv_ops (cl_driver c4)) j = abs_ops (drv_ops (cl_driver c)) j)"
proof -
  from sv obtain o1 ring where st: "slab_alloc_ok la" "ops_wf (drv_ops (cl_driver c))" "\<not> cl_borrowed c" "cl_strong c \<noteq> 0"
    and ins: "ops_insert la (drv_ops (cl_driver c)) = Inr (k, o1)"
    and push: "u_push api ((us_sqe u)\<lparr>sqe_user_data := k\<rparr>) (drv_uring (cl_driver c)) = Some ring"
    and cq: "fst (u_completion api (snd (u_submit api ring))) = cqes"
    and fb: "final_batch (u_more api) ((abs_ops (drv_ops (cl_driver c)))(k \<mapsto> AInFlight (Some w))) cqes"
    by (auto simp: served_def)
  note ins_ok = ops_insert_ok [OF st(2,1) ins]
  let ?c1 = "c\<lparr>cl_driver := (cl_driver c)\<lparr>drv_ops := o1, drv_uring := ring\<rparr>\<rparr>"
  obtain c2 c3 c4 where run: "handle_poll_op_2 w k ?c1 = Some (Inr (Pending, c2))"
      "run_turns api ca True [Park, Readable] c2 = Some (Inr ((), c3))" "handle_poll_op_2 w k c3 = Some (Inr (Ready cqe, c4))"
    and st3: "\<not> cl_borrowed c3" "cl_strong c3 \<noteq> 0"
    and fin: "w \<in> set (drv_woken (cl_driver c4))" "abs_ops (drv_ops (cl_driver c4)) k = None"
      "\<And>j. j \<notin> cq_user_data ` set cqes \<Longrightarrow> abs_ops (drv_ops (cl_driver c4)) j = abs_ops (drv_ops (cl_driver c)) j"
    by (rule first_poll_and_round [OF st(3,4) cqe fb ins_ok(1,3) cq, of ca]) blast
  have "await_run api la ca transform w u c = Some (Inr ((Pending, Ready out), c4))"
    using oneshot_submit_room [OF st(3) ins push] run tr st(4) st3
    by (simp del: run_turns.simps add: await_run_def oneshot_poll_def mk_inflight_def upgrade_def)
  with fin show ?thesis by blast
qed

text \<open>
  C18. Reading a file, from the call to the bytes: when the slab and the submission queue have
  room and the kernel answers the entry with a number of bytes the buffer can hold, the first
  poll of the read waits and the round of the runtime wakes its task; the second poll returns
  this number and the caller's buffer, in the same memory and with exactly these bytes counted
  as initialized; the index of the operation is free again and no operation without a completion
  in the batch changed.
\<close>

theorem file_read_end_to_end:
  assumes "served api la w (us_sqe (file_read_at f buf pos)) c k cqes" and "cqe \<in> set cqes" and "cq_user_data cqe = k"
    and "buffer_wf buf" and "0 <=s cq_result cqe" and "unat (cq_result cqe) \<le> buffer_bytes_total buf"
  shows "\<exists>b c4. await_run api la ca (\<lambda>p d e. Inr (rw_transform p d e)) w (file_read_at f buf pos) c
      = Some (Inr ((Pending, Ready (Ok (unat (cq_result cqe), b))), c4))
    \<and> buffer_bytes_init b = unat (cq_result cqe) \<and> map iov_base (bf_iovec b) = map iov_base (bf_iovec buf)
    \<and> w \<in> set (drv_woken (cl_driver c4)) \<and> abs_ops (drv_ops (cl_driver c4)) k = None
    \<and> (\<forall>j. j \<notin> cq_user_data ` set cqes \<longrightarrow> abs_ops (drv_ops (cl_driver c4)) j = abs_ops (drv_ops (cl_driver c)) j)"
proof -
  from read_marks_bytes_read [OF assms(4-6), of "file_raw_fd f" pos] obtain b where
    b: "rw_transform Read (us_stable_data (file_read_at f buf pos)) cqe = Ok (unat (cq_result cqe), b)"
      "buffer_bytes_init b = unat (cq_result cqe)" "map iov_base (bf_iovec b) = map iov_base (bf_iovec buf)"
    unfolding file_read_at_def by blast
  have "us_post_op (file_read_at f buf pos) = Read"
    by (simp add: file_read_at_def read_at_def unsubmitted_new_def Let_def)
  with await_served [OF assms(1-3), where transform = "\<lambda>p d e. Inr (rw_transform p d e)" and ca = ca] b show ?thesis
    by (intro exI [of _ b]) simp
qed

definition idle_cell :: "(bool, rw_data) cell" where
  "idle_cell = \<lparr>cl_driver = \<lparr>drv_ops = ops_new, drv_uring = True, drv_woken = []\<rparr>, cl_borrowed = False, cl_strong = 2\<rparr>"

lemma idle_served: "served demo_api (first_vacant 4) 7 s idle_cell 0 [demo_cqe 0]"
proof -
  obtain o1 where "ops_insert (first_vacant 4) (drv_ops (cl_driver idle_cell)) = Inr (0, o1)"
    by (auto simp: ops_insert_def slab_insert_def first_vacant_def idle_cell_def ops_new_def upt_conv_Cons)
  then show ?thesis
    by (auto simp: served_def demo_alloc final_batch_def demo_api_def idle_cell_def demo_cqe_def demo_more_def usize_MAX_def
        ops_wf_new)
qed

theorem file_read_end_to_end_witness:
  "\<exists>b c4. await_run demo_api (first_vacant 4) (first_vacant 4) (\<lambda>p d e. Inr (rw_transform p d e)) 7
      (file_read_at (file_from_std 5) demo_fixed 0) idle_cell = Some (Inr ((Pending, Ready (Ok (5, b))), c4))
    \<and> buffer_bytes_init b = 5"
  using file_read_end_to_end [OF idle_served, of "demo_cqe 0" demo_fixed "first_vacant 4" "file_from_std 5" 0]
  by (auto simp: demo_cqe_def demo_fixed_def buffer_wf_def mk_iovec_def usize_MAX_def buffer_bytes_total_def word_sle_eq)

section \<open>A pair of linked operations\<close>

text \<open>Submitting the pair, a round of the runtime, polling the link, polling what it left.\<close>

definition link_run ::
  "'u uring_api \<Rightarrow> slab_alloc \<Rightarrow> slab_alloc \<Rightarrow> ('p \<Rightarrow> 'd \<Rightarrow> cqe \<Rightarrow> 'o exec) \<Rightarrow> ('q \<Rightarrow> 'd \<Rightarrow> cqe \<Rightarrow> 'r exec) \<Rightarrow> waker
   \<Rightarrow> (('d, 'p) unsubmitted, ('d, 'q) unsubmitted) link \<Rightarrow> ('u, 'd, 'o poll \<times> 'r poll) on_cell" where
  "link_run api la ca tr1 tr2 w l c =
     Option.bind (link_submit (oneshot_submit api la ca True) (oneshot_submit api la ca True) l c) (\<lambda>r.
       case r of Inl p \<Rightarrow> Some (Inl p) | Inr (this, c1) \<Rightarrow>
     Option.bind (run_turns api ca True [Park, Readable] c1) (\<lambda>r. case r of Inl p \<Rightarrow> Some (Inl p) | Inr (_, c2) \<Rightarrow>
     Option.bind (linked_poll (oneshot_poll tr1 w) this c2) (\<lambda>r.
       case r of Inl p \<Rightarrow> Some (Inl p) | Inr ((Pending, _), c3) \<Rightarrow> Some (Inr ((Pending, Pending), c3))
       | Inr ((Ready (out, rest), _), c3) \<Rightarrow>
     Option.bind (oneshot_poll tr2 w rest c3) (\<lambda>r. case r of Inl p \<Rightarrow> Some (Inl p) | Inr ((p2, _), c4) \<Rightarrow>
       Some (Inr ((Ready out, p2), c4))))))"

text \<open>Room for both entries, the first of them with the link flag, and a batch of last completions.\<close>

definition pair_served ::
  "'u uring_api \<Rightarrow> slab_alloc \<Rightarrow> sqe \<Rightarrow> sqe \<Rightarrow> ('u, 'd) cell \<Rightarrow> nat \<Rightarrow> nat \<Rightarrow> cqe list \<Rightarrow> bool" where
  "pair_served api la e1 e2 c i j cqes \<longleftrightarrow>
     slab_alloc_ok la \<and> ops_wf (drv_ops (cl_driver c)) \<and> \<not> cl_borrowed c \<and> cl_strong c \<noteq> 0
     \<and> (\<exists>o1 o2 u1 u2. ops_insert la (drv_ops (cl_driver c)) = Inr (i, o1) \<and> ops_insert la o1 = Inr (j, o2)
          \<and> u_push api (e1\<lparr>sqe_flags := sqe_flags e1 @ [IO_LINK], sqe_user_data := i\<rparr>) (drv_uring (cl_driver c)) = Some u1
          \<and> u_push api (e2\<lparr>sqe_user_data := j\<rparr>) u1 = Some u2
          \<and> fst (u_completion api (snd (u_submit api u2))) = cqes)
     \<and> final_batch (u_more api) ((abs_ops (drv_ops (cl_driver c)))(i \<mapsto> AInFlight None, j \<mapsto> AInFlight None)) cqes"

text \<open>
  C19. Linked operations, from the call to both results: a pair made by \<^verbatim>\<open>link\<close> is pushed as two
  entries in order, the first with the link flag and the second without; it takes two different
  indices; after the round that delivers both completions, polling the link gives the output of
  the first operation and the second operation in flight, whose poll gives its own output; both
  indices are free again and no operation without a completion in the batch changed.
\<close>

theorem linked_pair_end_to_end:
  assumes "pair_served api la (us_sqe a) (us_sqe b) c i j cqes"
    and "e1 \<in> set cqes" and "cq_user_data e1 = i" and "e2 \<in> set cqes" and "cq_user_data e2 = j"
    and "tr1 (us_post_op a) (us_stable_data a) e1 = Inr out1" and "tr2 (us_post_op b) (us_stable_data b) e2 = Inr out2"
  shows "i \<noteq> j \<and> (\<exists>c4. link_run api la ca tr1 tr2 w (oneshot_link a b) c = Some (Inr ((Ready out1, Ready out2), c4))
    \<and> abs_ops (drv_ops (cl_driver c4)) i = None \<and> abs_ops (drv_ops (cl_driver c4)) j = None
    \<and> (\<forall>k. k \<notin> cq_user_data ` set cqes \<longrightarrow> abs_ops (drv_ops (cl_driver c4)) k = abs_ops (drv_ops (cl_driver c)) k))"
proof -
  from assms(1) obtain o1 o2 u1 u2 where st: "slab_alloc_ok la" "ops_wf (drv_ops (cl_driver c))" "\<not> cl_borrowed c" "cl_strong c \<noteq> 0"
    and ins: "ops_insert la (drv_ops (cl_driver c)) = Inr (i, o1)" "ops_insert la o1 = Inr (j, o2)"
    and push: "u_push api ((us_sqe (set_flags IO_LINK a))\<lparr>sqe_user_data := i\<rparr>) (drv_uring (cl_driver c)) = Some u1"
      "u_push api ((us_sqe b)\<lparr>sqe_user_data := j\<rparr>) u1 = Some u2"
    and cq: "fst (u_completion api (snd (u_submit api u2))) = cqes"
    and fb: "final_batch (u_more api) ((abs_ops (drv_ops (cl_driver c)))(i \<mapsto> AInFlight None, j \<mapsto> AInFlight None)) cqes"
    by (auto simp: pair_served_def set_flags_def)
  note ins1 = ops_insert_ok [OF st(2,1) ins(1)]
  note ins2 = ops_insert_ok [OF ins1(1) st(1) ins(2)]
  have ij: "i \<noteq> j" using ins1 ins2 by auto
  let ?c1 = "c\<lparr>cl_driver := (cl_driver c)\<lparr>drv_ops := o1, drv_uring := u1\<rparr>\<rparr>"
  let ?c2 = "c\<lparr>cl_driver := (cl_driver c)\<lparr>drv_ops := o2, drv_uring := u2\<rparr>\<rparr>"
  have sub1: "oneshot_submit api la ca True (set_flags IO_LINK a) c = Some (Inr (mk_inflight i (set_flags IO_LINK a), ?c1))"
    by (rule oneshot_submit_room [OF st(3) ins(1) push(1)])
  have sub2: "oneshot_submit api la ca True b ?c1 = Some (Inr (mk_inflight j b, ?c2))"
    using oneshot_submit_room [of ?c1 la j o2 api b u2 ca] st(3) ins(2) push(2) by simp
  have ab: "abs_ops o2 = (abs_ops (drv_ops (cl_driver c)))(i \<mapsto> AInFlight None, j \<mapsto> AInFlight None)"
    using ins1 ins2 by (simp add: fun_eq_iff)
  have pre: "\<not> cl_borrowed ?c2" "ops_wf (drv_ops (cl_driver ?c2))"
    "fst (u_completion api (snd (u_submit api (drv_uring (cl_driver ?c2))))) = cqes"
    "final_batch (u_more api) (abs_ops (drv_ops (cl_driver ?c2))) cqes"
    using st(3) ins2(1) cq fb ab by simp_all
  obtain d3 where t: "run_turns api ca True [Park, Readable] ?c2 = Some (Inr ((), ?c2\<lparr>cl_driver := d3\<rparr>))" "ops_wf (drv_ops d3)"
      and cm: "\<And>e. e \<in> set cqes \<Longrightarrow> abs_ops (drv_ops d3) (cq_user_data e) = Some (ACompleted e)"
      and ot: "\<And>k. k \<notin> cq_user_data ` set cqes \<Longrightarrow> abs_ops (drv_ops d3) k = abs_ops (drv_ops (cl_driver ?c2)) k"
    by (rule round_batch [OF pre, of ca]) blast
  let ?c3 = "?c2\<lparr>cl_driver := d3\<rparr>"
  obtain o4 where p1: "handle_poll_op_2 w i ?c3 = Some (Inr (Ready e1, ?c3\<lparr>cl_driver := d3\<lparr>drv_ops := o4\<rparr>\<rparr>))" "ops_wf o4"
      "abs_ops o4 = (abs_ops (drv_ops d3))(i := None)"
    using poll_completed_cell [of ?c3 i e1 w] st(3) t(2) cm [OF assms(2)] assms(3) by auto
  let ?c4 = "?c3\<lparr>cl_driver := d3\<lparr>drv_ops := o4\<rparr>\<rparr>"
  obtain o5 where p2: "handle_poll_op_2 w j ?c4 = Some (Inr (Ready e2, ?c4\<lparr>cl_driver := d3\<lparr>drv_ops := o5\<rparr>\<rparr>))"
      "abs_ops o5 = (abs_ops o4)(j := None)"
    using poll_completed_cell [of ?c4 j e2 w] st(3) p1(2,3) cm [OF assms(4)] assms(5) ij by auto
  let ?c5 = "?c4\<lparr>cl_driver := d3\<lparr>drv_ops := o5\<rparr>\<rparr>"
  have "link_run api la ca tr1 tr2 w (oneshot_link a b) c = Some (Inr ((Ready out1, Ready out2), ?c5))"
    using sub1 sub2 t(1) p1(1) p2(1) assms(6,7) st(4)
    by (simp del: run_turns.simps add: link_run_def link_submit_def oneshot_link_def link_new_def linked_poll_def
        oneshot_poll_def mk_inflight_def upgrade_def set_flags_def)
  moreover have "i \<in> cq_user_data ` set cqes" "j \<in> cq_user_data ` set cqes" using assms(2-5) by auto
  ultimately show ?thesis using p1(3) p2(2) ot ab ij by (intro conjI exI [of _ ?c5]) auto
qed

text \<open>A ring that answers operations 0 and 1.\<close>

definition pair_api :: "bool uring_api" where
  "pair_api = demo_api\<lparr>u_completion := (\<lambda>u. ([demo_cqe 0, (demo_cqe 0)\<lparr>cq_user_data := 1\<rparr>], False))\<rparr>"

lemma idle_pair_served: "pair_served pair_api (first_vacant 4) e1 e2 idle_cell 0 1 [demo_cqe 0, (demo_cqe 0)\<lparr>cq_user_data := 1\<rparr>]"
proof -
  obtain o1 o2 where "ops_insert (first_vacant 4) (drv_ops (cl_driver idle_cell)) = Inr (0, o1)" "ops_insert (first_vacant 4) o1 = Inr (1, o2)"
    by (auto simp: idle_cell_def ops_insert_def slab_insert_def first_vacant_def ops_new_def upt_conv_Cons)
  moreover have "u_push pair_api e v = Some v" "fst (u_completion pair_api v) = [demo_cqe 0, (demo_cqe 0)\<lparr>cq_user_data := 1\<rparr>]" for e v
    by (simp_all add: pair_api_def demo_api_def)
  ultimately have "\<exists>o1 o2 u1 u2. ops_insert (first_vacant 4) (drv_ops (cl_driver idle_cell)) = Inr (0, o1)
      \<and> ops_insert (first_vacant 4) o1 = Inr (1, o2)
      \<and> u_push pair_api (e1\<lparr>sqe_flags := sqe_flags e1 @ [IO_LINK], sqe_user_data := 0\<rparr>) (drv_uring (cl_driver idle_cell)) = Some u1
      \<and> u_push pair_api (e2\<lparr>sqe_user_data := 1\<rparr>) u1 = Some u2
      \<and> fst (u_completion pair_api (snd (u_submit pair_api u2))) = [demo_cqe 0, (demo_cqe 0)\<lparr>cq_user_data := 1\<rparr>]"
    by blast
  then show ?thesis
    unfolding pair_served_def
    by (simp add: demo_alloc final_batch_def) (simp add: pair_api_def demo_api_def idle_cell_def demo_cqe_def demo_more_def usize_MAX_def ops_wf_new)
qed

theorem linked_pair_end_to_end_witness:
  "\<exists>c4. link_run pair_api (first_vacant 4) (first_vacant 4) (\<lambda>p d e. Inr (rw_transform p d e)) (\<lambda>p d e. Inr (rw_transform p d e)) 7
     (oneshot_link (file_write_at (file_from_std 5) demo_fixed 0) (file_write_at (file_from_std 5) demo_fixed 9)) idle_cell
     = Some (Inr ((Ready (Ok (5, demo_fixed)), Ready (Ok (5, demo_fixed))), c4))"
proof -
  have tr: "rw_transform (us_post_op (file_write_at f demo_fixed pos)) (us_stable_data (file_write_at f demo_fixed pos)) e = Ok (5, demo_fixed)"
    if "cq_result e = 5" for f pos e
    using that by (simp add: rw_transform_def file_write_at_def write_at_def Let_def unsubmitted_new_def word_sless_alt)
  show ?thesis
    using linked_pair_end_to_end [OF idle_pair_served, of "demo_cqe 0" "(demo_cqe 0)\<lparr>cq_user_data := 1\<rparr>"
        "\<lambda>p d e. Inr (rw_transform p d e)" "file_write_at (file_from_std 5) demo_fixed 0" "Ok (5, demo_fixed)"
        "\<lambda>p d e. Inr (rw_transform p d e)" "file_write_at (file_from_std 5) demo_fixed 9" "Ok (5, demo_fixed)"
        "first_vacant 4" 7]
    by (auto simp: demo_cqe_def tr)
qed

end
